(* ===== verification/Prelude.thy ===== *)
theory Prelude
  imports Main "HOL-Library.Word"
begin

text \<open>
  Shared ground of the development.

  \<^item> Names for the machine types of the Go sources: \<open>u8\<close> (byte), \<open>u32\<close>, \<open>u64\<close>; the
    fixed arrays \<open>common.Address\<close> ([20]byte) and \<open>common.Hash\<close> ([32]byte) are the words of
    the same width, read big-endian; \<open>u256\<close> is the value of a \<open>uint256.Int\<close>.
  \<^item> \<open>outcome\<close>: what a call of Go code does: return a value, panic, or (only for the
    interpreter's loop) run out of the fuel the model gave it.
  \<^item> Byte-slice helpers (\<open>copy\<close>, big-endian reading and writing) and the lemmas the
    components share. Generic word arithmetic goes into \<open>gas_arith\<close>.
\<close>

section \<open>Machine types\<close>

type_synonym u8 = "8 word"
type_synonym u32 = "32 word"
type_synonym u64 = "64 word"
type_synonym u256 = "256 word"
type_synonym bytes = "u8 list"
type_synonym address = "160 word"
type_synonym hash = "256 word"

section \<open>Outcomes of a call\<close>

text \<open>The panics the modelled code can raise: an index or slice bound, the explicit panics of
  \<open>Memory.Set\<close>, \<open>StateDB.SubRefund\<close>, \<open>StateDB.RevertToSnapshot\<close> and \<open>GasPool.AddGas\<close>, a nil
  dereference, a failed type assertion, and the other calls of \<open>panic\<close> with their message.\<close>

datatype panic =
    StackIndex
  | MemoryStore
  | SliceBounds
  | BitvecIndex
  | RefundBelowZero
  | BadRevision
  | NilDeref
  | TypeAssertion
  | GasPoolOverflow
  | Explicit string

datatype 'a outcome = Done 'a | Panicked panic | NoFuel

fun and_then :: "'a outcome \<Rightarrow> ('a \<Rightarrow> 'b outcome) \<Rightarrow> 'b outcome" where
  "and_then (Done x) f = f x"
| "and_then (Panicked p) f = Panicked p"
| "and_then NoFuel f = NoFuel"

lemma and_then_Done_iff:
  "and_then m f = Done y \<longleftrightarrow> (\<exists>x. m = Done x \<and> f x = Done y)"
  by (cases m) auto

lemma and_then_NoFuel_iff:
  "and_then m f = NoFuel \<longleftrightarrow> m = NoFuel \<or> (\<exists>x. m = Done x \<and> f x = NoFuel)"
  by (cases m) auto

lemma and_then_Panicked_iff:
  "and_then m f = Panicked p \<longleftrightarrow> m = Panicked p \<or> (\<exists>x. m = Done x \<and> f x = Panicked p)"
  by (cases m) auto

lemma and_then_assoc: "and_then (and_then m f) g = and_then m (\<lambda>x. and_then (f x) g)"
  by (cases m) auto

lemmas and_then_iffs = and_then_Done_iff and_then_NoFuel_iff and_then_Panicked_iff

lemma and_then_cong [fundef_cong]:
  assumes "m = m'" and "\<And>x. m' = Done x \<Longrightarrow> f x = g x"
  shows "and_then m f = and_then m' g"
  using assms by (cases m') auto

section \<open>Byte slices\<close>

text \<open>Go's \<open>copy(dst[lo:hi], src)\<close>: it writes \<open>min (hi - lo) (len src)\<close> bytes.\<close>

definition copy_slice :: "bytes \<Rightarrow> nat \<Rightarrow> nat \<Rightarrow> bytes \<Rightarrow> bytes" where
  "copy_slice dst lo hi src =
     (let n = min (hi - lo) (length src) in take lo dst @ take n src @ drop (lo + n) dst)"

text \<open>\<open>b[lo:hi]\<close> for bounds that are in range.\<close>

definition slice :: "'a list \<Rightarrow> nat \<Rightarrow> nat \<Rightarrow> 'a list" where
  "slice b lo hi = take (hi - lo) (drop lo b)"

lemma length_copy_slice [simp]:
  assumes "lo \<le> hi" "hi \<le> length dst"
  shows "length (copy_slice dst lo hi src) = length dst"
  using assms by (simp add: copy_slice_def Let_def min_def)

lemma length_slice [simp]: "length (slice b lo hi) = min (hi - lo) (length b - lo)"
  by (simp add: slice_def min_def)

lemma slice_full [simp]: "slice b 0 (length b) = b"
  by (simp add: slice_def)

lemma slice_copy_slice_same:
  assumes "lo \<le> hi" "hi \<le> length dst" "length src = hi - lo"
  shows "slice (copy_slice dst lo hi src) lo hi = src"
  using assms by (simp add: copy_slice_def slice_def Let_def)

lemma nth_copy_slice:
  assumes "lo \<le> hi" "hi \<le> length dst" "length src = hi - lo" "i < length dst"
  shows "copy_slice dst lo hi src ! i = (if lo \<le> i \<and> i < hi then src ! (i - lo) else dst ! i)"
  using assms by (auto simp: copy_slice_def Let_def nth_append min_def)

text \<open>The big-endian bytes of a word, and the number a byte slice reads as.\<close>

definition be_bytes :: "nat \<Rightarrow> 'a::len word \<Rightarrow> bytes" where
  "be_bytes n w = map (\<lambda>i. ucast (drop_bit (8 * (n - 1 - i)) w)) [0..<n]"

definition be_nat :: "bytes \<Rightarrow> nat" where
  "be_nat bs = foldl (\<lambda>a b. a * 256 + unat b) 0 bs"

lemma length_be_bytes [simp]: "length (be_bytes n w) = n"
  by (simp add: be_bytes_def)

lemma foldl_be_acc:
  "foldl (\<lambda>a b. a * 256 + unat (b :: u8)) k bs = k * 256 ^ length bs + be_nat bs"
proof (induction bs arbitrary: k rule: rev_induct)
  case Nil
  then show ?case by (simp add: be_nat_def)
next
  case (snoc b bs)
  have "be_nat (bs @ [b]) = be_nat bs * 256 + unat b" by (simp add: be_nat_def)
  then show ?case using snoc.IH [of k] by (simp add: algebra_simps)
qed

lemma be_nat_Nil [simp]: "be_nat [] = 0"
  by (simp add: be_nat_def)

lemma be_nat_Cons: "be_nat (b # bs) = unat b * 256 ^ length bs + be_nat bs"
  using foldl_be_acc [of "unat b" bs] by (simp add: be_nat_def)

lemma be_nat_append: "be_nat (bs @ cs) = be_nat bs * 256 ^ length cs + be_nat cs"
  using foldl_be_acc [of "be_nat bs" cs] by (simp add: be_nat_def)

lemma be_nat_less: "be_nat bs < 256 ^ length bs"
proof (induction bs rule: rev_induct)
  case Nil
  then show ?case by simp
next
  case (snoc b bs)
  have b: "unat b < 256" using unsigned_less [of b] by simp
  have step: "n * 256 + k < m * 256" if "n < m" "k < 256" for n k m :: nat
    using that by linarith
  have "be_nat (bs @ [b]) = be_nat bs * 256 + unat b"
    by (simp add: be_nat_append be_nat_Cons)
  also have "\<dots> < 256 ^ length bs * 256"
    by (rule step [OF snoc.IH b])
  finally show ?case by (simp only: length_append_singleton power_Suc2)
qed

lemma be_nat_replicate_0 [simp]: "be_nat (replicate n 0) = 0"
  by (induction n) (simp_all add: be_nat_Cons)

text \<open>\<open>BitLen\<close> of a big integer.\<close>

fun big_BitLen :: "nat \<Rightarrow> nat" where
  "big_BitLen n = (if n = 0 then 0 else 1 + big_BitLen (n div 2))"

declare big_BitLen.simps [simp del]

lemma big_BitLen_le: "big_BitLen n \<le> k \<longleftrightarrow> n < 2 ^ k"
proof (induction k arbitrary: n)
  case 0
  then show ?case by (simp add: big_BitLen.simps)
next
  case (Suc k)
  show ?case
  proof (cases "n = 0")
    case False
    then have "big_BitLen n \<le> Suc k \<longleftrightarrow> n div 2 < 2 ^ k"
      using Suc.IH [of "n div 2"] by (simp add: big_BitLen.simps [of n])
    also have "\<dots> \<longleftrightarrow> n < 2 ^ Suc k" by (simp add: div_less_iff_less_mult mult.commute)
    finally show ?thesis .
  qed (simp add: big_BitLen.simps)
qed

section \<open>Word arithmetic\<close>

named_theorems gas_arith \<open>unsigned word arithmetic read on the natural numbers\<close>

lemma unat_sub_le [gas_arith]: "y \<le> x \<Longrightarrow> unat (x - y :: 'a::len word) = unat x - unat y"
  by (simp add: unat_sub)

lemma unat_add_le [gas_arith]:
  "unat x + unat y < 2 ^ LENGTH('a) \<Longrightarrow> unat (x + y :: 'a::len word) = unat x + unat y"
  by (simp add: unat_add_lem)

lemma u64_less: "unat (x :: u64) < 18446744073709551616"
  using unsigned_less [of x] by simp

end
