(* ===== verification/Common.thy ===== *)
theory Common
  imports Prelude
begin

text \<open>
  The helpers of \<open>common/bytes.go\<close>, \<open>common/types.go\<close> and \<open>common/math/integer.go\<close> that the
  virtual machine, the state database and the RLP codec use: zero padding and trimming,
  the cropping conversions of byte slices to \<open>Hash\<close> and \<open>Address\<close>, and the overflow-checked
  \<open>uint64\<close> arithmetic (Go's \<open>bits.Add64\<close>, \<open>bits.Sub64\<close>, \<open>bits.Mul64\<close> written out).
\<close>

section \<open>common/bytes.go\<close>

definition RightPadBytes :: "bytes \<Rightarrow> nat \<Rightarrow> bytes" where
  "RightPadBytes sl l =
     (if l \<le> length sl then sl else copy_slice (replicate l 0) 0 l sl)"

definition LeftPadBytes :: "bytes \<Rightarrow> nat \<Rightarrow> bytes" where
  "LeftPadBytes sl l =
     (if l \<le> length sl then sl else copy_slice (replicate l 0) (l - length sl) l sl)"

fun TrimLeftZeroes :: "bytes \<Rightarrow> bytes" where
  "TrimLeftZeroes [] = []"
| "TrimLeftZeroes (b # bs) = (if b \<noteq> 0 then b # bs else TrimLeftZeroes bs)"

function TrimRightZeroes_from :: "bytes \<Rightarrow> nat \<Rightarrow> bytes" where
  "TrimRightZeroes_from s idx =
     (if idx > 0 \<and> s ! (idx - 1) = 0 then TrimRightZeroes_from s (idx - 1) else take idx s)"
  by pat_completeness auto
termination
  by (relation "measure snd") auto

definition TrimRightZeroes :: "bytes \<Rightarrow> bytes" where
  "TrimRightZeroes s = TrimRightZeroes_from s (length s)"

section \<open>common/types.go\<close>

text \<open>\<open>Hash.SetBytes\<close> and \<open>Address.SetBytes\<close> keep the last 32 (20) bytes of a longer slice and
  right-align a shorter one; on a zero array that is the number the slice reads as, modulo
  the width.\<close>

definition Hash_SetBytes :: "hash \<Rightarrow> bytes \<Rightarrow> hash" where
  "Hash_SetBytes h b =
     (let b' = (if length b > 32 then drop (length b - 32) b else b)
      in of_nat (be_nat (copy_slice (be_bytes 32 h) (32 - length b') 32 b')))"

definition BytesToHash :: "bytes \<Rightarrow> hash" where
  "BytesToHash b = Hash_SetBytes 0 b"

definition Address_SetBytes :: "address \<Rightarrow> bytes \<Rightarrow> address" where
  "Address_SetBytes a b =
     (let b' = (if length b > 20 then drop (length b - 20) b else b)
      in of_nat (be_nat (copy_slice (be_bytes 20 a) (20 - length b') 20 b')))"

definition BytesToAddress :: "bytes \<Rightarrow> address" where
  "BytesToAddress b = Address_SetBytes 0 b"

definition Hash_Bytes :: "hash \<Rightarrow> bytes" where
  "Hash_Bytes h = be_bytes 32 h"

definition Address_Bytes :: "address \<Rightarrow> bytes" where
  "Address_Bytes a = be_bytes 20 a"

section \<open>common/math/integer.go\<close>

abbreviation MaxUint64 :: u64 where
  "MaxUint64 \<equiv> 0xffffffffffffffff"

definition SafeSub :: "u64 \<Rightarrow> u64 \<Rightarrow> u64 \<times> bool" where
  "SafeSub x y = (x - y, unat x < unat y)"

definition SafeAdd :: "u64 \<Rightarrow> u64 \<Rightarrow> u64 \<times> bool" where
  "SafeAdd x y = (x + y, unat x + unat y \<ge> 2 ^ 64)"

definition SafeMul :: "u64 \<Rightarrow> u64 \<Rightarrow> u64 \<times> bool" where
  "SafeMul x y = (x * y, unat x * unat y \<ge> 2 ^ 64)"

section \<open>Facts\<close>

lemma RightPadBytes_eq: "RightPadBytes sl l = sl @ replicate (l - length sl) 0"
  by (auto simp: RightPadBytes_def copy_slice_def Let_def min_def)

lemma LeftPadBytes_eq: "LeftPadBytes sl l = replicate (l - length sl) 0 @ sl"
  by (auto simp: LeftPadBytes_def copy_slice_def Let_def min_def)

lemma length_RightPadBytes [simp]: "length (RightPadBytes sl l) = max (length sl) l"
  by (auto simp: RightPadBytes_eq)

lemma length_LeftPadBytes [simp]: "length (LeftPadBytes sl l) = max (length sl) l"
  by (auto simp: LeftPadBytes_eq)

lemma TrimLeftZeroes_eq_dropWhile: "TrimLeftZeroes bs = dropWhile (\<lambda>b. b = 0) bs"
  by (induction bs) auto

lemma be_nat_TrimLeftZeroes: "be_nat (TrimLeftZeroes bs) = be_nat bs"
  by (induction bs) (auto simp: be_nat_Cons)

lemma length_TrimLeftZeroes: "length (TrimLeftZeroes bs) \<le> length bs"
  by (induction bs) auto

lemma be_nat_LeftPadBytes: "be_nat (LeftPadBytes bs l) = be_nat bs"
  by (simp add: LeftPadBytes_eq be_nat_append)

lemma SafeAdd_no_overflow:
  "SafeAdd x y = (z, False) \<Longrightarrow> unat z = unat x + unat y"
  by (auto simp: SafeAdd_def unat_word_ariths)

lemma SafeMul_no_overflow:
  "SafeMul x y = (z, False) \<Longrightarrow> unat z = unat x * unat y"
  by (auto simp: SafeMul_def unat_word_ariths)

lemma SafeSub_no_overflow:
  "SafeSub x y = (z, False) \<Longrightarrow> unat z = unat x - unat y \<and> unat y \<le> unat x"
  by (auto simp: SafeSub_def unat_sub word_le_nat_alt)

lemmas Safe_no_overflow = SafeAdd_no_overflow SafeMul_no_overflow SafeSub_no_overflow

text \<open>The bytes of a word and the word of its bytes.\<close>

lemma be_bytes_Suc:
  "be_bytes (Suc n) w = ucast (drop_bit (8 * n) w) # be_bytes n w"
proof -
  have eq: "[0..<Suc n] = 0 # map Suc [0..<n]"
    by (simp add: map_Suc_upt upt_conv_Cons)
  show ?thesis unfolding be_bytes_def eq by (simp add: comp_def)
qed

lemma be_nat_be_bytes: "be_nat (be_bytes n w) = unat w mod 256 ^ n"
proof (induction n)
  case 0
  then show ?case by (simp add: be_bytes_def)
next
  case (Suc n)
  have p: "(256::nat) ^ n = 2 ^ (8 * n)" by (simp add: power_mult)
  have shift: "unat (drop_bit (8 * n) w) = unat w div 256 ^ n"
    by (simp only: unsigned_drop_bit_eq) (simp add: drop_bit_eq_div p take_bit_eq_mod unsigned_less)
  have top: "unat (ucast (drop_bit (8 * n) w) :: u8) = unat w div 256 ^ n mod 256"
    by (simp only: unsigned_ucast_eq shift) (simp add: take_bit_eq_mod)
  have "unat w mod (256 ^ n * 256) = 256 ^ n * (unat w div 256 ^ n mod 256) + unat w mod 256 ^ n"
    by (rule mod_mult2_eq)
  then have "unat w mod (256 * 256 ^ n) = unat w div 256 ^ n mod 256 * 256 ^ n + unat w mod 256 ^ n"
    by (simp add: mult.commute)
  then show ?case
    by (simp add: be_bytes_Suc be_nat_Cons top Suc.IH)
qed

lemma be_bytes_0 [simp]: "be_bytes n 0 = replicate n 0"
  by (simp add: be_bytes_def map_replicate_const)

lemma copy_slice_right_align:
  "length b \<le> n \<Longrightarrow> copy_slice (replicate n 0) (n - length b) n b = replicate (n - length b) 0 @ b"
  by (simp add: copy_slice_def Let_def min_def)

lemma BytesToHash_short: "length b \<le> 32 \<Longrightarrow> BytesToHash b = of_nat (be_nat b)"
  by (simp add: BytesToHash_def Hash_SetBytes_def copy_slice_right_align be_nat_append)

lemma BytesToAddress_short: "length b \<le> 20 \<Longrightarrow> BytesToAddress b = of_nat (be_nat b)"
  by (simp add: BytesToAddress_def Address_SetBytes_def copy_slice_right_align be_nat_append)

lemma BytesToHash_Hash_Bytes [simp]: "BytesToHash (Hash_Bytes h) = h"
proof -
  have "unat h < 2 ^ 256" using unsigned_less [of h] by simp
  then show ?thesis by (simp add: Hash_Bytes_def BytesToHash_short be_nat_be_bytes)
qed

lemma BytesToAddress_Address_Bytes [simp]: "BytesToAddress (Address_Bytes a) = a"
proof -
  have "unat a < 2 ^ 160" using unsigned_less [of a] by simp
  then show ?thesis by (simp add: Address_Bytes_def BytesToAddress_short be_nat_be_bytes)
qed

lemma length_Hash_Bytes [simp]: "length (Hash_Bytes h) = 32"
  by (simp add: Hash_Bytes_def)

lemma length_Address_Bytes [simp]: "length (Address_Bytes a) = 20"
  by (simp add: Address_Bytes_def)

lemma be_nat_inj: "length bs = length cs \<Longrightarrow> be_nat bs = be_nat cs \<Longrightarrow> bs = cs"
proof (induction bs cs rule: list_induct2)
  case Nil
  then show ?case by simp
next
  case (Cons b bs c cs)
  let ?p = "256 ^ length cs :: nat"
  have lt: "be_nat bs < ?p" "be_nat cs < ?p"
    using be_nat_less [of bs] be_nat_less [of cs] Cons.hyps by simp_all
  have eq: "unat b * ?p + be_nat bs = unat c * ?p + be_nat cs"
    using Cons.prems Cons.hyps by (simp add: be_nat_Cons)
  then have "(unat b * ?p + be_nat bs) div ?p = (unat c * ?p + be_nat cs) div ?p"
    by simp
  then have "unat b = unat c" using lt by simp
  moreover from this eq have "be_nat bs = be_nat cs" by simp
  ultimately show ?case using Cons.IH by (simp add: unsigned_word_eqI)
qed

lemma Hash_Bytes_BytesToHash: "length b = 32 \<Longrightarrow> Hash_Bytes (BytesToHash b) = b"
proof (rule be_nat_inj)
  assume len: "length b = 32"
  then show "length (Hash_Bytes (BytesToHash b)) = length b" by simp
  have "be_nat b < 2 ^ 256" using be_nat_less [of b] len by simp
  then show "be_nat (Hash_Bytes (BytesToHash b)) = be_nat b"
    by (simp add: Hash_Bytes_def BytesToHash_short len be_nat_be_bytes unat_of_nat)
qed

end
