(* ===== verification/External.thy ===== *)
theory External
  imports Common
begin

text \<open>
  The code the modelled packages call that is not modelled: the third-party packages
  \<open>github.com/holiman/uint256\<close> and \<open>golang.org/x/crypto\<close>, the hash functions and the elliptic
  curve packages. Every definition that needs one of them takes the record \<open>ext\<close> as an
  argument. The locale \<open>uint256_api\<close> states the documented behaviour of the \<open>uint256\<close>
  package; it is interpreted on \<open>word_ext\<close>, the 256-bit words of HOL-Library.
\<close>

section \<open>The external functions\<close>

text \<open>The elliptic-curve routines that \<open>core/vm/contracts.go\<close> calls: decoding the points and
  scalars of the argument list, computing, and encoding the result.\<close>

datatype curve_op =
    Bn256Add | Bn256ScalarMul | Bn256Pairing
  | BlsG1Add | BlsG1Mul | BlsG1MultiExp | BlsG2Add | BlsG2Mul | BlsG2MultiExp
  | BlsPairing | BlsMapG1 | BlsMapG2

text \<open>Methods of \<open>uint256.Int\<close> that write their receiver return its new value here; the
  \<open>FromBig\<close> constructor and \<open>SetFromBig\<close> share a field (the callers ignore the overflow flag).\<close>

record ext =
  u_Add :: "u256 \<Rightarrow> u256 \<Rightarrow> u256"
  u_Sub :: "u256 \<Rightarrow> u256 \<Rightarrow> u256"
  u_Mul :: "u256 \<Rightarrow> u256 \<Rightarrow> u256"
  u_Div :: "u256 \<Rightarrow> u256 \<Rightarrow> u256"
  u_SDiv :: "u256 \<Rightarrow> u256 \<Rightarrow> u256"
  u_Mod :: "u256 \<Rightarrow> u256 \<Rightarrow> u256"
  u_SMod :: "u256 \<Rightarrow> u256 \<Rightarrow> u256"
  u_Exp :: "u256 \<Rightarrow> u256 \<Rightarrow> u256"
  u_ExtendSign :: "u256 \<Rightarrow> u256 \<Rightarrow> u256"
  u_AddMod :: "u256 \<Rightarrow> u256 \<Rightarrow> u256 \<Rightarrow> u256"
  u_MulMod :: "u256 \<Rightarrow> u256 \<Rightarrow> u256 \<Rightarrow> u256"
  u_Not :: "u256 \<Rightarrow> u256"
  u_And :: "u256 \<Rightarrow> u256 \<Rightarrow> u256"
  u_Or :: "u256 \<Rightarrow> u256 \<Rightarrow> u256"
  u_Xor :: "u256 \<Rightarrow> u256 \<Rightarrow> u256"
  u_Byte :: "u256 \<Rightarrow> u256 \<Rightarrow> u256"
  u_Lsh :: "u256 \<Rightarrow> u64 \<Rightarrow> u256"
  u_Rsh :: "u256 \<Rightarrow> u64 \<Rightarrow> u256"
  u_SRsh :: "u256 \<Rightarrow> u64 \<Rightarrow> u256"
  u_Lt :: "u256 \<Rightarrow> u256 \<Rightarrow> bool"
  u_Gt :: "u256 \<Rightarrow> u256 \<Rightarrow> bool"
  u_Slt :: "u256 \<Rightarrow> u256 \<Rightarrow> bool"
  u_Sgt :: "u256 \<Rightarrow> u256 \<Rightarrow> bool"
  u_Eq :: "u256 \<Rightarrow> u256 \<Rightarrow> bool"
  u_IsZero :: "u256 \<Rightarrow> bool"
  u_LtUint64 :: "u256 \<Rightarrow> u64 \<Rightarrow> bool"
  u_GtUint64 :: "u256 \<Rightarrow> u64 \<Rightarrow> bool"
  u_Sign :: "u256 \<Rightarrow> int"
  u_BitLen :: "u256 \<Rightarrow> nat"
  u_IsUint64 :: "u256 \<Rightarrow> bool"
  u_Uint64 :: "u256 \<Rightarrow> u64"
  u_Uint64WithOverflow :: "u256 \<Rightarrow> u64 \<times> bool"
  u_SetUint64 :: "u64 \<Rightarrow> u256"
  u_SetBytes :: "bytes \<Rightarrow> u256"
  u_Bytes20 :: "u256 \<Rightarrow> address"
  u_Bytes32 :: "u256 \<Rightarrow> hash"
  u_ToBig :: "u256 \<Rightarrow> int"
  u_FromBig :: "int \<Rightarrow> u256"
  u_WriteToSlice :: "u256 \<Rightarrow> bytes \<Rightarrow> bytes"
  u_Clear :: u256
  u_SetOne :: u256
  u_SetAllOne :: u256
  keccak256 :: "bytes \<Rightarrow> hash"
  sha256_Sum256 :: "bytes \<Rightarrow> bytes"
  ripemd160_Sum :: "bytes \<Rightarrow> bytes"
  Ecrecover :: "bytes \<Rightarrow> bytes \<Rightarrow> bytes option"
  curve_run :: "curve_op \<Rightarrow> bytes list \<Rightarrow> string + bytes"

section \<open>Documented behaviour of uint256\<close>

text \<open>Signed division and remainder truncate towards zero, as in Go.\<close>

definition go_quot :: "int \<Rightarrow> int \<Rightarrow> int" where
  "go_quot a b = sgn a * sgn b * (\<bar>a\<bar> div \<bar>b\<bar>)"

definition go_rem :: "int \<Rightarrow> int \<Rightarrow> int" where
  "go_rem a b = sgn a * (\<bar>a\<bar> mod \<bar>b\<bar>)"

locale uint256_api =
  fixes X :: ext
  assumes Add: "u_Add X x y = x + y"
    and Sub: "u_Sub X x y = x - y"
    and Mul: "u_Mul X x y = x * y"
    and Div: "u_Div X x y = (if y = 0 then 0 else x div y)"
    and SDiv: "u_SDiv X x y = (if y = 0 then 0 else word_of_int (go_quot (sint x) (sint y)))"
    and Mod: "u_Mod X x y = (if y = 0 then 0 else x mod y)"
    and SMod: "u_SMod X x y = (if y = 0 then 0 else word_of_int (go_rem (sint x) (sint y)))"
    and Exp: "u_Exp X x y = x ^ unat y"
    and ExtendSign: "u_ExtendSign X x b =
      (if 30 < unat b then x else signed_take_bit (8 * unat b + 7) x)"
    and AddMod: "m \<noteq> 0 \<Longrightarrow> u_AddMod X x y m = word_of_int ((uint x + uint y) mod uint m)"
    and MulMod: "u_MulMod X x y m = (if m = 0 then 0 else word_of_int ((uint x * uint y) mod uint m))"
    and Not: "u_Not X x = not x"
    and And: "u_And X x y = and x y"
    and Or: "u_Or X x y = or x y"
    and Xor: "u_Xor X x y = xor x y"
    and Byte: "u_Byte X x th =
      (if unat th < 32 then take_bit 8 (drop_bit (8 * (31 - unat th)) x) else 0)"
    and Lsh: "u_Lsh X x n = push_bit (unat n) x"
    and Rsh: "u_Rsh X x n = drop_bit (unat n) x"
    and SRsh: "u_SRsh X x n = signed_drop_bit (unat n) x"
    and Lt: "u_Lt X x y \<longleftrightarrow> x < y"
    and Gt: "u_Gt X x y \<longleftrightarrow> y < x"
    and Slt: "u_Slt X x y \<longleftrightarrow> sint x < sint y"
    and Sgt: "u_Sgt X x y \<longleftrightarrow> sint y < sint x"
    and Eq: "u_Eq X x y \<longleftrightarrow> x = y"
    and IsZero: "u_IsZero X x \<longleftrightarrow> x = 0"
    and LtUint64: "u_LtUint64 X x n \<longleftrightarrow> unat x < unat n"
    and GtUint64: "u_GtUint64 X x n \<longleftrightarrow> unat n < unat x"
    and Sign: "u_Sign X x = sgn (sint x)"
    and BitLen: "u_BitLen X x = big_BitLen (unat x)"
    and IsUint64: "u_IsUint64 X x \<longleftrightarrow> unat x < 2 ^ 64"
    and Uint64: "u_Uint64 X x = ucast x"
    and Uint64WithOverflow: "u_Uint64WithOverflow X x = (ucast x, 2 ^ 64 \<le> unat x)"
    and SetUint64: "u_SetUint64 X n = ucast n"
    and SetBytes: "u_SetBytes X buf = of_nat (be_nat buf)"
    and Bytes20: "u_Bytes20 X x = ucast x"
    and Bytes32: "u_Bytes32 X x = x"
    and ToBig: "u_ToBig X x = uint x"
    and FromBig: "u_FromBig X i = word_of_int i"
    and WriteToSlice: "32 \<le> length d \<Longrightarrow> u_WriteToSlice X x d = be_bytes 32 x @ drop 32 d"
    and Clear: "u_Clear X = 0"
    and SetOne: "u_SetOne X = 1"
    and SetAllOne: "u_SetAllOne X = - 1"
begin

lemma Uint64_no_overflow:
  "u_Uint64WithOverflow X x = (v, False) \<Longrightarrow> v = u_Uint64 X x \<and> unat v = unat x"
  by (auto simp: Uint64WithOverflow Uint64 unsigned_ucast_eq take_bit_eq_mod)

lemma Uint64_small: "unat x < 2 ^ 64 \<Longrightarrow> unat (u_Uint64 X x) = unat x"
  by (simp add: Uint64 unsigned_ucast_eq take_bit_eq_mod)

lemma SetUint64_value: "unat (u_SetUint64 X n) = unat n"
proof -
  have "unat n < 2 ^ 64" using unsigned_less [of n] by simp
  then show ?thesis by (simp add: SetUint64 unsigned_ucast_eq take_bit_eq_mod)
qed

lemma length_WriteToSlice: "32 \<le> length d \<Longrightarrow> length (u_WriteToSlice X x d) = length d"
  by (simp add: WriteToSlice)

lemma SetBytes_Hash_Bytes: "u_SetBytes X (Hash_Bytes h) = h"
proof -
  have "unat h < 2 ^ 256" using unsigned_less [of h] by simp
  then show ?thesis by (simp add: SetBytes Hash_Bytes_def be_nat_be_bytes)
qed

lemma Bytes20_SetBytes_Address: "u_Bytes20 X (u_SetBytes X (Address_Bytes a)) = a"
proof -
  have "unat a < 2 ^ 160" using unsigned_less [of a] by simp
  then have "u_SetBytes X (Address_Bytes a) = ucast a"
    by (simp add: SetBytes Address_Bytes_def be_nat_be_bytes)
  moreover have "ucast (ucast a :: u256) = a"
    by (rule ucast_up_ucast_id) (simp add: is_up)
  ultimately show ?thesis by (simp add: Bytes20)
qed

end

section \<open>The words of HOL-Library provide the interface\<close>

definition word_ext :: ext where
  "word_ext =
    \<lparr> u_Add = (+), u_Sub = (-), u_Mul = (*),
      u_Div = (\<lambda>x y. if y = 0 then 0 else x div y),
      u_SDiv = (\<lambda>x y. if y = 0 then 0 else word_of_int (go_quot (sint x) (sint y))),
      u_Mod = (\<lambda>x y. if y = 0 then 0 else x mod y),
      u_SMod = (\<lambda>x y. if y = 0 then 0 else word_of_int (go_rem (sint x) (sint y))),
      u_Exp = (\<lambda>x y. x ^ unat y),
      u_ExtendSign = (\<lambda>x b. if 30 < unat b then x else signed_take_bit (8 * unat b + 7) x),
      u_AddMod = (\<lambda>x y m. word_of_int ((uint x + uint y) mod uint m)),
      u_MulMod = (\<lambda>x y m. if m = 0 then 0 else word_of_int ((uint x * uint y) mod uint m)),
      u_Not = not, u_And = and, u_Or = or, u_Xor = xor,
      u_Byte = (\<lambda>x n. if unat n < 32 then take_bit 8 (drop_bit (8 * (31 - unat n)) x) else 0),
      u_Lsh = (\<lambda>x n. push_bit (unat n) x),
      u_Rsh = (\<lambda>x n. drop_bit (unat n) x),
      u_SRsh = (\<lambda>x n. signed_drop_bit (unat n) x),
      u_Lt = (<), u_Gt = (>),
      u_Slt = (\<lambda>x y. sint x < sint y), u_Sgt = (\<lambda>x y. sint y < sint x),
      u_Eq = (=), u_IsZero = (\<lambda>x. x = 0),
      u_LtUint64 = (\<lambda>x n. unat x < unat n), u_GtUint64 = (\<lambda>x n. unat n < unat x),
      u_Sign = (\<lambda>x. sgn (sint x)),
      u_BitLen = (\<lambda>x. big_BitLen (unat x)),
      u_IsUint64 = (\<lambda>x. unat x < 2 ^ 64),
      u_Uint64 = ucast,
      u_Uint64WithOverflow = (\<lambda>x. (ucast x, 2 ^ 64 \<le> unat x)),
      u_SetUint64 = ucast,
      u_SetBytes = (\<lambda>b. of_nat (be_nat b)),
      u_Bytes20 = ucast, u_Bytes32 = id,
      u_ToBig = uint, u_FromBig = word_of_int,
      u_WriteToSlice = (\<lambda>x d. be_bytes 32 x @ drop 32 d),
      u_Clear = 0, u_SetOne = 1, u_SetAllOne = - 1,
      keccak256 = (\<lambda>b. of_nat (be_nat b) + of_nat (length b) + 1),
      sha256_Sum256 = (\<lambda>b. be_bytes 32 (of_nat (be_nat b) :: u256)),
      ripemd160_Sum = (\<lambda>b. be_bytes 20 (of_nat (be_nat b) :: address)),
      Ecrecover = (\<lambda>_ _. None),
      curve_run = (\<lambda>_ _. Inr []) \<rparr>"

interpretation word: uint256_api word_ext
  by unfold_locales (simp_all add: word_ext_def)

end
