(* ===== verification/Rlp_Encode.thy ===== *)
theory Rlp_Encode
  imports Common
begin

text \<open>
  \<open>rlp/encode.go\<close>: the encode buffer, which collects the string data and the list headers
  separately and joins them at the end, and the writers the reflection code selects for a
  Go value. A Go \<open>int\<close> that counts bytes is a natural number; \<open>uint64(size)\<close> is written out.
  The theorems compare the buffer with the direct recursive definition of the encoding.
\<close>

section \<open>Integers and headers\<close>

text \<open>\<open>intsize\<close> counts the shifts by 8 that leave something; \<open>putint\<close> selects the number of
  bytes by comparisons. It returns the bytes it writes to the start of its buffer.\<close>

function intsize :: "u64 \<Rightarrow> nat" where
  "intsize i = (if drop_bit 8 i = 0 then 1 else 1 + intsize (drop_bit 8 i))"
  by pat_completeness auto

lemma unat_drop_bit_8: "unat (drop_bit 8 (i :: u64)) = unat i div 256"
  using u64_less [of i]
  by (simp only: unsigned_drop_bit_eq) (simp add: drop_bit_eq_div take_bit_eq_mod)

termination intsize
proof (relation "measure unat")
  fix i :: u64
  assume "drop_bit 8 i \<noteq> 0"
  then have "i \<noteq> 0" by auto
  then have "0 < unat i" by (metis gr0I unsigned_eq_0_iff)
  then show "(drop_bit 8 i, i) \<in> measure unat" by (simp add: unat_drop_bit_8)
qed simp

declare intsize.simps [simp del]

definition putint_size :: "u64 \<Rightarrow> nat" where
  "putint_size i =
     (if i < 2 ^ 8 then 1 else if i < 2 ^ 16 then 2 else if i < 2 ^ 24 then 3
      else if i < 2 ^ 32 then 4 else if i < 2 ^ 40 then 5 else if i < 2 ^ 48 then 6
      else if i < 2 ^ 56 then 7 else 8)"

definition putint :: "u64 \<Rightarrow> bytes" where
  "putint i = be_bytes (putint_size i) i"

definition headsize :: "u64 \<Rightarrow> nat" where
  "headsize sz = (if sz < 56 then 1 else 1 + intsize sz)"

definition puthead :: "u8 \<Rightarrow> u8 \<Rightarrow> u64 \<Rightarrow> bytes" where
  "puthead smalltag largetag sz =
     (if sz < 56 then [smalltag + ucast sz]
      else (largetag + of_nat (length (putint sz))) # putint sz)"

definition ListSize :: "u64 \<Rightarrow> u64" where
  "ListSize contentSize = of_nat (headsize contentSize) + contentSize"

section \<open>The buffer\<close>

record listhead =
  lh_offset :: nat
  lh_size :: nat

definition listhead_encode :: "listhead \<Rightarrow> bytes" where
  "listhead_encode head = puthead 0xC0 0xF7 (of_nat (lh_size head))"

record encbuf =
  str :: bytes
  lheads :: "listhead list"
  lhsize :: nat

definition encbuf_reset :: encbuf where
  "encbuf_reset = \<lparr> str = [], lheads = [], lhsize = 0 \<rparr>"

definition encbuf_Write :: "bytes \<Rightarrow> encbuf \<Rightarrow> encbuf" where
  "encbuf_Write b w = w\<lparr>str := str w @ b\<rparr>"

definition encodeStringHeader :: "nat \<Rightarrow> encbuf \<Rightarrow> encbuf" where
  "encodeStringHeader sz w =
     (if sz < 56 then w\<lparr>str := str w @ [0x80 + of_nat sz]\<rparr>
      else let sizebytes = putint (of_nat sz)
           in w\<lparr>str := str w @ (0xB7 + of_nat (length sizebytes)) # sizebytes\<rparr>)"

definition encodeString :: "bytes \<Rightarrow> encbuf \<Rightarrow> encbuf" where
  "encodeString b w =
     (if length b = 1 \<and> b ! 0 \<le> 0x7F then w\<lparr>str := str w @ [b ! 0]\<rparr>
      else let w1 = encodeStringHeader (length b) w in w1\<lparr>str := str w1 @ b\<rparr>)"

definition encodeUint :: "u64 \<Rightarrow> encbuf \<Rightarrow> encbuf" where
  "encodeUint i w =
     (if i = 0 then w\<lparr>str := str w @ [0x80]\<rparr>
      else if i < 128 then w\<lparr>str := str w @ [ucast i]\<rparr>
      else let s = putint i in w\<lparr>str := str w @ (0x80 + of_nat (length s)) # s\<rparr>)"

definition encbuf_size :: "encbuf \<Rightarrow> nat" where
  "encbuf_size w = length (str w) + lhsize w"

definition encbuf_list :: "encbuf \<Rightarrow> nat \<times> encbuf" where
  "encbuf_list w =
     (length (lheads w),
      w\<lparr>lheads := lheads w @ [\<lparr> lh_offset = length (str w), lh_size = lhsize w \<rparr>]\<rparr>)"

definition listEnd :: "nat \<Rightarrow> encbuf \<Rightarrow> encbuf" where
  "listEnd index w =
     (let lh = lheads w ! index;
          lh' = lh\<lparr>lh_size := encbuf_size w - lh_offset lh - lh_size lh\<rparr>
      in w\<lparr>lheads := (lheads w)[index := lh'],
           lhsize := lhsize w + (if lh_size lh' < 56 then 1 else 1 + intsize (of_nat (lh_size lh')))\<rparr>)"

text \<open>\<open>toBytes\<close> writes into a buffer of \<open>size()\<close> bytes: \<open>copy(out[pos:], src)\<close> stops at the end
  of the buffer, and a header that does not fit panics.\<close>

primrec toBytes_from :: "bytes \<Rightarrow> listhead list \<Rightarrow> nat \<Rightarrow> nat \<Rightarrow> bytes \<Rightarrow> bytes outcome" where
  "toBytes_from s [] strpos pos out = Done (copy_slice out pos (length out) (drop strpos s))"
| "toBytes_from s (head # heads) strpos pos out =
     (let piece = slice s strpos (lh_offset head);
          n = min (length out - pos) (length piece);
          out1 = copy_slice out pos (length out) piece;
          enc = listhead_encode head
      in if pos + n + length enc \<le> length out
         then toBytes_from s heads (strpos + n) (pos + n + length enc)
                (copy_slice out1 (pos + n) (length out) enc)
         else Panicked SliceBounds)"

definition toBytes :: "encbuf \<Rightarrow> bytes outcome" where
  "toBytes w = toBytes_from (str w) (lheads w) 0 0 (replicate (encbuf_size w) 0)"

section \<open>The writers\<close>

text \<open>A Go value by the writer \<open>makeWriter\<close> selects for its type. A nil pointer carries the
  kind its type prescribes for nil.\<close>

datatype Kind = Byte | String | List

datatype go_value =
    VUint u64
  | VBool bool
  | VBigIntPtr "int option"
  | VBytes bytes
  | VByteArray bytes
  | VString bytes
  | VRawValue bytes
  | VSlice "go_value list"
  | VStruct "go_value list"
  | VNilPtr Kind
  | VNilInterface

datatype rlp_error =
    ErrUnexpectedEOF
  | ErrExpectedString
  | ErrExpectedList
  | ErrCanonInt
  | ErrCanonSize
  | ErrValueTooLarge
  | errUintOverflow
  | errNegativeBigInt

fun writeBool :: "bool \<Rightarrow> encbuf \<Rightarrow> encbuf" where
  "writeBool b w = w\<lparr>str := str w @ [if b then 0x01 else 0x80]\<rparr>"

text \<open>The loop over \<open>i.Bits()\<close> fills the last \<open>length\<close> bytes of the buffer from the low end.\<close>

definition bigint_bytes :: "nat \<Rightarrow> nat \<Rightarrow> bytes" where
  "bigint_bytes len i = rev (map (\<lambda>k. of_nat (i div 256 ^ k)) [0..<len])"

definition writeBigInt :: "int \<Rightarrow> encbuf \<Rightarrow> rlp_error option \<times> encbuf" where
  "writeBigInt i w =
     (if i < 0 then (Some errNegativeBigInt, w)
      else let bitlen = big_BitLen (nat i)
           in if bitlen \<le> 64 then (None, encodeUint (of_int i) w)
              else let len = (bitlen + 7) div 8; w1 = encodeStringHeader len w
                   in (None, w1\<lparr>str := str w1 @ bigint_bytes len (nat i)\<rparr>))"

definition writeBigIntPtr :: "int option \<Rightarrow> encbuf \<Rightarrow> rlp_error option \<times> encbuf" where
  "writeBigIntPtr p w =
     (case p of None \<Rightarrow> (None, w\<lparr>str := str w @ [0x80]\<rparr>) | Some i \<Rightarrow> writeBigInt i w)"

text \<open>\<open>makeByteArrayWriter\<close>: arrays of length 0 and 1 have writers of their own, longer ones
  are copied behind a string header.\<close>

definition writeByteArray :: "bytes \<Rightarrow> encbuf \<Rightarrow> encbuf" where
  "writeByteArray a w =
     (if length a = 0 then w\<lparr>str := str w @ [0x80]\<rparr>
      else if length a = 1 then
        (let b = a ! 0 in w\<lparr>str := str w @ (if b \<le> 0x7f then [b] else [0x81, b])\<rparr>)
      else let w1 = encodeStringHeader (length a) w in w1\<lparr>str := str w1 @ a\<rparr>)"

fun write_value :: "go_value \<Rightarrow> encbuf \<Rightarrow> rlp_error option \<times> encbuf"
  and write_values :: "go_value list \<Rightarrow> encbuf \<Rightarrow> rlp_error option \<times> encbuf" where
  "write_value (VUint i) w = (None, encodeUint i w)"
| "write_value (VBool b) w = (None, writeBool b w)"
| "write_value (VBigIntPtr p) w = writeBigIntPtr p w"
| "write_value (VBytes b) w = (None, encodeString b w)"
| "write_value (VByteArray a) w = (None, writeByteArray a w)"
| "write_value (VString s) w = (None, encodeString s w)"
| "write_value (VRawValue r) w = (None, w\<lparr>str := str w @ r\<rparr>)"
| "write_value (VSlice vs) w =
     (let (lh, w1) = encbuf_list w; (err, w2) = write_values vs w1 in (err, listEnd lh w2))"
| "write_value (VStruct vs) w =
     (let (lh, w1) = encbuf_list w; (err, w2) = write_values vs w1
      in case err of Some e \<Rightarrow> (Some e, w2) | None \<Rightarrow> (None, listEnd lh w2))"
| "write_value (VNilPtr k) w =
     (if k = String then (None, w\<lparr>str := str w @ [0x80]\<rparr>)
      else let (lh, w1) = encbuf_list w in (None, listEnd lh w1))"
| "write_value VNilInterface w = (None, w\<lparr>str := str w @ [0xC0]\<rparr>)"
| "write_values [] w = (None, w)"
| "write_values (v # vs) w =
     (case write_value v w of
        (Some e, w1) \<Rightarrow> (Some e, w1)
      | (None, w1) \<Rightarrow> write_values vs w1)"

definition EncodeToBytes :: "go_value \<Rightarrow> (rlp_error + bytes) outcome" where
  "EncodeToBytes v =
     (case write_value v encbuf_reset of
        (Some e, _) \<Rightarrow> Done (Inl e)
      | (None, w) \<Rightarrow> and_then (toBytes w) (\<lambda>b. Done (Inr b)))"

section \<open>Minimal big-endian numbers\<close>

text \<open>The reference: the base-256 digits of a number, without leading zeros.\<close>

fun min_be :: "nat \<Rightarrow> bytes" where
  "min_be n = (if n = 0 then [] else min_be (n div 256) @ [of_nat n])"

declare min_be.simps [simp del]

lemma min_be_0 [simp]: "min_be 0 = []"
  by (simp add: min_be.simps)

lemma min_be_pos: "0 < n \<Longrightarrow> min_be n = min_be (n div 256) @ [of_nat n]"
  by (subst min_be.simps) simp

lemma min_be_Nil_iff [simp]: "min_be n = [] \<longleftrightarrow> n = 0"
  by (cases "n = 0") (simp_all add: min_be_pos)

lemma length_min_be_le: "length (min_be n) \<le> k \<longleftrightarrow> n < 256 ^ k"
proof (induction k arbitrary: n)
  case 0
  then show ?case by simp
next
  case (Suc k)
  show ?case
  proof (cases "n = 0")
    case False
    then have "length (min_be n) \<le> Suc k \<longleftrightarrow> n div 256 < 256 ^ k"
      using Suc.IH [of "n div 256"] by (simp add: min_be_pos)
    also have "\<dots> \<longleftrightarrow> n < 256 ^ Suc k" by (simp add: div_less_iff_less_mult mult.commute)
    finally show ?thesis .
  qed simp
qed

lemma be_nat_min_be [simp]: "be_nat (min_be n) = n"
proof (induction n rule: min_be.induct)
  case (1 n)
  show ?case
  proof (cases "n = 0")
    case False
    then have "be_nat (min_be n) = n div 256 * 256 + n mod 256"
      using "1.IH" by (simp add: min_be_pos be_nat_append be_nat_Cons unsigned_of_nat take_bit_eq_mod)
    then show ?thesis by simp
  qed simp
qed

lemma min_be_hd: "0 < n \<Longrightarrow> hd (min_be n) \<noteq> 0"
proof (induction n rule: min_be.induct)
  case (1 n)
  show ?case
  proof (cases "n div 256 = 0")
    case True
    then have "n < 256" by (simp add: div_eq_0_iff)
    then have "of_nat n \<noteq> (0 :: u8)" using "1.prems"
      by (auto simp: word_of_nat_eq_0_iff dest: dvd_imp_le)
    with True "1.prems" show ?thesis by (simp add: min_be_pos)
  next
    case False
    then have "min_be (n div 256) \<noteq> []" by simp
    then show ?thesis using "1.IH" "1.prems" False by (simp add: min_be_pos [of n] del: min_be_Nil_iff)
  qed
qed

lemma be_bytes_snoc: "be_bytes (Suc n) w = be_bytes n (drop_bit 8 w) @ [ucast w]"
proof -
  have "8 * (Suc n - 1 - i) = 8 * (n - 1 - i) + 8" if "i < n" for i using that by simp
  then have "map (\<lambda>i. ucast (drop_bit (8 * (Suc n - 1 - i)) w)) [0..<n] =
      map (\<lambda>i. ucast (drop_bit (8 * (n - 1 - i)) (drop_bit 8 w))) [0..<n]"
    by (intro map_cong refl) (simp only: drop_bit_drop_bit atLeast_upt atLeastLessThan_iff set_upt)
  then show ?thesis by (simp add: be_bytes_def del: diff_diff_left)
qed

lemma be_bytes_min_be: "be_bytes (length (min_be (unat w))) w = min_be (unat w)" for w :: u64
proof (induction "unat w" arbitrary: w rule: less_induct)
  case less
  show ?case
  proof (cases "unat w = 0")
    case False
    have "be_bytes (length (min_be (unat w))) w =
        be_bytes (length (min_be (unat (drop_bit 8 w)))) (drop_bit 8 w) @ [ucast w]"
      using False by (simp add: min_be_pos [of "unat w"] be_bytes_snoc unat_drop_bit_8)
    also have "\<dots> = min_be (unat w div 256) @ [of_nat (unat w)]"
      using False less [of "drop_bit 8 w"] by (simp add: unat_drop_bit_8)
    finally show ?thesis using False by (simp add: min_be_pos [of "unat w"])
  qed (simp add: be_bytes_def)
qed

lemma digits_unique:
  assumes "x < (256 :: nat) ^ n" "n = 1 \<or> 256 ^ (n - 1) \<le> x" "1 \<le> n"
    and "x < 256 ^ m" "m = 1 \<or> 256 ^ (m - 1) \<le> x" "1 \<le> m"
  shows "n = m"
proof -
  have le: "a \<le> b" if "x < 256 ^ b" "a = 1 \<or> 256 ^ (a - 1) \<le> x" "1 \<le> b" for a b :: nat
  proof (cases "a = 1")
    case False
    with that have "(256 :: nat) ^ (a - 1) < 256 ^ b" by linarith
    then have "a - 1 < b" by (rule power_less_imp_less_exp [rotated]) simp
    then show ?thesis by simp
  qed (use that in simp)
  show ?thesis using le [of m n] le [of n m] assms by simp
qed

lemma intsize_bounds:
  "unat i < 256 ^ intsize i \<and> (intsize i = 1 \<or> 256 ^ (intsize i - 1) \<le> unat i) \<and> 1 \<le> intsize i"
proof (induction i rule: intsize.induct)
  case (1 i)
  show ?case
  proof (cases "drop_bit 8 i = 0")
    case True
    then have "unat i div 256 = 0" using unat_drop_bit_8 [of i] by simp
    then have "unat i < 256" by (simp add: div_eq_0_iff)
    with True show ?thesis by (simp add: intsize.simps [of i])
  next
    case False
    have "unat (drop_bit 8 i) \<noteq> 0" using False by (simp add: unsigned_eq_0_iff)
    then have pos: "1 \<le> unat i div 256" by (simp add: unat_drop_bit_8)
    define k where "k = intsize (drop_bit 8 i)"
    from "1.IH" [OF False] have IH: "unat i div 256 < 256 ^ k"
      "k = 1 \<or> 256 ^ (k - 1) \<le> unat i div 256" "1 \<le> k"
      by (simp_all add: unat_drop_bit_8 k_def)
    have "256 ^ (k - 1) \<le> unat i div 256" using IH(2) pos by auto
    then have "256 ^ (k - 1) * 256 \<le> unat i" by (simp add: less_eq_div_iff_mult_less_eq)
    then have lo: "256 ^ k \<le> unat i" using IH(3) by (simp add: power_eq_if)
    have "unat i < 256 ^ k * 256" using IH(1) by (simp add: div_less_iff_less_mult)
    with lo IH(3) False show ?thesis
      by (simp add: intsize.simps [of i] k_def mult.commute)
  qed
qed

lemma putint_size_bounds:
  "unat i < 256 ^ putint_size i \<and> (putint_size i = 1 \<or> 256 ^ (putint_size i - 1) \<le> unat i) \<and>
   1 \<le> putint_size i"
  using u64_less [of i] by (simp add: putint_size_def word_less_nat_alt not_less)

lemma intsize_putint_size: "intsize i = putint_size i"
  using digits_unique intsize_bounds [of i] putint_size_bounds [of i] by blast

lemma length_min_be_bounds:
  assumes "0 < n"
  shows "n < 256 ^ length (min_be n) \<and>
    (length (min_be n) = 1 \<or> 256 ^ (length (min_be n) - 1) \<le> n) \<and> 1 \<le> length (min_be n)"
proof -
  have one: "1 \<le> length (min_be n)" using assms by (simp add: Suc_le_eq)
  then have "\<not> length (min_be n) \<le> length (min_be n) - 1" by linarith
  then have "256 ^ (length (min_be n) - 1) \<le> n"
    by (simp only: length_min_be_le not_less)
  with one show ?thesis using length_min_be_le [of n "length (min_be n)"] by simp
qed

lemma putint_min_be: "0 < i \<Longrightarrow> putint i = min_be (unat i)"
proof -
  assume "0 < i"
  then have "0 < unat i" by (simp add: word_less_nat_alt)
  then have "putint_size i = length (min_be (unat i))"
    using digits_unique putint_size_bounds [of i] length_min_be_bounds by blast
  then show ?thesis by (simp add: putint_def be_bytes_min_be)
qed

lemma bigint_bytes_Suc: "bigint_bytes (Suc len) i = bigint_bytes len (i div 256) @ [of_nat i]"
proof -
  have "[0..<Suc len] = 0 # map Suc [0..<len]" by (simp only: upt_conv_Cons map_Suc_upt zero_less_Suc)
  then have "map (\<lambda>k. of_nat (i div 256 ^ k) :: u8) [0..<Suc len] =
      of_nat i # map (\<lambda>k. of_nat (i div 256 div 256 ^ k)) [0..<len]"
    by (simp add: div_mult2_eq comp_def del: upt_Suc)
  then show ?thesis by (simp add: bigint_bytes_def del: upt_Suc)
qed

lemma bigint_bytes_min_be: "bigint_bytes (length (min_be i)) i = min_be i"
proof (induction i rule: min_be.induct)
  case (1 i)
  show ?case
  proof (cases "i = 0")
    case False
    then show ?thesis using "1.IH" by (simp add: min_be_pos [of i] bigint_bytes_Suc)
  qed (simp add: bigint_bytes_def)
qed

lemma BitLen_min_be: "(big_BitLen n + 7) div 8 = length (min_be n)"
proof -
  have "(big_BitLen n + 7) div 8 \<le> k \<longleftrightarrow> length (min_be n) \<le> k" for k
  proof -
    have "(big_BitLen n + 7) div 8 \<le> k \<longleftrightarrow> big_BitLen n \<le> 8 * k" by linarith
    also have "\<dots> \<longleftrightarrow> n < 256 ^ k" by (simp add: big_BitLen_le power_mult)
    finally show ?thesis by (simp add: length_min_be_le)
  qed
  from this [of "length (min_be n)"] this [of "(big_BitLen n + 7) div 8"]
  show ?thesis by simp
qed

section \<open>The reference encoding\<close>

definition rlp_head :: "u8 \<Rightarrow> u8 \<Rightarrow> nat \<Rightarrow> bytes" where
  "rlp_head small large n =
     (if n < 56 then [small + of_nat n] else (large + of_nat (length (min_be n))) # min_be n)"

definition rlp_string :: "bytes \<Rightarrow> bytes" where
  "rlp_string b =
     (if length b = 1 \<and> b ! 0 \<le> 0x7F then b else rlp_head 0x80 0xB7 (length b) @ b)"

definition rlp_list :: "bytes \<Rightarrow> bytes" where
  "rlp_list content = rlp_head 0xC0 0xF7 (length content) @ content"

fun rlp_ref :: "go_value \<Rightarrow> bytes" where
  "rlp_ref (VUint i) = rlp_string (min_be (unat i))"
| "rlp_ref (VBool b) = rlp_string (if b then [1] else [])"
| "rlp_ref (VBigIntPtr p) = rlp_string (case p of None \<Rightarrow> [] | Some i \<Rightarrow> min_be (nat i))"
| "rlp_ref (VBytes b) = rlp_string b"
| "rlp_ref (VByteArray b) = rlp_string b"
| "rlp_ref (VString b) = rlp_string b"
| "rlp_ref (VRawValue r) = r"
| "rlp_ref (VSlice vs) = rlp_list (concat (map rlp_ref vs))"
| "rlp_ref (VStruct vs) = rlp_list (concat (map rlp_ref vs))"
| "rlp_ref (VNilPtr k) = (if k = String then rlp_string [] else rlp_list [])"
| "rlp_ref VNilInterface = rlp_list []"

fun nonneg :: "go_value \<Rightarrow> bool" where
  "nonneg (VBigIntPtr (Some i)) = (0 \<le> i)"
| "nonneg (VSlice vs) = list_all nonneg vs"
| "nonneg (VStruct vs) = list_all nonneg vs"
| "nonneg _ = True"

lemma puthead_ref:
  assumes "n < 2 ^ 64"
  shows "puthead small large (of_nat n) = rlp_head small large n"
proof -
  have u: "unat (of_nat n :: u64) = n"
    using assms by (simp add: unsigned_of_nat take_bit_nat_eq_self)
  have lt: "(of_nat n :: u64) < 56 \<longleftrightarrow> n < 56" by (simp add: word_less_nat_alt u)
  have pos: "0 < (of_nat n :: u64)" if "\<not> n < 56" using that by (simp add: word_less_nat_alt u)
  have small: "(ucast (of_nat n :: u64) :: u8) = of_nat n"
    using assms by (simp add: unsigned_of_nat take_bit_nat_eq_self)
  show ?thesis
    by (cases "n < 56") (simp_all only: puthead_def rlp_head_def lt putint_min_be [OF pos] u small if_True if_False not_False_eq_True)
qed

section \<open>The buffer computes the reference encoding\<close>

text \<open>A writer appends string data \<open>S\<close> and headers \<open>H\<close>, whose offsets are relative to the end
  of the buffer it started with. \<open>flat\<close> joins the two the way \<open>toBytes\<close> does.\<close>

definition hsum :: "listhead list \<Rightarrow> nat" where
  "hsum H = sum_list (map (\<lambda>h. length (listhead_encode h)) H)"

definition shift :: "nat \<Rightarrow> listhead \<Rightarrow> listhead" where
  "shift n h = h\<lparr>lh_offset := n + lh_offset h\<rparr>"

definition extend :: "encbuf \<Rightarrow> bytes \<Rightarrow> listhead list \<Rightarrow> encbuf" where
  "extend w S H =
     w\<lparr>str := str w @ S, lheads := lheads w @ map (shift (length (str w))) H,
       lhsize := lhsize w + hsum H\<rparr>"

primrec flat :: "bytes \<Rightarrow> nat \<Rightarrow> listhead list \<Rightarrow> bytes" where
  "flat S pos [] = drop pos S"
| "flat S pos (h # H) = slice S pos (lh_offset h) @ listhead_encode h @ flat S (lh_offset h) H"

primrec heads_ok :: "nat \<Rightarrow> nat \<Rightarrow> listhead list \<Rightarrow> bool" where
  "heads_ok pos len [] \<longleftrightarrow> pos \<le> len"
| "heads_ok pos len (h # H) \<longleftrightarrow> pos \<le> lh_offset h \<and> heads_ok (lh_offset h) len H"

definition writes :: "(encbuf \<Rightarrow> rlp_error option \<times> encbuf) \<Rightarrow> bytes \<Rightarrow> bool" where
  "writes f b \<longleftrightarrow>
     (\<exists>S H. (\<forall>w. f w = (None, extend w S H)) \<and> flat S 0 H = b \<and> heads_ok 0 (length S) H)"

lemma hsum_simps [simp]: "hsum [] = 0" "hsum (h # H) = length (listhead_encode h) + hsum H"
  "hsum (H @ H') = hsum H + hsum H'" "hsum (map (shift n) H) = hsum H"
  by (simp_all add: hsum_def shift_def listhead_encode_def comp_def)

lemma shift_simps [simp]: "lh_offset (shift n h) = n + lh_offset h"
  "listhead_encode (shift n h) = listhead_encode h" "lh_size (shift n h) = lh_size h"
  by (simp_all add: shift_def listhead_encode_def)

lemma heads_ok_le: "heads_ok pos len H \<Longrightarrow> pos \<le> len"
  by (induction H arbitrary: pos) (auto intro: le_trans)

lemma length_flat: "heads_ok pos (length S) H \<Longrightarrow> length (flat S pos H) = length S - pos + hsum H"
proof (induction H arbitrary: pos)
  case (Cons h H)
  then have "lh_offset h \<le> length S" by (auto dest: heads_ok_le)
  with Cons show ?case by simp
qed simp

lemma flat_shift: "flat (S @ T) (length S + p) (map (shift (length S)) H) = flat T p H"
  by (induction H arbitrary: p) (simp_all add: slice_def)

lemma flat_append:
  assumes "heads_ok pos (length S) H" "heads_ok 0 (length T) K"
  shows "flat (S @ T) pos (H @ map (shift (length S)) K) = flat S pos H @ flat T 0 K"
  using assms(1)
proof (induction H arbitrary: pos)
  case Nil
  then have pos: "pos \<le> length S" by simp
  show ?case
  proof (cases K)
    case Nil
    with pos show ?thesis by simp
  next
    case (Cons k K')
    have "slice (S @ T) pos (length S + lh_offset k) = drop pos S @ slice T 0 (lh_offset k)"
      using pos by (simp add: slice_def)
    with Cons flat_shift [of S T "lh_offset k" K'] show ?thesis by simp
  qed
next
  case (Cons h H)
  then have "lh_offset h \<le> length S" by (auto dest: heads_ok_le)
  then have "slice (S @ T) pos (lh_offset h) = slice S pos (lh_offset h)"
    by (auto simp: slice_def)
  with Cons show ?case by simp
qed

lemma heads_ok_shift: "heads_ok (n + p) (n + len) (map (shift n) H) \<longleftrightarrow> heads_ok p len H"
  by (induction H arbitrary: p) simp_all

lemma heads_ok_append:
  assumes "heads_ok pos n H" "heads_ok 0 m K"
  shows "heads_ok pos (n + m) (H @ map (shift n) K)"
  using assms(1)
proof (induction H arbitrary: pos)
  case Nil
  with assms(2) show ?case by (cases K) (auto simp: heads_ok_shift)
qed simp

lemma extend_extend:
  "extend (extend w S H) T K = extend w (S @ T) (H @ map (shift (length S)) K)"
  by (simp add: extend_def shift_def comp_def add.assoc)

lemma writes_str: "(\<And>w. f w = (None, w\<lparr>str := str w @ b\<rparr>)) \<Longrightarrow> writes f b"
  unfolding writes_def by (intro exI [of _ b] exI [of _ "[]"]) (simp add: extend_def)

lemma writes_Nil: "writes (\<lambda>w. (None, w)) []"
  by (rule writes_str) simp

lemma writes_seq:
  assumes "writes f b" "writes g c"
  shows "writes (\<lambda>w. case f w of (Some e, w1) \<Rightarrow> (Some e, w1) | (None, w1) \<Rightarrow> g w1) (b @ c)"
proof -
  from assms obtain S H T K where *: "\<forall>w. f w = (None, extend w S H)" "flat S 0 H = b"
    "heads_ok 0 (length S) H" "\<forall>w. g w = (None, extend w T K)" "flat T 0 K = c"
    "heads_ok 0 (length T) K" unfolding writes_def by blast
  then show ?thesis unfolding writes_def
    by (intro exI [of _ "S @ T"] exI [of _ "H @ map (shift (length S)) K"])
      (simp add: extend_extend flat_append heads_ok_append)
qed

lemma length_listhead_encode:
  "n < 2 ^ 64 \<Longrightarrow> length (listhead_encode \<lparr> lh_offset = p, lh_size = n \<rparr>) =
     (if n < 56 then 1 else 1 + intsize (of_nat n))"
  by (simp add: listhead_encode_def puthead_def putint_def intsize_putint_size
      word_less_nat_alt unsigned_of_nat take_bit_nat_eq_self)

lemma writes_list:
  assumes "writes f b" "length b < 2 ^ 64"
  shows "writes (\<lambda>w. let (lh, w1) = encbuf_list w; (err, w2) = f w1 in (err, listEnd lh w2)) (rlp_list b)"
proof -
  from assms(1) obtain S H where f: "\<And>w. f w = (None, extend w S H)" and b: "flat S 0 H = b"
    and ok: "heads_ok 0 (length S) H" unfolding writes_def by blast
  let ?h = "\<lparr> lh_offset = 0, lh_size = length b \<rparr>"
  have len: "length b = length S + hsum H" using length_flat [OF ok] b by simp
  have "(let (lh, w1) = encbuf_list w; (err, w2) = f w1 in (err, listEnd lh w2)) =
      (None, extend w S (?h # H))" for w
    using assms(2) length_listhead_encode [of "length b" 0]
    by (simp add: encbuf_list_def f listEnd_def Let_def extend_def encbuf_size_def len shift_def
        nth_append add.assoc)
  moreover have "flat S 0 (?h # H) = rlp_list b"
    using assms(2) b by (simp add: slice_def listhead_encode_def puthead_ref rlp_list_def)
  moreover have "heads_ok 0 (length S) (?h # H)" using ok by simp
  ultimately show ?thesis unfolding writes_def by blast
qed

lemma encodeStringHeader_str:
  "n < 2 ^ 64 \<Longrightarrow> encodeStringHeader n w = w\<lparr>str := str w @ rlp_head 0x80 0xB7 n\<rparr>"
  using puthead_ref [of n "0x80" "0xB7"]
  by (auto simp: encodeStringHeader_def puthead_def Let_def rlp_head_def word_less_nat_alt
      unsigned_of_nat take_bit_nat_eq_self split: if_splits)

lemma encodeString_str:
  "length b < 2 ^ 64 \<Longrightarrow> encodeString b w = w\<lparr>str := str w @ rlp_string b\<rparr>"
proof -
  assume len: "length b < 2 ^ 64"
  show ?thesis
  proof (cases "length b = 1 \<and> b ! 0 \<le> 0x7F")
    case True
    then obtain x where "b = [x]" by (auto simp: length_Suc_conv)
    with True show ?thesis by (simp add: encodeString_def rlp_string_def)
  next
    case False
    with len show ?thesis
      unfolding encodeString_def rlp_string_def Let_def by (simp only: encodeStringHeader_str if_False) simp
  qed
qed

lemma writeByteArray_str:
  "length b < 2 ^ 64 \<Longrightarrow> writeByteArray b w = w\<lparr>str := str w @ rlp_string b\<rparr>"
proof -
  assume len: "length b < 2 ^ 64"
  consider "b = []" | x where "b = [x]" | "1 < length b"
    by (cases b; cases "tl b") auto
  then show ?thesis
  proof cases
    case 3
    then have "length b \<noteq> 0" "length b \<noteq> 1" by auto
    then show ?thesis
      unfolding writeByteArray_def rlp_string_def Let_def
      by (simp only: if_False HOL.simp_thms encodeStringHeader_str [OF len]) simp
  qed (simp_all add: writeByteArray_def rlp_string_def rlp_head_def)
qed

lemma length_min_be_unat: "length (min_be (unat (i :: u64))) \<le> 8"
  using u64_less [of i] by (simp add: length_min_be_le)

lemma encodeUint_str: "encodeUint i w = w\<lparr>str := str w @ rlp_string (min_be (unat i))\<rparr>"
proof -
  consider "i = 0" | "0 < i" "i < 128" | "128 \<le> i" by (metis not_less word_gt_0)
  then show ?thesis
  proof cases
    case 1
    then show ?thesis by (simp add: encodeUint_def rlp_string_def rlp_head_def)
  next
    case 2
    then have u: "0 < unat i" "unat i < 128" by (simp_all add: word_less_nat_alt)
    then have m: "min_be (unat i) = [ucast i]" by (simp add: min_be_pos)
    have "(ucast i :: u8) \<le> 0x7F"
      using u by (simp add: word_le_nat_alt unsigned_ucast_eq take_bit_eq_mod)
    with 2 m show ?thesis by (simp add: encodeUint_def rlp_string_def)
  next
    case 3
    then have u: "128 \<le> unat i" by (simp add: word_le_nat_alt)
    have "\<not> (length (min_be (unat i)) = 1 \<and> min_be (unat i) ! 0 \<le> 0x7F)"
    proof
      assume a: "length (min_be (unat i)) = 1 \<and> min_be (unat i) ! 0 \<le> 0x7F"
      then obtain x where x: "min_be (unat i) = [x]" by (auto simp: length_Suc_conv)
      then have "unat i = unat x" using be_nat_min_be [of "unat i"] by (simp add: be_nat_Cons)
      moreover have "unat x \<le> 0x7F" using a x by (simp add: word_le_nat_alt)
      ultimately show False using u by simp
    qed
    moreover have "length (min_be (unat i)) < 56" using length_min_be_unat [of i] by simp
    moreover have "i \<noteq> 0" "\<not> i < 128" "0 < i" using 3 u by (auto simp: not_less word_gt_0)
    ultimately show ?thesis
      by (simp add: encodeUint_def rlp_string_def rlp_head_def Let_def putint_min_be)
  qed
qed

lemma length_rlp_string: "length b \<le> length (rlp_string b)"
  by (simp add: rlp_string_def)

lemma length_rlp_list: "length b \<le> length (rlp_list b)"
  by (simp add: rlp_list_def)

lemma writeBigInt_str:
  assumes "0 \<le> i" "length (min_be (nat i)) < 2 ^ 64"
  shows "writeBigInt i w = (None, w\<lparr>str := str w @ rlp_string (min_be (nat i))\<rparr>)"
proof (cases "big_BitLen (nat i) \<le> 64")
  case True
  then have "nat i < 2 ^ 64" by (simp add: big_BitLen_le)
  then have "unat (of_int i :: u64) = nat i"
    using assms(1) by (simp add: unsigned_of_int take_bit_int_eq_self nat_less_iff)
  with True assms(1) show ?thesis by (simp add: writeBigInt_def encodeUint_str Let_def)
next
  case False
  then have "\<not> nat i < 2 ^ 64" by (simp add: big_BitLen_le)
  then have "\<not> nat i < 256 ^ 1" by simp
  then have "\<not> length (min_be (nat i)) \<le> 1" by (simp only: length_min_be_le not_False_eq_True)
  then have "\<not> (length (min_be (nat i)) = 1 \<and> min_be (nat i) ! 0 \<le> 0x7F)" by simp
  with False assms show ?thesis
    unfolding writeBigInt_def rlp_string_def Let_def BitLen_min_be bigint_bytes_min_be
    by (simp only: encodeStringHeader_str if_False) simp
qed

lemma write_values_ref:
  "(\<And>v. v \<in> set vs \<Longrightarrow> writes (write_value v) (rlp_ref v)) \<Longrightarrow>
   writes (write_values vs) (concat (map rlp_ref vs))"
proof (induction vs)
  case Nil
  then show ?case using writes_Nil by simp
next
  case (Cons v vs)
  then show ?case using writes_seq [of "write_value v" "rlp_ref v" "write_values vs"] by simp
qed

lemma length_concat_member: "v \<in> set vs \<Longrightarrow> length (f v) \<le> length (concat (map f vs))"
  by (induction vs) auto

lemma write_value_ref:
  "nonneg v \<Longrightarrow> length (rlp_ref v) < 2 ^ 64 \<Longrightarrow> writes (write_value v) (rlp_ref v)"
proof (induction v)
  case (VBigIntPtr p)
  show ?case
  proof (cases p)
    case None
    then show ?thesis
      by (intro writes_str) (simp add: writeBigIntPtr_def rlp_string_def rlp_head_def)
  next
    case (Some i)
    then have "length (min_be (nat i)) < 2 ^ 64"
      using VBigIntPtr length_rlp_string [of "min_be (nat i)"] by simp
    with Some VBigIntPtr show ?thesis
      by (intro writes_str) (simp add: writeBigIntPtr_def writeBigInt_str)
  qed
next
  case (VSlice vs)
  let ?c = "concat (map rlp_ref vs)"
  have len: "length ?c < 2 ^ 64"
    using VSlice.prems length_rlp_list [of ?c] by simp
  have "writes (write_values vs) ?c"
    using VSlice len length_concat_member [of _ vs rlp_ref]
    by (intro write_values_ref VSlice.IH) (fastforce simp: list_all_iff intro: le_less_trans)+
  from writes_list [OF this len] show ?case by simp
next
  case (VStruct vs)
  let ?c = "concat (map rlp_ref vs)"
  have len: "length ?c < 2 ^ 64"
    using VStruct.prems length_rlp_list [of ?c] by simp
  have vs: "writes (write_values vs) ?c"
    using VStruct len length_concat_member [of _ vs rlp_ref]
    by (intro write_values_ref VStruct.IH) (fastforce simp: list_all_iff intro: le_less_trans)+
  then have "write_value (VStruct vs) = write_value (VSlice vs)"
    unfolding writes_def by (auto simp: encbuf_list_def)
  with writes_list [OF vs len] show ?case by simp
next
  case (VNilPtr k)
  have "writes (\<lambda>w. let (lh, w1) = encbuf_list w in (None, listEnd lh w1)) (rlp_list [])"
    using writes_list [OF writes_Nil] by simp
  then show ?case by (auto simp: rlp_string_def rlp_head_def intro: writes_str)
next
  case (VBytes b)
  then show ?case using length_rlp_string [of b] by (auto intro!: writes_str simp: encodeString_str)
next
  case (VByteArray b)
  then show ?case using length_rlp_string [of b] by (auto intro!: writes_str simp: writeByteArray_str)
next
  case (VString b)
  then show ?case using length_rlp_string [of b] by (auto intro!: writes_str simp: encodeString_str)
next
  case (VBool b)
  then show ?case by (cases b) (auto intro!: writes_str simp: rlp_string_def rlp_head_def)
qed (auto intro!: writes_str simp: encodeUint_str rlp_list_def rlp_head_def)

lemma toBytes_from_flat:
  assumes "heads_ok strpos (length s) H" "length out = pos + length (flat s strpos H)"
  shows "toBytes_from s H strpos pos out = Done (take pos out @ flat s strpos H)"
  using assms
proof (induction H arbitrary: strpos pos out)
  case Nil
  then show ?case by (simp add: copy_slice_def Let_def)
next
  case (Cons h H)
  have le: "strpos \<le> lh_offset h" "lh_offset h \<le> length s"
    using Cons.prems(1) by (auto dest: heads_ok_le)
  let ?p = "slice s strpos (lh_offset h)"
  let ?e = "listhead_encode h"
  have lenp: "length ?p = lh_offset h - strpos" using le by simp
  have n: "min (length out - pos) (length ?p) = length ?p"
    using Cons.prems(2) by simp
  let ?out1 = "copy_slice out pos (length out) ?p"
  have out1: "?out1 = take pos out @ ?p @ drop (pos + length ?p) out"
    using Cons.prems(2) by (simp add: copy_slice_def Let_def)
  let ?out2 = "copy_slice ?out1 (pos + length ?p) (length out) ?e"
  have out2: "?out2 = take pos out @ ?p @ ?e @ drop (pos + length ?p + length ?e) out"
    using Cons.prems(2) out1 by (simp add: copy_slice_def Let_def ac_simps)
  have "toBytes_from s (h # H) strpos pos out =
      toBytes_from s H (lh_offset h) (pos + length ?p + length ?e) ?out2"
  proof -
    have fits: "pos + length ?p + length ?e \<le> length out" using Cons.prems(2) by simp
    have "strpos + length ?p = lh_offset h" using le lenp by simp
    with fits show ?thesis unfolding toBytes_from.simps Let_def n by (simp only: if_True)
  qed
  also have "\<dots> = Done (take (pos + length ?p + length ?e) ?out2 @ flat s (lh_offset h) H)"
    using Cons.prems by (intro Cons.IH) (simp_all add: out2)
  also have "take (pos + length ?p + length ?e) ?out2 = take pos out @ ?p @ ?e"
    unfolding out2 using Cons.prems(2) by simp
  finally show ?case by simp
qed

lemma EncodeToBytes_ref:
  assumes "nonneg v" "length (rlp_ref v) < 2 ^ 64"
  shows "EncodeToBytes v = Done (Inr (rlp_ref v))"
proof -
  from write_value_ref [OF assms] obtain S H where
    "write_value v encbuf_reset = (None, extend encbuf_reset S H)"
    and flat: "flat S 0 H = rlp_ref v" and ok: "heads_ok 0 (length S) H"
    unfolding writes_def by blast
  moreover have "map (shift 0) H = H" by (induction H) (simp_all add: shift_def)
  moreover have "toBytes_from S H 0 0 (replicate (length S + hsum H) 0) = Done (flat S 0 H)"
    using ok length_flat [OF ok] by (subst toBytes_from_flat) simp_all
  ultimately show ?thesis
    by (simp add: EncodeToBytes_def toBytes_def extend_def encbuf_reset_def encbuf_size_def)
qed

lemma EncodeToBytes_negative:
  "i < 0 \<Longrightarrow> EncodeToBytes (VBigIntPtr (Some i)) = Done (Inl errNegativeBigInt)"
  by (simp add: EncodeToBytes_def writeBigIntPtr_def writeBigInt_def)

section \<open>Properties\<close>

text \<open>C4. \<open>EncodeToBytes\<close>, which collects string data and list headers in two lists and joins them
  afterwards, returns the recursive RLP encoding of every encodable value, without a panic.\<close>

theorem EncodeToBytes_reference:
  assumes "nonneg v" "length (rlp_ref v) < 2 ^ 64"
  shows "EncodeToBytes v = Done (Inr (rlp_ref v))"
  by (rule EncodeToBytes_ref [OF assms])

theorem EncodeToBytes_reference_witness:
  "EncodeToBytes (VStruct [VUint 7, VSlice [VBytes [1, 2], VBool True], VBigIntPtr (Some 1)]) =
     Done (Inr (rlp_ref (VStruct [VUint 7, VSlice [VBytes [1, 2], VBool True], VBigIntPtr (Some 1)])))"
  by (rule EncodeToBytes_reference)
    (simp_all add: rlp_list_def rlp_string_def rlp_head_def min_be_pos)

text \<open>The loop of \<open>intsize\<close> and the comparisons of \<open>putint\<close> agree on the number of bytes of an
  integer, so the header that \<open>puthead\<close> writes has the length \<open>headsize\<close> announces.\<close>

lemma headsize_puthead: "length (puthead small large n) = headsize n"
  by (simp add: puthead_def headsize_def putint_def intsize_putint_size)

end
