(* ===== verification/Rlp_Raw.thy ===== *)
theory Rlp_Raw
  imports Rlp_Encode
begin

text \<open>
  \<open>rlp/raw.go\<close>: reading the tag and size of the first value of a byte slice, and the
  \<open>Split\<close> functions built on it. Errors are values of \<open>rlp_error\<close>; on an error the Go
  functions also return their input, which the callers have at hand.
\<close>

section \<open>readSize and readKind\<close>

text \<open>\<open>readSize\<close> joins \<open>slen\<close> bytes with shifts and \<open>|\<close>, one case for each \<open>slen\<close> from 1 to 8.\<close>

definition readSize :: "bytes \<Rightarrow> u8 \<Rightarrow> rlp_error + u64" where
  "readSize b slen =
     (let n = unat slen
      in if n > length b then Inl ErrUnexpectedEOF
         else let s = (if 1 \<le> n \<and> n \<le> 8
                       then fold (\<lambda>i s. or s (push_bit (8 * (n - 1 - i)) (ucast (b ! i)))) [0..<n] 0
                       else 0)
              in if s < 56 \<or> b ! 0 = 0 then Inl ErrCanonSize else Inr s)"

definition readKind :: "bytes \<Rightarrow> rlp_error + (Kind \<times> u64 \<times> u64)" where
  "readKind buf =
     (if length buf = 0 then Inl ErrUnexpectedEOF
      else let b = buf ! 0;
               r = (if b < 0x80 then Inr (Byte, 0, 1)
                    else if b < 0xB8 then
                      (let contentsize = ucast (b - 0x80) :: u64
                       in if contentsize = 1 \<and> length buf > 1 \<and> buf ! 1 < 128 then Inl ErrCanonSize
                          else Inr (String, 1, contentsize))
                    else if b < 0xC0 then
                      (case readSize (drop 1 buf) (b - 0xB7) of
                         Inl e \<Rightarrow> Inl e
                       | Inr cs \<Rightarrow> Inr (String, ucast (b - 0xB7) + 1, cs))
                    else if b < 0xF8 then Inr (List, 1, ucast (b - 0xC0))
                    else
                      (case readSize (drop 1 buf) (b - 0xF7) of
                         Inl e \<Rightarrow> Inl e
                       | Inr cs \<Rightarrow> Inr (List, ucast (b - 0xF7) + 1, cs)))
           in case r of
                Inl e \<Rightarrow> Inl e
              | Inr (k, tagsize, contentsize) \<Rightarrow>
                  if contentsize > of_nat (length buf) - tagsize then Inl ErrValueTooLarge
                  else Inr (k, tagsize, contentsize))"

section \<open>Split\<close>

definition Split :: "bytes \<Rightarrow> rlp_error + (Kind \<times> bytes \<times> bytes)" where
  "Split b =
     (case readKind b of
        Inl e \<Rightarrow> Inl e
      | Inr (k, ts, cs) \<Rightarrow>
          Inr (k, slice b (unat ts) (unat (ts + cs)), drop (unat (ts + cs)) b))"

definition SplitString :: "bytes \<Rightarrow> rlp_error + (bytes \<times> bytes)" where
  "SplitString b =
     (case Split b of
        Inl e \<Rightarrow> Inl e
      | Inr (k, content, rest) \<Rightarrow>
          if k = List then Inl ErrExpectedString else Inr (content, rest))"

definition SplitUint64 :: "bytes \<Rightarrow> rlp_error + (u64 \<times> bytes)" where
  "SplitUint64 b =
     (case SplitString b of
        Inl e \<Rightarrow> Inl e
      | Inr (content, rest) \<Rightarrow>
          if length content = 0 then Inr (0, rest)
          else if length content = 1 then
            (if content ! 0 = 0 then Inl ErrCanonInt else Inr (ucast (content ! 0), rest))
          else if length content > 8 then Inl errUintOverflow
          else case readSize content (of_nat (length content)) of
                 Inl _ \<Rightarrow> Inl ErrCanonInt
               | Inr x \<Rightarrow> Inr (x, rest))"

definition SplitList :: "bytes \<Rightarrow> rlp_error + (bytes \<times> bytes)" where
  "SplitList b =
     (case Split b of
        Inl e \<Rightarrow> Inl e
      | Inr (k, content, rest) \<Rightarrow>
          if k \<noteq> List then Inl ErrExpectedList else Inr (content, rest))"

text \<open>The loop of \<open>CountValues\<close>; \<open>None\<close> would be a loop that does not end.\<close>

partial_function (option) CountValues_from :: "nat \<Rightarrow> bytes \<Rightarrow> (rlp_error + nat) option" where
  "CountValues_from i b =
     (if length b = 0 then Some (Inr i)
      else case readKind b of
             Inl e \<Rightarrow> Some (Inl e)
           | Inr (_, tagsize, sz) \<Rightarrow> CountValues_from (i + 1) (drop (unat (tagsize + sz)) b))"

definition CountValues :: "bytes \<Rightarrow> (rlp_error + nat) option" where
  "CountValues b = CountValues_from 0 b"

section \<open>What readSize reads\<close>

lemma or_push_bit_8:
  fixes x :: u64 and b :: u8
  shows "or (push_bit 8 x) (ucast b) = push_bit 8 x + ucast b"
proof (rule disjunctive_add [symmetric])
  fix n
  show "\<not> bit (push_bit 8 x) n \<or> \<not> bit (ucast b :: u64) n"
    by (auto simp: bit_simps dest: bit_imp_le_length)
qed

lemma fold_or_push:
  "push_bit 8 (fold (\<lambda>i s. or s (push_bit (8 * (n - 1 - i)) (f i))) xs s0) =
     fold (\<lambda>i s. or s (push_bit (8 * (n - 1 - i) + 8) (f i))) xs (push_bit 8 s0 :: u64)"
  by (induction xs arbitrary: s0) (simp_all add: push_bit_or add.commute)

lemma readSize_be_nat:
  fixes b :: bytes
  assumes "n \<le> length b"
  shows "fold (\<lambda>i s. or s (push_bit (8 * (n - 1 - i)) (ucast (b ! i)))) [0..<n] 0 =
     (of_nat (be_nat (take n b)) :: u64)"
  using assms
proof (induction n)
  case (Suc n)
  let ?f = "\<lambda>i. ucast (b ! i) :: u64"
  have "fold (\<lambda>i s. or s (push_bit (8 * (Suc n - 1 - i)) (?f i))) [0..<n] 0 =
      fold (\<lambda>i s. or s (push_bit (8 * (n - 1 - i) + 8) (?f i))) [0..<n] (push_bit 8 0)"
    by (intro fold_cong) (auto simp: algebra_simps Suc_diff_Suc)
  also have "\<dots> = push_bit 8 (of_nat (be_nat (take n b)))"
    using Suc by (simp only: fold_or_push [symmetric])
  finally have "fold (\<lambda>i s. or s (push_bit (8 * (Suc n - 1 - i)) (?f i))) [0..<Suc n] 0 =
      push_bit 8 (of_nat (be_nat (take n b))) + ?f n"
    by (simp add: or_push_bit_8)
  also have "\<dots> = of_nat (be_nat (take n b) * 256 + unat (b ! n))"
    by (simp add: push_bit_eq_mult)
  also have "be_nat (take n b) * 256 + unat (b ! n) = be_nat (take (Suc n) b)"
    using Suc.prems by (simp add: take_Suc_conv_app_nth be_nat_append be_nat_Cons)
  finally show ?case .
qed simp

lemma length_min_be_u64:
  assumes "0 < n" "n < 2 ^ 64"
  shows "1 \<le> length (min_be n)" "length (min_be n) \<le> 8"
proof -
  show "1 \<le> length (min_be n)" using assms(1) by (simp add: Suc_le_eq)
  have "n < 256 ^ 8" using assms(2) by simp
  then show "length (min_be n) \<le> 8" by (simp only: length_min_be_le)
qed

lemma readSize_min_be:
  assumes "56 \<le> n" "n < 2 ^ 64"
  shows "readSize (min_be n @ rest) (of_nat (length (min_be n))) = Inr (of_nat n)"
proof -
  let ?k = "length (min_be n)"
  have k1: "1 \<le> ?k" and k8: "?k \<le> 8" using assms length_min_be_u64 [of n] by linarith+
  have uk: "unat (of_nat ?k :: u8) = ?k" using k8 by (simp add: unsigned_of_nat take_bit_nat_eq_self)
  have un: "unat (of_nat n :: u64) = n" using assms(2) by (simp add: unsigned_of_nat take_bit_nat_eq_self)
  have hd: "(min_be n @ rest) ! 0 \<noteq> 0"
    using min_be_hd [of n] assms(1) k1 by (simp add: nth_append hd_conv_nth)
  have "fold (\<lambda>i s. or s (push_bit (8 * (?k - 1 - i)) (ucast ((min_be n @ rest) ! i)))) [0..<?k] 0 =
      (of_nat n :: u64)"
    by (subst readSize_be_nat) simp_all
  moreover have "\<not> (of_nat n :: u64) < 56" using assms(1) by (simp add: word_less_nat_alt un)
  ultimately show ?thesis
    using k1 k8 hd unfolding readSize_def Let_def uk by (simp del: One_nat_def)
qed

text \<open>The value read from a header, with the headers of strings and of lists treated alike.\<close>

lemma small_tag: "n < 56 \<Longrightarrow> unat (0x80 + of_nat n :: u8) = 0x80 + n"
  "n < 56 \<Longrightarrow> unat (0xC0 + of_nat n :: u8) = 0xC0 + n"
  by (subst unat_add_le; simp add: unsigned_of_nat take_bit_nat_eq_self)+

lemma large_tag: "1 \<le> k \<Longrightarrow> k \<le> 8 \<Longrightarrow> unat (0xB7 + of_nat k :: u8) = 0xB7 + k"
  "1 \<le> k \<Longrightarrow> k \<le> 8 \<Longrightarrow> unat (0xF7 + of_nat k :: u8) = 0xF7 + k"
  by (subst unat_add_le; simp add: unsigned_of_nat take_bit_nat_eq_self)+

lemma too_large_iff:
  assumes "t + c \<le> len" "len < 2 ^ 64"
  shows "\<not> (of_nat c > of_nat len - (of_nat t :: u64))"
proof -
  have "unat (of_nat c :: u64) = c" "unat (of_nat len :: u64) = len" "unat (of_nat t :: u64) = t"
    using assms by (simp_all add: unsigned_of_nat take_bit_nat_eq_self)
  moreover from this have "unat (of_nat len - of_nat t :: u64) = len - t"
    using assms by (subst unat_sub_le) (simp_all add: word_le_nat_alt)
  ultimately show ?thesis using assms by (simp add: word_less_nat_alt)
qed

lemma readKind_string:
  assumes "\<not> (length b = 1 \<and> b ! 0 \<le> 0x7F)"
    and "length (rlp_head 0x80 0xB7 (length b) @ b @ rest) < 2 ^ 64"
  shows "readKind (rlp_head 0x80 0xB7 (length b) @ b @ rest) =
    Inr (String, of_nat (length (rlp_head 0x80 0xB7 (length b))), of_nat (length b))"
proof (cases "length b < 56")
  case True
  let ?t = "0x80 + of_nat (length b) :: u8"
  have t: "unat ?t = 0x80 + length b" using True by (rule small_tag)
  have sz: "ucast (?t - 0x80) = (of_nat (length b) :: u64)"
    using True by (simp add: unsigned_of_nat take_bit_nat_eq_self)
  have ulen: "unat (of_nat (length b) :: u64) = length b"
    using True by (simp add: unsigned_of_nat take_bit_nat_eq_self)
  have u1: "length b = 1" if "(of_nat (length b) :: u64) = 1"
    using ulen unfolding that by simp
  have canon: "\<not> ((of_nat (length b) :: u64) = 1 \<and> (b @ rest) ! 0 < 128)"
  proof
    assume a: "(of_nat (length b) :: u64) = 1 \<and> (b @ rest) ! 0 < 128"
    then have "length b = 1" using u1 by simp
    with a have "b ! 0 < 128" by (cases b) simp_all
    with assms(1) \<open>length b = 1\<close> show False by (simp add: word_less_nat_alt word_le_nat_alt)
  qed
  have tags: "\<not> ?t < 0x80" "?t < 0xB8" using t True by (simp_all add: word_less_nat_alt)
  show ?thesis
    using True assms(2) canon tags sz too_large_iff [of 1 "length b" "length (?t # b @ rest)"]
    by (auto simp: readKind_def rlp_head_def Let_def)
next
  case False
  let ?n = "length b" let ?k = "length (min_be ?n)" let ?t = "0xB7 + of_nat ?k :: u8"
  have n: "56 \<le> ?n" "?n < 2 ^ 64" using False assms(2) by simp_all
  then have k: "1 \<le> ?k" "?k \<le> 8" using length_min_be_u64 [of ?n] by linarith+
  have t: "unat ?t = 0xB7 + ?k" using k by (rule large_tag)
  have tags: "\<not> ?t < 0x80" "\<not> ?t < 0xB8" "?t < 0xC0" using t k n by (auto simp: word_less_nat_alt)
  have sz: "ucast (?t - 0xB7) = (of_nat ?k :: u64)"
    using k by (simp add: unsigned_of_nat take_bit_nat_eq_self)
  have tk: "?t - 0xB7 = of_nat ?k" by simp
  show ?thesis
    using False assms(2) tags sz readSize_min_be [OF n, of "b @ rest"]
      too_large_iff [of "?k + 1" ?n "length (?t # min_be ?n @ b @ rest)"]
    unfolding readKind_def rlp_head_def Let_def by (simp add: add.commute)
qed

lemma readKind_list:
  assumes "length (rlp_list b @ rest) < 2 ^ 64"
  shows "readKind (rlp_list b @ rest) =
    Inr (List, of_nat (length (rlp_head 0xC0 0xF7 (length b))), of_nat (length b))"
proof (cases "length b < 56")
  case True
  let ?t = "0xC0 + of_nat (length b) :: u8"
  have t: "unat ?t = 0xC0 + length b" using True by (rule small_tag)
  have sz: "ucast (?t - 0xC0) = (of_nat (length b) :: u64)"
    using True by (simp add: unsigned_of_nat take_bit_nat_eq_self)
  have tags: "\<not> ?t < 0x80" "\<not> ?t < 0xB8" "\<not> ?t < 0xC0" "?t < 0xF8"
    using t True by (simp_all add: word_less_nat_alt)
  show ?thesis
    using True assms tags sz too_large_iff [of 1 "length b" "length (?t # b @ rest)"]
    by (auto simp: readKind_def rlp_list_def rlp_head_def Let_def)
next
  case False
  let ?n = "length b" let ?k = "length (min_be ?n)" let ?t = "0xF7 + of_nat ?k :: u8"
  have n: "56 \<le> ?n" "?n < 2 ^ 64" using False assms by (simp_all add: rlp_list_def)
  then have k: "1 \<le> ?k" "?k \<le> 8" using length_min_be_u64 [of ?n] by linarith+
  have t: "unat ?t = 0xF7 + ?k" using k by (rule large_tag)
  have tags: "\<not> ?t < 0x80" "\<not> ?t < 0xB8" "\<not> ?t < 0xC0" "\<not> ?t < 0xF8"
    using t k n by (auto simp: word_less_nat_alt)
  have sz: "ucast (?t - 0xF7) = (of_nat ?k :: u64)"
    using k by (simp add: unsigned_of_nat take_bit_nat_eq_self)
  show ?thesis
    using False assms tags sz readSize_min_be [OF n, of "b @ rest"]
      too_large_iff [of "?k + 1" ?n "length (?t # min_be ?n @ b @ rest)"]
    unfolding readKind_def rlp_list_def rlp_head_def Let_def by (simp add: add.commute)
qed

lemma unat_of_nat_add:
  "t + c < 2 ^ 64 \<Longrightarrow> unat (of_nat t + of_nat c :: u64) = t + c" "t < 2 ^ 64 \<Longrightarrow> unat (of_nat t :: u64) = t"
  by (simp_all only: of_nat_add [symmetric] unsigned_of_nat) (simp_all add: take_bit_nat_eq_self)

lemma Split_rlp_list:
  "length (rlp_list b @ rest) < 2 ^ 64 \<Longrightarrow> Split (rlp_list b @ rest) = Inr (List, b, rest)"
  using readKind_list [of b rest]
  by (simp add: Split_def unat_of_nat_add rlp_list_def slice_def)

lemma Split_rlp_string:
  assumes "length (rlp_string b @ rest) < 2 ^ 64"
  shows "Split (rlp_string b @ rest) =
    Inr (if length b = 1 \<and> b ! 0 \<le> 0x7F then Byte else String, b, rest)"
proof (cases "length b = 1 \<and> b ! 0 \<le> 0x7F")
  case True
  then obtain x where b: "b = [x]" and x: "x \<le> 0x7F" by (auto simp: length_Suc_conv)
  from x have "x < 0x80" by (simp add: word_less_nat_alt word_le_nat_alt)
  moreover have "\<not> (1 > of_nat (length (x # rest)) - (0 :: u64))"
    using assms b x too_large_iff [of 0 1 "length (x # rest)"] by (simp add: rlp_string_def)
  ultimately show ?thesis using b x
    by (simp add: Split_def readKind_def rlp_string_def slice_def)
next
  case False
  then have e: "rlp_string b @ rest = rlp_head 0x80 0xB7 (length b) @ b @ rest"
    unfolding rlp_string_def by (simp only: if_False append_assoc)
  have "readKind (rlp_string b @ rest) =
      Inr (String, of_nat (length (rlp_head 0x80 0xB7 (length b))), of_nat (length b))"
    using readKind_string [OF False] assms unfolding e by blast
  with False assms show ?thesis
    unfolding Split_def e by (simp add: unat_of_nat_add slice_def)
qed

text \<open>Every size \<open>readKind\<close> accepts lies within the slice, and it consumes at least one byte.\<close>

lemma readSize_bound: "readSize b slen = Inr s \<Longrightarrow> unat slen \<le> length b \<and> 56 \<le> unat s"
  by (auto simp: readSize_def Let_def not_less word_le_nat_alt split: if_splits)

lemma unat_ucast_Suc: "unat (ucast (x :: u8) + 1 :: u64) = unat x + 1"
proof -
  have "unat x < 256" using unsigned_less [of x] by simp
  then show ?thesis by (subst unat_add_le) (simp_all add: unsigned_ucast_eq take_bit_nat_eq_self)
qed

lemma readKind_bounds:
  assumes "readKind b = Inr (k, ts, cs)" "length b < 2 ^ 64"
  shows "unat ts + unat cs \<le> length b \<and> 1 \<le> unat ts + unat cs"
proof -
  have fits: "unat ts \<le> length b \<and> (1 \<le> unat ts \<or> ts = 0 \<and> cs = 1) \<and> \<not> cs > of_nat (length b) - ts"
  proof (cases b)
    case Nil
    with assms(1) show ?thesis by (simp add: readKind_def)
  next
    case (Cons x xs)
    then show ?thesis using assms(1) unfolding readKind_def Let_def
      by (auto simp: unat_ucast_Suc dest!: readSize_bound split: if_splits sum.splits)
  qed
  have "unat (of_nat (length b) - ts) = length b - unat ts"
    using fits assms(2) by (subst unat_sub_le) (simp_all add: word_le_nat_alt unat_of_nat_add)
  with fits show ?thesis by (auto simp: word_less_nat_alt not_less)
qed

section \<open>CountValues and SplitUint64\<close>

lemma CountValues_from_returns:
  "length b < 2 ^ 64 \<Longrightarrow> \<exists>r. CountValues_from i b = Some r"
proof (induction "length b" arbitrary: i b rule: less_induct)
  case less
  show ?case
  proof (cases "length b = 0 \<or> (\<exists>e. readKind b = Inl e)")
    case True
    then show ?thesis by (subst CountValues_from.simps) auto
  next
    case False
    then obtain k ts cs where r: "readKind b = Inr (k, ts, cs)"
      by (cases "readKind b") auto
    note bnd = readKind_bounds [OF r less.prems]
    then have "unat (ts + cs) = unat ts + unat cs"
      using less.prems by (subst unat_add_le) auto
    with bnd have "length (drop (unat (ts + cs)) b) < length b" unfolding length_drop by linarith
    from less.hyps [OF this] less.prems r False show ?thesis
      by (subst CountValues_from.simps) auto
  qed
qed

fun no_raw :: "go_value \<Rightarrow> bool" where
  "no_raw (VRawValue r) = False"
| "no_raw _ = True"

lemma rlp_ref_shape: "no_raw v \<Longrightarrow> (\<exists>b. rlp_ref v = rlp_string b) \<or> (\<exists>b. rlp_ref v = rlp_list b)"
  by (cases v) auto

lemma readKind_rlp_ref:
  assumes "no_raw v" "length (rlp_ref v @ rest) < 2 ^ 64"
  obtains k ts cs where "readKind (rlp_ref v @ rest) = Inr (k, ts, cs)"
    "unat (ts + cs) = length (rlp_ref v)"
proof -
  from rlp_ref_shape [OF assms(1)] obtain b where
    "rlp_ref v = rlp_string b \<or> rlp_ref v = rlp_list b" by blast
  then obtain k where "Split (rlp_ref v @ rest) = Inr (k, b, rest)"
    using assms(2) Split_rlp_string [of b rest] Split_rlp_list [of b rest] by metis
  then obtain ts cs where r: "readKind (rlp_ref v @ rest) = Inr (k, ts, cs)"
    and d: "drop (unat (ts + cs)) (rlp_ref v @ rest) = rest"
    by (auto simp: Split_def split: sum.splits)
  note bnd = readKind_bounds [OF r assms(2)]
  then have "unat (ts + cs) = unat ts + unat cs"
    using assms(2) by (subst unat_add_le) auto
  with bnd have "unat (ts + cs) \<le> length (rlp_ref v @ rest)" by simp
  moreover have "length (rlp_ref v @ rest) - unat (ts + cs) = length rest"
    using d by (metis length_drop)
  ultimately have "unat (ts + cs) = length (rlp_ref v)" by simp
  with r that show thesis by blast
qed

lemma rlp_ref_nonempty: "no_raw v \<Longrightarrow> rlp_ref v \<noteq> []"
  using rlp_ref_shape [of v] by (auto simp: rlp_string_def rlp_list_def rlp_head_def split: if_splits)

lemma CountValues_from_ref:
  assumes "list_all no_raw vs" "length (concat (map rlp_ref vs)) < 2 ^ 64"
  shows "CountValues_from i (concat (map rlp_ref vs)) = Some (Inr (i + length vs))"
  using assms
proof (induction vs arbitrary: i)
  case Nil
  then show ?case by (subst CountValues_from.simps) simp
next
  case (Cons v vs)
  from Cons.prems obtain k ts cs where
    r: "readKind (rlp_ref v @ concat (map rlp_ref vs)) = Inr (k, ts, cs)"
    and l: "unat (ts + cs) = length (rlp_ref v)"
    using readKind_rlp_ref [of v "concat (map rlp_ref vs)"] by auto
  have "rlp_ref v \<noteq> []" using Cons.prems rlp_ref_nonempty by simp
  then show ?case
    using Cons.prems Cons.IH [of "Suc i"] r l by (subst CountValues_from.simps) simp
qed

lemma CountValues_ref:
  "list_all no_raw vs \<Longrightarrow> length (concat (map rlp_ref vs)) < 2 ^ 64 \<Longrightarrow>
   CountValues (concat (map rlp_ref vs)) = Some (Inr (length vs))"
  by (simp add: CountValues_def CountValues_from_ref)

lemma SplitUint64_rlp:
  assumes "length (rlp_ref (VUint i) @ rest) < 2 ^ 64"
  shows "SplitUint64 (rlp_ref (VUint i) @ rest) = Inr (i, rest)"
proof -
  let ?m = "min_be (unat i)"
  have ss: "SplitString (rlp_ref (VUint i) @ rest) = Inr (?m, rest)"
    using Split_rlp_string [of ?m rest] assms by (simp add: SplitString_def)
  have len: "length ?m \<le> 8" by (rule length_min_be_unat)
  consider "unat i = 0" | "0 < unat i" "length ?m = 1" | "2 \<le> length ?m"
    using length_min_be_bounds [of "unat i"] by linarith
  then show ?thesis
  proof cases
    case 1
    then have "i = 0" by (metis unsigned_eq_0_iff)
    then show ?thesis using ss by (simp add: SplitUint64_def)
  next
    case 2
    then obtain x where x: "?m = [x]" by (auto simp: length_Suc_conv)
    then have ux: "unat x = unat i" using be_nat_min_be [of "unat i"] by (simp add: be_nat_Cons)
    have "ucast x = (of_nat (unat x) :: u64)" by simp
    also have "\<dots> = i" unfolding ux by simp
    finally have "ucast x = i" .
    moreover have "x \<noteq> 0" using 2 ux by auto
    ultimately show ?thesis using ss x by (simp add: SplitUint64_def)
  next
    case 3
    then have "\<not> length ?m \<le> 1" by simp
    then have "256 \<le> unat i" by (simp add: length_min_be_le)
    then have "readSize ?m (of_nat (length ?m)) = Inr i"
      using readSize_min_be [of "unat i" "[]"] u64_less [of i] by simp
    with 3 len ss show ?thesis by (auto simp: SplitUint64_def)
  qed
qed

section \<open>Prefix codes\<close>

text \<open>What a reader promises of the encodings it reads: it returns the encoded value and the bytes
  that follow. Such an encoding can be read in one way only.\<close>

locale prefix_code =
  fixes enc :: "'a \<Rightarrow> bytes" and dec :: "bytes \<Rightarrow> rlp_error + ('a \<times> bytes)"
  assumes dec_enc: "length (enc x @ rest) < 2 ^ 64 \<Longrightarrow> dec (enc x @ rest) = Inr (x, rest)"
begin

lemma unique:
  assumes "enc x @ r = enc y @ r'" "length (enc x @ r) < 2 ^ 64"
  shows "x = y" "r = r'"
proof -
  have "dec (enc x @ r) = Inr (x, r)" using assms(2) by (rule dec_enc)
  moreover have "dec (enc y @ r') = Inr (y, r')" using assms(2) unfolding assms(1) by (rule dec_enc)
  ultimately have "Inr (x, r) = (Inr (y, r') :: rlp_error + 'a \<times> bytes)" unfolding assms(1) by (rule subst)
  then show "x = y" "r = r'" by simp_all
qed

lemma prefix_free:
  assumes "enc y = enc x @ r" "length (enc y) < 2 ^ 64"
  shows "x = y \<and> r = []"
proof -
  have "enc x @ r = enc y @ []" using assms(1) by simp
  moreover have "length (enc x @ r) < 2 ^ 64" using assms(2) unfolding assms(1) .
  ultimately show ?thesis using unique by blast
qed

end

interpretation rlp_str: prefix_code rlp_string SplitString
  by unfold_locales (simp add: SplitString_def Split_rlp_string)

interpretation rlp_lst: prefix_code rlp_list SplitList
  by unfold_locales (simp add: SplitList_def Split_rlp_list)

interpretation rlp_u64: prefix_code "\<lambda>i. rlp_ref (VUint i)" SplitUint64
  by unfold_locales (rule SplitUint64_rlp)

section \<open>Properties\<close>

text \<open>C20. What the encoder wrote, the splitters read back: strings, lists and 64-bit integers,
  each with the bytes that follow it.\<close>

theorem Split_round_trip:
  assumes "length (rlp_string b @ rest) < 2 ^ 64" "length (rlp_list c @ rest) < 2 ^ 64"
    "length (rlp_ref (VUint i) @ rest) < 2 ^ 64"
  shows "SplitString (rlp_string b @ rest) = Inr (b, rest) \<and> SplitList (rlp_list c @ rest) = Inr (c, rest) \<and>
    SplitUint64 (rlp_ref (VUint i) @ rest) = Inr (i, rest)"
  using assms rlp_str.dec_enc rlp_lst.dec_enc rlp_u64.dec_enc by blast

theorem Split_round_trip_witness:
  "SplitString (rlp_string [1, 2, 3] @ [9]) = Inr ([1, 2, 3], [9]) \<and>
   SplitList (rlp_list [1, 2] @ [9]) = Inr ([1, 2], [9]) \<and>
   SplitUint64 (rlp_ref (VUint 1024) @ [9]) = Inr (1024, [9])"
  by (rule Split_round_trip) (simp_all add: rlp_string_def rlp_list_def rlp_head_def min_be_pos)



text \<open>C37. Every value that \<open>readKind\<close> accepts lies within the slice it was read from, and it is not
  empty.\<close>

theorem readKind_in_bounds:
  assumes "readKind b = Inr (k, ts, cs)" "length b < 2 ^ 64"
  shows "unat ts + unat cs \<le> length b \<and> 1 \<le> unat ts + unat cs"
  by (rule readKind_bounds [OF assms])

theorem readKind_in_bounds_witness: "unat (1 :: u64) + unat (2 :: u64) \<le> length [0x82, 5, 6 :: u8] \<and>
    1 \<le> unat (1 :: u64) + unat (2 :: u64)"
proof (rule readKind_in_bounds)
  show "readKind [0x82, 5, 6] = Inr (String, 1, 2)" by (simp add: readKind_def)
qed simp

text \<open>C39. The loop of \<open>CountValues\<close> ends on every slice, with a count or an error.\<close>

theorem CountValues_terminates:
  assumes "length b < 2 ^ 64"
  shows "\<exists>r. CountValues b = Some r"
  unfolding CountValues_def by (rule CountValues_from_returns [OF assms])

theorem CountValues_terminates_witness: "\<exists>r. CountValues [0x82, 5, 6, 0xB8] = Some r"
  by (rule CountValues_terminates) simp

text \<open>C38. On the concatenation of encoded values \<open>CountValues\<close> returns their number.\<close>

theorem CountValues_counts:
  assumes "list_all no_raw vs" "length (concat (map rlp_ref vs)) < 2 ^ 64"
  shows "CountValues (concat (map rlp_ref vs)) = Some (Inr (length vs))"
  by (rule CountValues_ref [OF assms])

theorem CountValues_counts_witness:
  "CountValues (concat (map rlp_ref [VBytes [1, 2], VUint 0, VBool True])) = Some (Inr 3)"
proof -
  have "CountValues (concat (map rlp_ref [VBytes [1, 2], VUint 0, VBool True])) =
      Some (Inr (length [VBytes [1, 2], VUint 0, VBool True]))"
    by (rule CountValues_counts) (simp_all add: rlp_string_def rlp_head_def)
  then show ?thesis by simp
qed

end
