(* ===== verification/State_Object.thy ===== *)
theory State_Object
  imports External Rlp_Raw
begin

text \<open>
  \<open>core/state/state_object.go\<close>, with the types of \<open>journal.go\<close> and \<open>statedb.go\<close> that it needs.

  The type \<open>'t\<close> stands for a \<open>state.Trie\<close>, and the record \<open>Database\<close> for the \<open>state.Database\<close>
  interface together with the methods of the tries it opens: the model is parametric in both.
  Reading a trie is a function of the trie. A \<open>snapshot.Snapshot\<close> is the record of its two
  lookups. Pointers that may be nil are options: \<open>so_code\<close> (nil until the code is loaded),
  \<open>so_trie\<close> (nil until the storage trie is opened), \<open>fakeStorage\<close>.

  A state object refers back to its \<open>StateDB\<close>. The methods that only read it take the
  \<open>StateDB\<close> as an argument; the methods that append to its journal are modelled in \<open>State_DB\<close>.
\<close>

section \<open>Interfaces\<close>

text \<open>\<open>Account\<close> as it is decoded or written in a literal: \<open>Balance\<close> and \<open>CodeHash\<close> may be nil.\<close>

record raw_account =
  raw_Nonce :: u64
  raw_Balance :: "int option"
  raw_Root :: hash
  raw_CodeHash :: "bytes option"

record 't Database =
  OpenTrie :: "hash \<Rightarrow> string + 't"
  OpenStorageTrie :: "hash \<Rightarrow> hash \<Rightarrow> string + 't"
  ContractCode :: "hash \<Rightarrow> hash \<Rightarrow> bytes option \<times> string option"
  ContractCodeSize :: "hash \<Rightarrow> hash \<Rightarrow> nat \<times> string option"
  TryGet :: "'t \<Rightarrow> bytes \<Rightarrow> string + bytes"
  TryUpdate :: "'t \<Rightarrow> bytes \<Rightarrow> bytes \<Rightarrow> 't \<times> string option"
  TryDelete :: "'t \<Rightarrow> bytes \<Rightarrow> 't \<times> string option"
  trie_Hash :: "'t \<Rightarrow> hash"
  DecodeAccount :: "bytes \<Rightarrow> string + raw_account"

record snap_account =
  snap_Nonce :: u64
  snap_Balance :: int
  snap_Root :: bytes
  snap_CodeHash :: bytes

record Snapshot =
  snap_Account :: "hash \<Rightarrow> string + snap_account option"
  snap_Storage :: "hash \<Rightarrow> hash \<Rightarrow> string + bytes"

datatype state_error =
    ErrCreateStorageTrie string
  | ErrStorageRead string
  | ErrSlotEncoding rlp_error
  | ErrLoadCode bytes string
  | ErrLoadCodeSize bytes string
  | ErrGetObject address string
  | ErrUpdateObject address string
  | ErrDeleteObject address string
  | ErrTrieWrite string

section \<open>State objects\<close>

record Account =
  acc_Nonce :: u64
  acc_Balance :: int
  acc_Root :: hash
  acc_CodeHash :: bytes

type_synonym Storage = "hash \<rightharpoonup> hash"

record 't stateObject =
  so_address :: address
  addrHash :: hash
  so_data :: Account
  so_dbErr :: "state_error option"
  so_trie :: "'t option"
  so_code :: "bytes option"
  originStorage :: Storage
  pendingStorage :: Storage
  dirtyStorage :: Storage
  fakeStorage :: "Storage option"
  dirtyCode :: bool
  suicided :: bool
  deleted :: bool

section \<open>The journal and the state\<close>

datatype 't journalEntry =
    createObjectChange address
  | resetObjectChange "'t stateObject" bool
  | suicideChange address bool int
  | balanceChange address int
  | nonceChange address u64
  | storageChange address hash hash
  | codeChange address "bytes option" bytes
  | refundChange u64
  | addLogChange hash
  | addPreimageChange hash
  | touchChange address

record 't journal =
  entries :: "'t journalEntry list"
  dirties :: "address \<rightharpoonup> int"

record Log =
  log_Address :: address
  log_Topics :: "hash list"
  log_Data :: bytes
  log_BlockNumber :: u64
  log_TxHash :: hash
  log_TxIndex :: u64
  log_BlockHash :: hash
  log_Index :: u64

record 't StateDB =
  sd_trie :: 't
  sd_snaps :: "(hash \<Rightarrow> Snapshot option) option"
  sd_snap :: "Snapshot option"
  snapDestructs :: "hash set"
  snapAccounts :: "hash \<rightharpoonup> bytes"
  snapStorage :: "hash \<rightharpoonup> (hash \<rightharpoonup> bytes option)"
  stateObjects :: "address \<rightharpoonup> 't stateObject"
  stateObjectsPending :: "address set"
  stateObjectsDirty :: "address set"
  sd_dbErr :: "state_error option"
  refund :: u64
  thash :: hash
  bhash :: hash
  txIndex :: int
  logs :: "hash \<rightharpoonup> Log list"
  logSize :: u64
  preimages :: "hash \<rightharpoonup> bytes"
  journal :: "'t journal"
  validRevisions :: "(nat \<times> nat) list"
  nextRevisionId :: nat

section \<open>Methods of stateObject\<close>

definition emptyCodeHash :: "ext \<Rightarrow> bytes" where
  "emptyCodeHash X = Hash_Bytes (keccak256 X [])"

definition emptyRoot :: hash where
  "emptyRoot = 0x56e81f171bcc55a6ff8345e692c0f86e5b48e01b996cadc001622fb5e363b421"

definition obj_empty :: "ext \<Rightarrow> 't stateObject \<Rightarrow> bool" where
  "obj_empty X so \<longleftrightarrow>
     acc_Nonce (so_data so) = 0 \<and> acc_Balance (so_data so) = 0 \<and>
     acc_CodeHash (so_data so) = emptyCodeHash X"

definition newObject :: "ext \<Rightarrow> address \<Rightarrow> raw_account \<Rightarrow> 't stateObject" where
  "newObject X addr acc =
     \<lparr> so_address = addr,
       addrHash = keccak256 X (Address_Bytes addr),
       so_data =
         \<lparr> acc_Nonce = raw_Nonce acc,
           acc_Balance = (case raw_Balance acc of None \<Rightarrow> 0 | Some b \<Rightarrow> b),
           acc_Root = (if raw_Root acc = 0 then emptyRoot else raw_Root acc),
           acc_CodeHash = (case raw_CodeHash acc of None \<Rightarrow> emptyCodeHash X | Some h \<Rightarrow> h) \<rparr>,
       so_dbErr = None, so_trie = None, so_code = None,
       originStorage = Map.empty, pendingStorage = Map.empty, dirtyStorage = Map.empty,
       fakeStorage = None, dirtyCode = False, suicided = False, deleted = False \<rparr>"

definition so_setError :: "state_error option \<Rightarrow> 't stateObject \<Rightarrow> 't stateObject" where
  "so_setError err so = (case so_dbErr so of None \<Rightarrow> so\<lparr>so_dbErr := err\<rparr> | Some _ \<Rightarrow> so)"

definition getTrie :: "'t Database \<Rightarrow> 't stateObject \<Rightarrow> 't option \<times> 't stateObject" where
  "getTrie D so =
     (case so_trie so of
        Some t \<Rightarrow> (Some t, so)
      | None \<Rightarrow>
          (case OpenStorageTrie D (addrHash so) (acc_Root (so_data so)) of
             Inr t \<Rightarrow> (Some t, so\<lparr>so_trie := Some t\<rparr>)
           | Inl err \<Rightarrow>
               (let t = (case OpenStorageTrie D (addrHash so) 0 of Inr t \<Rightarrow> Some t | Inl _ \<Rightarrow> None)
                in (t, so_setError (Some (ErrCreateStorageTrie err)) (so\<lparr>so_trie := t\<rparr>)))))"

text \<open>The part of \<open>GetCommittedState\<close> after the slot has been read: decode it and cache it.\<close>

definition cache_slot :: "hash \<Rightarrow> bytes \<Rightarrow> 't stateObject \<Rightarrow> hash \<times> 't stateObject" where
  "cache_slot key enc so =
     (let (val, so1) =
        (if length enc > 0 then
           (case Split enc of
              Inl e \<Rightarrow> (Hash_SetBytes 0 [], so_setError (Some (ErrSlotEncoding e)) so)
            | Inr (_, content, _) \<Rightarrow> (Hash_SetBytes 0 content, so))
         else (0, so))
      in (val, so1\<lparr>originStorage := (originStorage so1)(key \<mapsto> val)\<rparr>))"

text \<open>Reading the slot from the storage trie, when there is no snapshot or it failed.\<close>

definition trie_slot ::
    "'t Database \<Rightarrow> hash \<Rightarrow> 't stateObject \<Rightarrow> (hash \<times> 't stateObject) outcome" where
  "trie_slot D key so =
     (let (tr, so1) = getTrie D so
      in case tr of
           None \<Rightarrow> Panicked NilDeref
         | Some t \<Rightarrow>
             (case TryGet D t (Hash_Bytes key) of
                Inl err \<Rightarrow> Done (0, so_setError (Some (ErrStorageRead err)) so1)
              | Inr enc \<Rightarrow> Done (cache_slot key enc so1)))"

definition obj_GetCommittedState ::
    "ext \<Rightarrow> 't Database \<Rightarrow> 't StateDB \<Rightarrow> hash \<Rightarrow> 't stateObject \<Rightarrow> (hash \<times> 't stateObject) outcome" where
  "obj_GetCommittedState X D s key so =
     (case fakeStorage so of
        Some fk \<Rightarrow> Done (case fk key of None \<Rightarrow> 0 | Some v \<Rightarrow> v, so)
      | None \<Rightarrow>
     (case pendingStorage so key of
        Some v \<Rightarrow> Done (v, so)
      | None \<Rightarrow>
     (case originStorage so key of
        Some v \<Rightarrow> Done (v, so)
      | None \<Rightarrow>
     (case sd_snap s of
        None \<Rightarrow> trie_slot D key so
      | Some snap \<Rightarrow>
          if addrHash so \<in> snapDestructs s then Done (0, so)
          else case snap_Storage snap (addrHash so) (keccak256 X (Hash_Bytes key)) of
                 Inr enc \<Rightarrow> Done (cache_slot key enc so)
               | Inl _ \<Rightarrow> trie_slot D key so))))"

definition obj_GetState ::
    "ext \<Rightarrow> 't Database \<Rightarrow> 't StateDB \<Rightarrow> hash \<Rightarrow> 't stateObject \<Rightarrow> (hash \<times> 't stateObject) outcome" where
  "obj_GetState X D s key so =
     (case fakeStorage so of
        Some fk \<Rightarrow> Done (case fk key of None \<Rightarrow> 0 | Some v \<Rightarrow> v, so)
      | None \<Rightarrow>
     (case dirtyStorage so key of
        Some v \<Rightarrow> Done (v, so)
      | None \<Rightarrow> obj_GetCommittedState X D s key so))"

definition obj_setState :: "hash \<Rightarrow> hash \<Rightarrow> 't stateObject \<Rightarrow> 't stateObject" where
  "obj_setState key v so = so\<lparr>dirtyStorage := (dirtyStorage so)(key \<mapsto> v)\<rparr>"

definition obj_SetStorage :: "(hash \<rightharpoonup> hash) \<Rightarrow> 't stateObject \<Rightarrow> 't stateObject" where
  "obj_SetStorage storage so =
     so\<lparr>fakeStorage := Some ((case fakeStorage so of None \<Rightarrow> Map.empty | Some fk \<Rightarrow> fk) ++ storage)\<rparr>"

definition obj_finalise :: "'t stateObject \<Rightarrow> 't stateObject" where
  "obj_finalise so =
     so\<lparr>pendingStorage := pendingStorage so ++ dirtyStorage so, dirtyStorage := Map.empty\<rparr>"

definition obj_markSuicided :: "'t stateObject \<Rightarrow> 't stateObject" where
  "obj_markSuicided so = so\<lparr>suicided := True\<rparr>"

definition obj_setBalance :: "int \<Rightarrow> 't stateObject \<Rightarrow> 't stateObject" where
  "obj_setBalance amount so = so\<lparr>so_data := (so_data so)\<lparr>acc_Balance := amount\<rparr>\<rparr>"

definition obj_setNonce :: "u64 \<Rightarrow> 't stateObject \<Rightarrow> 't stateObject" where
  "obj_setNonce nonce so = so\<lparr>so_data := (so_data so)\<lparr>acc_Nonce := nonce\<rparr>\<rparr>"

definition obj_setCode :: "hash \<Rightarrow> bytes option \<Rightarrow> 't stateObject \<Rightarrow> 't stateObject" where
  "obj_setCode codeHash code so =
     so\<lparr>so_code := code, so_data := (so_data so)\<lparr>acc_CodeHash := Hash_Bytes codeHash\<rparr>,
        dirtyCode := True\<rparr>"

definition obj_Code :: "ext \<Rightarrow> 't Database \<Rightarrow> 't stateObject \<Rightarrow> bytes option \<times> 't stateObject" where
  "obj_Code X D so =
     (case so_code so of
        Some c \<Rightarrow> (Some c, so)
      | None \<Rightarrow>
          if acc_CodeHash (so_data so) = emptyCodeHash X then (None, so)
          else let (code, err) = ContractCode D (addrHash so) (BytesToHash (acc_CodeHash (so_data so)));
                   so1 = (case err of
                            None \<Rightarrow> so
                          | Some e \<Rightarrow> so_setError (Some (ErrLoadCode (acc_CodeHash (so_data so)) e)) so)
               in (code, so1\<lparr>so_code := code\<rparr>))"

definition obj_CodeSize :: "ext \<Rightarrow> 't Database \<Rightarrow> 't stateObject \<Rightarrow> nat \<times> 't stateObject" where
  "obj_CodeSize X D so =
     (case so_code so of
        Some c \<Rightarrow> (length c, so)
      | None \<Rightarrow>
          if acc_CodeHash (so_data so) = emptyCodeHash X then (0, so)
          else let (sz, err) = ContractCodeSize D (addrHash so) (BytesToHash (acc_CodeHash (so_data so)))
               in (sz, case err of
                         None \<Rightarrow> so
                       | Some e \<Rightarrow> so_setError (Some (ErrLoadCodeSize (acc_CodeHash (so_data so)) e)) so))"

definition obj_deepCopy :: "ext \<Rightarrow> 't stateObject \<Rightarrow> 't stateObject" where
  "obj_deepCopy X so =
     (newObject X (so_address so)
        \<lparr> raw_Nonce = acc_Nonce (so_data so), raw_Balance = Some (acc_Balance (so_data so)),
          raw_Root = acc_Root (so_data so), raw_CodeHash = Some (acc_CodeHash (so_data so)) \<rparr>)
       \<lparr>so_trie := so_trie so, so_code := so_code so, dirtyStorage := dirtyStorage so,
        originStorage := originStorage so, pendingStorage := pendingStorage so,
        suicided := suicided so, dirtyCode := dirtyCode so, deleted := deleted so\<rparr>"

end
