(* ===== verification/State_DB.thy ===== *)
theory State_DB
  imports State_Object
begin

text \<open>
  \<open>core/state/journal.go\<close> and \<open>core/state/statedb.go\<close>, with the methods of \<open>stateObject\<close> that
  write the journal. The functions take the database and return the new state; a getter
  returns its result with the state, because reading fills the caches. An object obtained
  from \<open>getStateObject\<close> is the live one of \<open>stateObjects\<close>, so a method that changes it in place
  stores it back with \<open>setStateObject\<close>.

  A \<open>range\<close> over a map visits its keys in an order Go does not fix: the definitions that
  depend on one take the visited keys as a list.
\<close>

section \<open>journal.go\<close>

definition newJournal :: "'t journal" where
  "newJournal = \<lparr> entries = [], dirties = Map.empty \<rparr>"

fun dirtied :: "'t journalEntry \<Rightarrow> address option" where
  "dirtied (createObjectChange a) = Some a"
| "dirtied (resetObjectChange _ _) = None"
| "dirtied (suicideChange a _ _) = Some a"
| "dirtied (balanceChange a _) = Some a"
| "dirtied (nonceChange a _) = Some a"
| "dirtied (storageChange a _ _) = Some a"
| "dirtied (codeChange a _ _) = Some a"
| "dirtied (refundChange _) = None"
| "dirtied (addLogChange _) = None"
| "dirtied (addPreimageChange _) = None"
| "dirtied (touchChange a) = Some a"

text \<open>\<open>m[k]++\<close> and \<open>m[k]--\<close> on a Go map read 0 for a missing key.\<close>

definition map_count :: "(address \<rightharpoonup> int) \<Rightarrow> address \<Rightarrow> int" where
  "map_count m a = (case m a of None \<Rightarrow> 0 | Some n \<Rightarrow> n)"

definition journal_dirty :: "address \<Rightarrow> 't journal \<Rightarrow> 't journal" where
  "journal_dirty a j = j\<lparr>dirties := (dirties j)(a \<mapsto> map_count (dirties j) a + 1)\<rparr>"

definition journal_append :: "'t journalEntry \<Rightarrow> 't journal \<Rightarrow> 't journal" where
  "journal_append e j =
     (let j1 = j\<lparr>entries := entries j @ [e]\<rparr>
      in case dirtied e of None \<Rightarrow> j1 | Some a \<Rightarrow> journal_dirty a j1)"

definition journal_undirty :: "'t journalEntry \<Rightarrow> 't journal \<Rightarrow> 't journal" where
  "journal_undirty e j =
     (case dirtied e of
        None \<Rightarrow> j
      | Some a \<Rightarrow>
          (let n = map_count (dirties j) a - 1
           in j\<lparr>dirties := (if n = 0 then (dirties j)(a := None) else (dirties j)(a \<mapsto> n))\<rparr>))"

definition journal_length :: "'t journal \<Rightarrow> nat" where
  "journal_length j = length (entries j)"

definition ripemd :: address where
  "ripemd = 3"

section \<open>statedb.go: objects\<close>

definition New :: "'t Database \<Rightarrow> hash \<Rightarrow> (hash \<Rightarrow> Snapshot option) option \<Rightarrow> string + 't StateDB" where
  "New D root snaps =
     (case OpenTrie D root of
        Inl err \<Rightarrow> Inl err
      | Inr tr \<Rightarrow>
          Inr \<lparr> sd_trie = tr, sd_snaps = snaps,
                sd_snap = (case snaps of None \<Rightarrow> None | Some t \<Rightarrow> t root),
                snapDestructs = {}, snapAccounts = Map.empty, snapStorage = Map.empty,
                stateObjects = Map.empty, stateObjectsPending = {}, stateObjectsDirty = {},
                sd_dbErr = None, refund = 0, thash = 0, bhash = 0, txIndex = 0,
                logs = Map.empty, logSize = 0, preimages = Map.empty, journal = newJournal,
                validRevisions = [], nextRevisionId = 0 \<rparr>)"

definition sd_setError :: "state_error option \<Rightarrow> 't StateDB \<Rightarrow> 't StateDB" where
  "sd_setError err s = (case sd_dbErr s of None \<Rightarrow> s\<lparr>sd_dbErr := err\<rparr> | Some _ \<Rightarrow> s)"

definition append_entry :: "'t journalEntry \<Rightarrow> 't StateDB \<Rightarrow> 't StateDB" where
  "append_entry e s = s\<lparr>journal := journal_append e (journal s)\<rparr>"

definition setStateObject :: "'t stateObject \<Rightarrow> 't StateDB \<Rightarrow> 't StateDB" where
  "setStateObject so s = s\<lparr>stateObjects := (stateObjects s)(so_address so \<mapsto> so)\<rparr>"

text \<open>The account as the snapshot gives it, with its two defaults.\<close>

definition snap_data :: "ext \<Rightarrow> snap_account \<Rightarrow> raw_account" where
  "snap_data X acc =
     (let root = BytesToHash (snap_Root acc)
      in \<lparr> raw_Nonce = snap_Nonce acc, raw_Balance = Some (snap_Balance acc),
           raw_Root = (if root = 0 then emptyRoot else root),
           raw_CodeHash =
             Some (if length (snap_CodeHash acc) = 0 then emptyCodeHash X else snap_CodeHash acc) \<rparr>)"

text \<open>The second half of \<open>getDeletedStateObject\<close>: read the account from the trie. The error
  that a failed read leaves in the state comes with the result.\<close>

definition trie_account ::
    "'t Database \<Rightarrow> 't StateDB \<Rightarrow> address \<Rightarrow> state_error option \<times> raw_account option" where
  "trie_account D s addr =
     (case TryGet D (sd_trie s) (Address_Bytes addr) of
        Inl err \<Rightarrow> (Some (ErrGetObject addr err), None)
      | Inr enc \<Rightarrow>
          if length enc = 0 then (None, None)
          else case DecodeAccount D enc of Inl _ \<Rightarrow> (None, None) | Inr acc \<Rightarrow> (None, Some acc))"

definition read_account ::
    "ext \<Rightarrow> 't Database \<Rightarrow> 't StateDB \<Rightarrow> address \<Rightarrow> state_error option \<times> raw_account option" where
  "read_account X D s addr =
     (case sd_snap s of
        None \<Rightarrow> trie_account D s addr
      | Some snap \<Rightarrow>
          (case snap_Account snap (keccak256 X (Address_Bytes addr)) of
             Inr None \<Rightarrow> (None, None)
           | Inr (Some acc) \<Rightarrow> (None, Some (snap_data X acc))
           | Inl _ \<Rightarrow> trie_account D s addr))"

definition getDeletedStateObject ::
    "ext \<Rightarrow> 't Database \<Rightarrow> address \<Rightarrow> 't StateDB \<Rightarrow> 't stateObject option \<times> 't StateDB" where
  "getDeletedStateObject X D addr s =
     (case stateObjects s addr of
        Some so \<Rightarrow> (Some so, s)
      | None \<Rightarrow>
          (let (err, acc) = read_account X D s addr;
               s1 = (case err of None \<Rightarrow> s | Some e \<Rightarrow> sd_setError (Some e) s)
           in case acc of
                None \<Rightarrow> (None, s1)
              | Some a \<Rightarrow> (let so = newObject X addr a in (Some so, setStateObject so s1))))"

definition getStateObject ::
    "ext \<Rightarrow> 't Database \<Rightarrow> address \<Rightarrow> 't StateDB \<Rightarrow> 't stateObject option \<times> 't StateDB" where
  "getStateObject X D addr s =
     (case getDeletedStateObject X D addr s of
        (Some so, s1) \<Rightarrow> if \<not> deleted so then (Some so, s1) else (None, s1)
      | (None, s1) \<Rightarrow> (None, s1))"

definition createObject ::
    "ext \<Rightarrow> 't Database \<Rightarrow> address \<Rightarrow> 't StateDB \<Rightarrow> 't stateObject \<times> 't stateObject option \<times> 't StateDB" where
  "createObject X D addr s =
     (let (prev, s1) = getDeletedStateObject X D addr s;
          (prevdestruct, s2) =
            (case (sd_snap s1, prev) of
               (Some _, Some p) \<Rightarrow>
                 (addrHash p \<in> snapDestructs s1,
                  s1\<lparr>snapDestructs := insert (addrHash p) (snapDestructs s1)\<rparr>)
             | _ \<Rightarrow> (False, s1));
          newobj = obj_setNonce 0 (newObject X addr
            \<lparr> raw_Nonce = 0, raw_Balance = None, raw_Root = 0, raw_CodeHash = None \<rparr>);
          s3 = (case prev of
                  None \<Rightarrow> append_entry (createObjectChange addr) s2
                | Some p \<Rightarrow> append_entry (resetObjectChange p prevdestruct) s2);
          s4 = setStateObject newobj s3
      in (newobj, case prev of Some p \<Rightarrow> if \<not> deleted p then Some p else None | None \<Rightarrow> None, s4))"

definition GetOrNewStateObject ::
    "ext \<Rightarrow> 't Database \<Rightarrow> address \<Rightarrow> 't StateDB \<Rightarrow> 't stateObject \<times> 't StateDB" where
  "GetOrNewStateObject X D addr s =
     (case getStateObject X D addr s of
        (Some so, s1) \<Rightarrow> (so, s1)
      | (None, s1) \<Rightarrow> (let (so, _, s2) = createObject X D addr s1 in (so, s2)))"

definition CreateAccount :: "ext \<Rightarrow> 't Database \<Rightarrow> address \<Rightarrow> 't StateDB \<Rightarrow> 't StateDB" where
  "CreateAccount X D addr s =
     (let (newObj, prev, s1) = createObject X D addr s
      in case prev of
           None \<Rightarrow> s1
         | Some p \<Rightarrow> setStateObject (obj_setBalance (acc_Balance (so_data p)) newObj) s1)"

section \<open>statedb.go: getters\<close>

definition Exist :: "ext \<Rightarrow> 't Database \<Rightarrow> address \<Rightarrow> 't StateDB \<Rightarrow> bool \<times> 't StateDB" where
  "Exist X D addr s = (let (so, s1) = getStateObject X D addr s in (so \<noteq> None, s1))"

definition Empty :: "ext \<Rightarrow> 't Database \<Rightarrow> address \<Rightarrow> 't StateDB \<Rightarrow> bool \<times> 't StateDB" where
  "Empty X D addr s =
     (let (so, s1) = getStateObject X D addr s
      in (case so of None \<Rightarrow> True | Some o1 \<Rightarrow> obj_empty X o1, s1))"

definition GetBalance :: "ext \<Rightarrow> 't Database \<Rightarrow> address \<Rightarrow> 't StateDB \<Rightarrow> int \<times> 't StateDB" where
  "GetBalance X D addr s =
     (let (so, s1) = getStateObject X D addr s
      in (case so of None \<Rightarrow> 0 | Some o1 \<Rightarrow> acc_Balance (so_data o1), s1))"

definition GetNonce :: "ext \<Rightarrow> 't Database \<Rightarrow> address \<Rightarrow> 't StateDB \<Rightarrow> u64 \<times> 't StateDB" where
  "GetNonce X D addr s =
     (let (so, s1) = getStateObject X D addr s
      in (case so of None \<Rightarrow> 0 | Some o1 \<Rightarrow> acc_Nonce (so_data o1), s1))"

definition GetCode :: "ext \<Rightarrow> 't Database \<Rightarrow> address \<Rightarrow> 't StateDB \<Rightarrow> bytes option \<times> 't StateDB" where
  "GetCode X D addr s =
     (case getStateObject X D addr s of
        (None, s1) \<Rightarrow> (None, s1)
      | (Some so, s1) \<Rightarrow> (let (code, so1) = obj_Code X D so in (code, setStateObject so1 s1)))"

definition GetCodeSize :: "ext \<Rightarrow> 't Database \<Rightarrow> address \<Rightarrow> 't StateDB \<Rightarrow> nat \<times> 't StateDB" where
  "GetCodeSize X D addr s =
     (case getStateObject X D addr s of
        (None, s1) \<Rightarrow> (0, s1)
      | (Some so, s1) \<Rightarrow> (let (sz, so1) = obj_CodeSize X D so in (sz, setStateObject so1 s1)))"

definition GetCodeHash :: "ext \<Rightarrow> 't Database \<Rightarrow> address \<Rightarrow> 't StateDB \<Rightarrow> hash \<times> 't StateDB" where
  "GetCodeHash X D addr s =
     (let (so, s1) = getStateObject X D addr s
      in (case so of None \<Rightarrow> 0 | Some o1 \<Rightarrow> BytesToHash (acc_CodeHash (so_data o1)), s1))"

definition GetState ::
    "ext \<Rightarrow> 't Database \<Rightarrow> address \<Rightarrow> hash \<Rightarrow> 't StateDB \<Rightarrow> (hash \<times> 't StateDB) outcome" where
  "GetState X D addr key s =
     (case getStateObject X D addr s of
        (None, s1) \<Rightarrow> Done (0, s1)
      | (Some so, s1) \<Rightarrow>
          and_then (obj_GetState X D s1 key so) (\<lambda>(v, so1). Done (v, setStateObject so1 s1)))"

definition GetCommittedState ::
    "ext \<Rightarrow> 't Database \<Rightarrow> address \<Rightarrow> hash \<Rightarrow> 't StateDB \<Rightarrow> (hash \<times> 't StateDB) outcome" where
  "GetCommittedState X D addr key s =
     (case getStateObject X D addr s of
        (None, s1) \<Rightarrow> Done (0, s1)
      | (Some so, s1) \<Rightarrow>
          and_then (obj_GetCommittedState X D s1 key so) (\<lambda>(v, so1). Done (v, setStateObject so1 s1)))"

definition HasSuicided :: "ext \<Rightarrow> 't Database \<Rightarrow> address \<Rightarrow> 't StateDB \<Rightarrow> bool \<times> 't StateDB" where
  "HasSuicided X D addr s =
     (let (so, s1) = getStateObject X D addr s
      in (case so of None \<Rightarrow> False | Some o1 \<Rightarrow> suicided o1, s1))"

definition GetRefund :: "'t StateDB \<Rightarrow> u64" where
  "GetRefund s = refund s"

definition GetLogs :: "hash \<Rightarrow> 't StateDB \<Rightarrow> Log list" where
  "GetLogs h s = (case logs s h of None \<Rightarrow> [] | Some l \<Rightarrow> l)"

section \<open>Setters\<close>

definition obj_touch :: "'t stateObject \<Rightarrow> 't StateDB \<Rightarrow> 't StateDB" where
  "obj_touch so s =
     (let s1 = append_entry (touchChange (so_address so)) s
      in if so_address so = ripemd
         then s1\<lparr>journal := journal_dirty (so_address so) (journal s1)\<rparr> else s1)"

definition obj_SetBalance :: "int \<Rightarrow> 't stateObject \<Rightarrow> 't StateDB \<Rightarrow> 't StateDB" where
  "obj_SetBalance amount so s =
     setStateObject (obj_setBalance amount so)
       (append_entry (balanceChange (so_address so) (acc_Balance (so_data so))) s)"

definition obj_AddBalance :: "ext \<Rightarrow> int \<Rightarrow> 't stateObject \<Rightarrow> 't StateDB \<Rightarrow> 't StateDB" where
  "obj_AddBalance X amount so s =
     (if amount = 0 then (if obj_empty X so then obj_touch so s else s)
      else obj_SetBalance (acc_Balance (so_data so) + amount) so s)"

definition obj_SubBalance :: "int \<Rightarrow> 't stateObject \<Rightarrow> 't StateDB \<Rightarrow> 't StateDB" where
  "obj_SubBalance amount so s =
     (if amount = 0 then s else obj_SetBalance (acc_Balance (so_data so) - amount) so s)"

definition obj_SetNonce :: "u64 \<Rightarrow> 't stateObject \<Rightarrow> 't StateDB \<Rightarrow> 't StateDB" where
  "obj_SetNonce nonce so s =
     setStateObject (obj_setNonce nonce so)
       (append_entry (nonceChange (so_address so) (acc_Nonce (so_data so))) s)"

definition obj_SetCode ::
    "ext \<Rightarrow> 't Database \<Rightarrow> hash \<Rightarrow> bytes option \<Rightarrow> 't stateObject \<Rightarrow> 't StateDB \<Rightarrow> 't StateDB" where
  "obj_SetCode X D codeHash code so s =
     (let (prevcode, so1) = obj_Code X D so
      in setStateObject (obj_setCode codeHash code so1)
           (append_entry (codeChange (so_address so) prevcode (acc_CodeHash (so_data so1))) s))"

definition obj_SetState ::
    "ext \<Rightarrow> 't Database \<Rightarrow> hash \<Rightarrow> hash \<Rightarrow> 't stateObject \<Rightarrow> 't StateDB \<Rightarrow> 't StateDB outcome" where
  "obj_SetState X D key v so s =
     (case fakeStorage so of
        Some fk \<Rightarrow> Done (setStateObject (so\<lparr>fakeStorage := Some (fk(key \<mapsto> v))\<rparr>) s)
      | None \<Rightarrow>
          and_then (obj_GetState X D s key so) (\<lambda>(prev, so1).
            Done (if prev = v then setStateObject so1 s
                  else setStateObject (obj_setState key v so1)
                         (append_entry (storageChange (so_address so) key prev) s))))"

definition AddBalance :: "ext \<Rightarrow> 't Database \<Rightarrow> address \<Rightarrow> int \<Rightarrow> 't StateDB \<Rightarrow> 't StateDB" where
  "AddBalance X D addr amount s =
     (let (so, s1) = GetOrNewStateObject X D addr s in obj_AddBalance X amount so s1)"

definition SubBalance :: "ext \<Rightarrow> 't Database \<Rightarrow> address \<Rightarrow> int \<Rightarrow> 't StateDB \<Rightarrow> 't StateDB" where
  "SubBalance X D addr amount s =
     (let (so, s1) = GetOrNewStateObject X D addr s in obj_SubBalance amount so s1)"

definition SetBalance :: "ext \<Rightarrow> 't Database \<Rightarrow> address \<Rightarrow> int \<Rightarrow> 't StateDB \<Rightarrow> 't StateDB" where
  "SetBalance X D addr amount s =
     (let (so, s1) = GetOrNewStateObject X D addr s in obj_SetBalance amount so s1)"

definition SetNonce :: "ext \<Rightarrow> 't Database \<Rightarrow> address \<Rightarrow> u64 \<Rightarrow> 't StateDB \<Rightarrow> 't StateDB" where
  "SetNonce X D addr nonce s =
     (let (so, s1) = GetOrNewStateObject X D addr s in obj_SetNonce nonce so s1)"

definition SetCode :: "ext \<Rightarrow> 't Database \<Rightarrow> address \<Rightarrow> bytes option \<Rightarrow> 't StateDB \<Rightarrow> 't StateDB" where
  "SetCode X D addr code s =
     (let (so, s1) = GetOrNewStateObject X D addr s
      in obj_SetCode X D (keccak256 X (case code of None \<Rightarrow> [] | Some c \<Rightarrow> c)) code so s1)"

definition SetState ::
    "ext \<Rightarrow> 't Database \<Rightarrow> address \<Rightarrow> hash \<Rightarrow> hash \<Rightarrow> 't StateDB \<Rightarrow> 't StateDB outcome" where
  "SetState X D addr key v s =
     (let (so, s1) = GetOrNewStateObject X D addr s in obj_SetState X D key v so s1)"

definition SetStorage :: "ext \<Rightarrow> 't Database \<Rightarrow> address \<Rightarrow> (hash \<rightharpoonup> hash) \<Rightarrow> 't StateDB \<Rightarrow> 't StateDB" where
  "SetStorage X D addr storage s =
     (let (so, s1) = GetOrNewStateObject X D addr s in setStateObject (obj_SetStorage storage so) s1)"

definition Suicide :: "ext \<Rightarrow> 't Database \<Rightarrow> address \<Rightarrow> 't StateDB \<Rightarrow> bool \<times> 't StateDB" where
  "Suicide X D addr s =
     (case getStateObject X D addr s of
        (None, s1) \<Rightarrow> (False, s1)
      | (Some so, s1) \<Rightarrow>
          (True, setStateObject (obj_setBalance 0 (obj_markSuicided so))
             (append_entry (suicideChange addr (suicided so) (acc_Balance (so_data so))) s1)))"

definition AddLog :: "Log \<Rightarrow> 't StateDB \<Rightarrow> 't StateDB" where
  "AddLog log s =
     (let s1 = append_entry (addLogChange (thash s)) s;
          log1 = log\<lparr>log_TxHash := thash s, log_BlockHash := bhash s,
                     log_TxIndex := of_int (txIndex s), log_Index := logSize s\<rparr>
      in s1\<lparr>logs := (logs s1)(thash s \<mapsto> GetLogs (thash s) s @ [log1]), logSize := logSize s + 1\<rparr>)"

definition AddPreimage :: "hash \<Rightarrow> bytes \<Rightarrow> 't StateDB \<Rightarrow> 't StateDB" where
  "AddPreimage h preimage s =
     (case preimages s h of
        Some _ \<Rightarrow> s
      | None \<Rightarrow> (let s1 = append_entry (addPreimageChange h) s
                 in s1\<lparr>preimages := (preimages s1)(h \<mapsto> preimage)\<rparr>))"

definition AddRefund :: "u64 \<Rightarrow> 't StateDB \<Rightarrow> 't StateDB" where
  "AddRefund gas s =
     (let s1 = append_entry (refundChange (refund s)) s in s1\<lparr>refund := refund s + gas\<rparr>)"

definition SubRefund :: "u64 \<Rightarrow> 't StateDB \<Rightarrow> 't StateDB outcome" where
  "SubRefund gas s =
     (let s1 = append_entry (refundChange (refund s)) s
      in if gas > refund s then Panicked RefundBelowZero
         else Done (s1\<lparr>refund := refund s - gas\<rparr>))"

definition Prepare :: "hash \<Rightarrow> hash \<Rightarrow> int \<Rightarrow> 't StateDB \<Rightarrow> 't StateDB" where
  "Prepare th bh ti s = s\<lparr>thash := th, bhash := bh, txIndex := ti\<rparr>"

section \<open>Snapshots\<close>

text \<open>\<open>revert\<close> of each journal entry. The entries that write an account dereference what
  \<open>getStateObject\<close> returns without a check.\<close>

definition with_object ::
    "ext \<Rightarrow> 't Database \<Rightarrow> address \<Rightarrow> ('t stateObject \<Rightarrow> 't stateObject) \<Rightarrow> 't StateDB \<Rightarrow> 't StateDB outcome" where
  "with_object X D a f s =
     (case getStateObject X D a s of
        (None, _) \<Rightarrow> Panicked NilDeref
      | (Some so, s1) \<Rightarrow> Done (setStateObject (f so) s1))"

fun revert_entry ::
    "ext \<Rightarrow> 't Database \<Rightarrow> 't journalEntry \<Rightarrow> 't StateDB \<Rightarrow> 't StateDB outcome" where
  "revert_entry X D (createObjectChange a) s =
     Done (s\<lparr>stateObjects := (stateObjects s)(a := None),
             stateObjectsDirty := stateObjectsDirty s - {a}\<rparr>)"
| "revert_entry X D (resetObjectChange prev prevdestruct) s =
     (let s1 = setStateObject prev s
      in Done (if \<not> prevdestruct \<and> sd_snap s1 \<noteq> None
               then s1\<lparr>snapDestructs := snapDestructs s1 - {addrHash prev}\<rparr> else s1))"
| "revert_entry X D (suicideChange a prev prevbalance) s =
     (case getStateObject X D a s of
        (None, s1) \<Rightarrow> Done s1
      | (Some so, s1) \<Rightarrow>
          Done (setStateObject (obj_setBalance prevbalance (so\<lparr>suicided := prev\<rparr>)) s1))"
| "revert_entry X D (balanceChange a prev) s = with_object X D a (obj_setBalance prev) s"
| "revert_entry X D (nonceChange a prev) s = with_object X D a (obj_setNonce prev) s"
| "revert_entry X D (storageChange a key prevalue) s = with_object X D a (obj_setState key prevalue) s"
| "revert_entry X D (codeChange a prevcode prevhash) s =
     with_object X D a (obj_setCode (BytesToHash prevhash) prevcode) s"
| "revert_entry X D (refundChange prev) s = Done (s\<lparr>refund := prev\<rparr>)"
| "revert_entry X D (addLogChange txhash) s =
     (let ls = GetLogs txhash s
      in if length ls = 1
         then Done (s\<lparr>logs := (logs s)(txhash := None), logSize := logSize s - 1\<rparr>)
         else if ls = [] then Panicked SliceBounds
         else Done (s\<lparr>logs := (logs s)(txhash \<mapsto> take (length ls - 1) ls), logSize := logSize s - 1\<rparr>))"
| "revert_entry X D (addPreimageChange h) s = Done (s\<lparr>preimages := (preimages s)(h := None)\<rparr>)"
| "revert_entry X D (touchChange a) s = Done s"

text \<open>The loop of \<open>journal.revert\<close>, over the entries from the last one down.\<close>

primrec revert_entries ::
    "ext \<Rightarrow> 't Database \<Rightarrow> 't journalEntry list \<Rightarrow> 't StateDB \<Rightarrow> 't StateDB outcome" where
  "revert_entries X D [] s = Done s"
| "revert_entries X D (e # es) s =
     and_then (revert_entry X D e s) (\<lambda>s1.
       revert_entries X D es (s1\<lparr>journal := journal_undirty e (journal s1)\<rparr>))"

definition journal_revert :: "ext \<Rightarrow> 't Database \<Rightarrow> nat \<Rightarrow> 't StateDB \<Rightarrow> 't StateDB outcome" where
  "journal_revert X D snapshot s =
     and_then (revert_entries X D (rev (drop snapshot (entries (journal s)))) s) (\<lambda>s1.
       Done (s1\<lparr>journal := (journal s1)\<lparr>entries := take snapshot (entries (journal s1))\<rparr>\<rparr>))"

definition Snapshot_op :: "'t StateDB \<Rightarrow> nat \<times> 't StateDB" where
  "Snapshot_op s =
     (nextRevisionId s,
      s\<lparr>nextRevisionId := nextRevisionId s + 1,
        validRevisions := validRevisions s @ [(nextRevisionId s, journal_length (journal s))]\<rparr>)"

text \<open>\<open>sort.Search\<close> of the Go library: binary search for the first index with a property.\<close>

function sort_Search_from :: "nat \<Rightarrow> nat \<Rightarrow> (nat \<Rightarrow> bool) \<Rightarrow> nat" where
  "sort_Search_from i j f =
     (if i < j then
        (let h = (i + j) div 2
         in if \<not> f h then sort_Search_from (h + 1) j f else sort_Search_from i h f)
      else i)"
  by pat_completeness auto
termination
  by (relation "measure (\<lambda>(i, j, _). j - i)") auto

declare sort_Search_from.simps [simp del]

definition sort_Search :: "nat \<Rightarrow> (nat \<Rightarrow> bool) \<Rightarrow> nat" where
  "sort_Search n f = sort_Search_from 0 n f"

definition RevertToSnapshot :: "ext \<Rightarrow> 't Database \<Rightarrow> nat \<Rightarrow> 't StateDB \<Rightarrow> 't StateDB outcome" where
  "RevertToSnapshot X D revid s =
     (let revs = validRevisions s;
          idx = sort_Search (length revs) (\<lambda>i. fst (revs ! i) \<ge> revid)
      in if idx = length revs \<or> fst (revs ! idx) \<noteq> revid then Panicked BadRevision
         else and_then (journal_revert X D (snd (revs ! idx)) s) (\<lambda>s1.
                Done (s1\<lparr>validRevisions := take idx (validRevisions s1)\<rparr>)))"

section \<open>Finalise\<close>

definition clearJournalAndRefund :: "'t StateDB \<Rightarrow> 't StateDB" where
  "clearJournalAndRefund s =
     (let s1 = (if length (entries (journal s)) > 0 then s\<lparr>journal := newJournal, refund := 0\<rparr> else s)
      in s1\<lparr>validRevisions := []\<rparr>)"

text \<open>The body of the loop over the dirty addresses.\<close>

definition finalise_addr :: "ext \<Rightarrow> bool \<Rightarrow> address \<Rightarrow> 't StateDB \<Rightarrow> 't StateDB" where
  "finalise_addr X deleteEmptyObjects addr s =
     (case stateObjects s addr of
        None \<Rightarrow> s
      | Some obj \<Rightarrow>
          (let s1 =
             (if suicided obj \<or> (deleteEmptyObjects \<and> obj_empty X obj) then
                (let s0 = s\<lparr>stateObjects := (stateObjects s)(addr \<mapsto> obj\<lparr>deleted := True\<rparr>)\<rparr>
                 in if sd_snap s0 \<noteq> None
                    then s0\<lparr>snapDestructs := insert (addrHash obj) (snapDestructs s0),
                            snapAccounts := (snapAccounts s0)(addrHash obj := None),
                            snapStorage := (snapStorage s0)(addrHash obj := None)\<rparr>
                    else s0)
              else s\<lparr>stateObjects := (stateObjects s)(addr \<mapsto> obj_finalise obj)\<rparr>)
           in s1\<lparr>stateObjectsPending := insert addr (stateObjectsPending s1),
                 stateObjectsDirty := insert addr (stateObjectsDirty s1)\<rparr>))"

definition Finalise :: "ext \<Rightarrow> bool \<Rightarrow> address list \<Rightarrow> 't StateDB \<Rightarrow> 't StateDB" where
  "Finalise X deleteEmptyObjects order s =
     clearJournalAndRefund (fold (finalise_addr X deleteEmptyObjects) order s)"

definition Reset :: "'t Database \<Rightarrow> hash \<Rightarrow> 't StateDB \<Rightarrow> string + 't StateDB" where
  "Reset D root s =
     (case OpenTrie D root of
        Inl err \<Rightarrow> Inl err
      | Inr tr \<Rightarrow>
          (let s1 = clearJournalAndRefund
                 (s\<lparr>sd_trie := tr, stateObjects := Map.empty, stateObjectsPending := {},
                    stateObjectsDirty := {}, thash := 0, bhash := 0, txIndex := 0,
                    logs := Map.empty, logSize := 0, preimages := Map.empty\<rparr>)
           in Inr (case sd_snaps s1 of
                     None \<Rightarrow> s1
                   | Some t \<Rightarrow> s1\<lparr>sd_snap := t root, snapDestructs := {}, snapAccounts := Map.empty,
                                  snapStorage := Map.empty\<rparr>)))"

end
