(* ===== verification/State_Revert.thy ===== *)
theory State_Revert
  imports State_DB
begin

text \<open>
  Reverting to a snapshot undoes every change.

  Two states are related by \<open>sim\<close> when no getter tells them apart: they agree on the fields that
  are not caches, and for every address on the account, its code, and its current and
  committed storage. Reverting restores a state only up to \<open>sim\<close>: the caches that reading
  filled stay filled, a reverted slot keeps an entry in \<open>dirtyStorage\<close>, a reverted code stays
  marked \<open>dirtyCode\<close>, and the address \<open>ripemd\<close> stays dirty.

  \<open>logged s0 s\<close> says that the journal of \<open>s\<close> extends the one of \<open>s0\<close> by entries whose reversal
  leads back to \<open>s0\<close>. Every operation keeps \<open>logged s0\<close>, and so does a revert to a snapshot
  taken after \<open>s0\<close>.
\<close>

section \<open>Looking an object up\<close>

definition load_object :: "ext \<Rightarrow> 't Database \<Rightarrow> 't StateDB \<Rightarrow> address \<Rightarrow> 't stateObject option" where
  "load_object X D s a = map_option (newObject X a) (snd (read_account X D s a))"

definition lookup :: "ext \<Rightarrow> 't Database \<Rightarrow> 't StateDB \<Rightarrow> address \<Rightarrow> 't stateObject option" where
  "lookup X D s a =
     (case stateObjects s a of Some so \<Rightarrow> Some so | None \<Rightarrow> load_object X D s a)"

definition cached :: "ext \<Rightarrow> 't Database \<Rightarrow> address \<Rightarrow> 't StateDB \<Rightarrow> 't StateDB" where
  "cached X D a s = snd (getDeletedStateObject X D a s)"

lemma newObject_address [simp]: "so_address (newObject X a acc) = a"
  "addrHash (newObject X a acc) = keccak256 X (Address_Bytes a)"
  by (simp_all add: newObject_def)

lemma getDeletedStateObject_eq: "getDeletedStateObject X D a s = (lookup X D s a, cached X D a s)"
proof -
  have "fst (getDeletedStateObject X D a s) = lookup X D s a"
    by (simp add: getDeletedStateObject_def lookup_def load_object_def Let_def
        split: option.split prod.split)
  then show ?thesis by (simp add: cached_def prod_eq_iff)
qed

lemma cached_eq:
  "cached X D a s =
     s\<lparr>stateObjects := (stateObjects s)(a := lookup X D s a), sd_dbErr := sd_dbErr (cached X D a s)\<rparr>"
  by (cases "stateObjects s a")
    (auto simp: cached_def getDeletedStateObject_def lookup_def load_object_def Let_def
      setStateObject_def sd_setError_def fun_upd_idem split: option.split prod.split)

lemma cached_objects [simp]: "stateObjects (cached X D a s) = (stateObjects s)(a := lookup X D s a)"
  by (subst cached_eq, simp)+

lemma cached_fields [simp]:
  "sd_trie (cached X D a s) = sd_trie s" "sd_snaps (cached X D a s) = sd_snaps s"
  "sd_snap (cached X D a s) = sd_snap s"
  "snapDestructs (cached X D a s) = snapDestructs s" "snapAccounts (cached X D a s) = snapAccounts s"
  "snapStorage (cached X D a s) = snapStorage s"
  "stateObjectsPending (cached X D a s) = stateObjectsPending s"
  "stateObjectsDirty (cached X D a s) = stateObjectsDirty s"
  "refund (cached X D a s) = refund s" "thash (cached X D a s) = thash s"
  "bhash (cached X D a s) = bhash s" "txIndex (cached X D a s) = txIndex s"
  "logs (cached X D a s) = logs s" "logSize (cached X D a s) = logSize s"
  "preimages (cached X D a s) = preimages s" "journal (cached X D a s) = journal s"
  "validRevisions (cached X D a s) = validRevisions s"
  "nextRevisionId (cached X D a s) = nextRevisionId s"
  by (subst cached_eq, simp)+

definition live :: "ext \<Rightarrow> 't Database \<Rightarrow> 't StateDB \<Rightarrow> address \<Rightarrow> 't stateObject option" where
  "live X D s a =
     (case lookup X D s a of Some so \<Rightarrow> if deleted so then None else Some so | None \<Rightarrow> None)"

lemma getStateObject_eq: "getStateObject X D a s = (live X D s a, cached X D a s)"
  by (simp add: getStateObject_def getDeletedStateObject_eq live_def split: option.split)

lemma live_SomeD: "live X D s a = Some so \<Longrightarrow> lookup X D s a = Some so \<and> \<not> deleted so"
  by (auto simp: live_def split: option.splits if_splits)

lemma load_object_cong:
  assumes "sd_snap s = sd_snap t" "sd_trie s = sd_trie t"
  shows "read_account X D s a = read_account X D t a" "load_object X D s a = load_object X D t a"
proof -
  have "trie_account D s a = trie_account D t a" using assms by (simp add: trie_account_def)
  with assms show "read_account X D s a = read_account X D t a" by (auto simp: read_account_def split: option.split sum.split)
  then show "load_object X D s a = load_object X D t a" by (simp add: load_object_def)
qed

lemma lookup_cong:
  assumes "sd_snap s = sd_snap t" "sd_trie s = sd_trie t" "stateObjects s a = stateObjects t a"
  shows "lookup X D s a = lookup X D t a"
  using load_object_cong [OF assms(1,2), of X D a] assms(3) by (auto simp: lookup_def split: option.split)

lemma lookup_upd:
  assumes "sd_snap s = sd_snap t" "sd_trie s = sd_trie t"
    and "stateObjects t = (stateObjects s)(b \<mapsto> so)"
  shows "lookup X D t a = (if a = b then Some so else lookup X D s a)"
  using load_object_cong [OF assms(1,2), of X D a] assms(3) by (auto simp: lookup_def split: option.split)

lemma lookup_cached [simp]: "lookup X D (cached X D b s) a = lookup X D s a"
proof -
  have "load_object X D (cached X D b s) a = load_object X D s a"
    by (rule load_object_cong) simp_all
  then show ?thesis by (auto simp: lookup_def split: option.split)
qed

section \<open>Observations\<close>

definition code_view :: "ext \<Rightarrow> 't Database \<Rightarrow> 't stateObject \<Rightarrow> bytes option" where
  "code_view X D so = fst (obj_Code X D so)"

definition committed_view ::
    "ext \<Rightarrow> 't Database \<Rightarrow> 't StateDB \<Rightarrow> 't stateObject \<Rightarrow> hash \<Rightarrow> hash outcome" where
  "committed_view X D s so key = and_then (obj_GetCommittedState X D s key so) (\<lambda>(v, _). Done v)"

definition state_view ::
    "ext \<Rightarrow> 't Database \<Rightarrow> 't StateDB \<Rightarrow> 't stateObject \<Rightarrow> hash \<Rightarrow> hash outcome" where
  "state_view X D s so key = and_then (obj_GetState X D s key so) (\<lambda>(v, _). Done v)"

definition obj_sim :: "ext \<Rightarrow> 't Database \<Rightarrow> 't StateDB \<Rightarrow> 't stateObject \<Rightarrow> 't stateObject \<Rightarrow> bool" where
  "obj_sim X D s so so' \<longleftrightarrow>
     so_address so = so_address so' \<and> addrHash so = addrHash so' \<and> so_data so = so_data so' \<and>
     suicided so = suicided so' \<and> deleted so = deleted so' \<and> fakeStorage so = fakeStorage so' \<and>
     code_view X D so = code_view X D so' \<and>
     (\<forall>k. committed_view X D s so k = committed_view X D s so' k) \<and>
     (\<forall>k. state_view X D s so k = state_view X D s so' k)"

definition same_fields :: "'t StateDB \<Rightarrow> 't StateDB \<Rightarrow> bool" where
  "same_fields s t \<longleftrightarrow>
     sd_trie s = sd_trie t \<and> sd_snaps s = sd_snaps t \<and> sd_snap s = sd_snap t \<and>
     snapDestructs s = snapDestructs t \<and> snapAccounts s = snapAccounts t \<and>
     snapStorage s = snapStorage t \<and> stateObjectsPending s = stateObjectsPending t \<and>
     stateObjectsDirty s = stateObjectsDirty t \<and> refund s = refund t \<and> thash s = thash t \<and>
     bhash s = bhash t \<and> txIndex s = txIndex t \<and> (\<forall>h. GetLogs h s = GetLogs h t) \<and>
     logSize s = logSize t \<and> preimages s = preimages t"

definition sim :: "ext \<Rightarrow> 't Database \<Rightarrow> 't StateDB \<Rightarrow> 't StateDB \<Rightarrow> bool" where
  "sim X D s t \<longleftrightarrow>
     same_fields s t \<and> (\<forall>a. rel_option (obj_sim X D s) (lookup X D s a) (lookup X D t a))"

lemma same_fields_equiv: "same_fields s s" "same_fields s t \<Longrightarrow> same_fields t s"
  "same_fields s t \<Longrightarrow> same_fields t u \<Longrightarrow> same_fields s u"
  by (simp_all add: same_fields_def)

lemma same_fields_snap: "same_fields s t \<Longrightarrow> sd_snap s = sd_snap t"
  "same_fields s t \<Longrightarrow> snapDestructs s = snapDestructs t" "same_fields s t \<Longrightarrow> sd_trie s = sd_trie t"
  by (simp_all add: same_fields_def)

lemma committed_view_cong:
  assumes "sd_snap s = sd_snap t" "addrHash so \<in> snapDestructs s \<longleftrightarrow> addrHash so \<in> snapDestructs t"
  shows "committed_view X D s so k = committed_view X D t so k"
    "state_view X D s so k = state_view X D t so k"
  using assms by (simp_all add: committed_view_def state_view_def obj_GetState_def
      obj_GetCommittedState_def split: option.split)

lemma obj_sim_cong:
  assumes "sd_snap s = sd_snap t" "addrHash so \<in> snapDestructs s \<longleftrightarrow> addrHash so \<in> snapDestructs t"
    and "obj_sim X D s so so'"
  shows "obj_sim X D t so so'"
  using assms committed_view_cong [OF assms(1,2), of X D]
    committed_view_cong [of s t so' X D] unfolding obj_sim_def by metis

lemma obj_sim_refl [simp]: "obj_sim X D s so so"
  by (simp add: obj_sim_def)

lemma obj_sim_sym: "obj_sim X D s so so' \<Longrightarrow> obj_sim X D s so' so"
  by (simp add: obj_sim_def)

lemma obj_sim_trans: "obj_sim X D s a b \<Longrightarrow> obj_sim X D s b c \<Longrightarrow> obj_sim X D s a c"
  by (simp add: obj_sim_def)

lemma rel_option_sym: "(\<And>x y. R x y \<Longrightarrow> R' y x) \<Longrightarrow> rel_option R a b \<Longrightarrow> rel_option R' b a"
  by (cases a; cases b) auto

lemma rel_option_trans:
  "(\<And>x y z. R x y \<Longrightarrow> R' y z \<Longrightarrow> R x z) \<Longrightarrow> rel_option R a b \<Longrightarrow> rel_option R' b c \<Longrightarrow> rel_option R a c"
  by (cases a; cases b; cases c) auto

lemma sim_refl [simp]: "sim X D s s"
  by (simp add: sim_def same_fields_equiv option.rel_refl)

lemma sim_same_fields: "sim X D s t \<Longrightarrow> same_fields s t"
  by (simp add: sim_def)

lemma obj_sim_same_fields:
  assumes "same_fields s t"
  shows "obj_sim X D s so so' \<longleftrightarrow> obj_sim X D t so so'"
  using obj_sim_cong [of s t so X D so'] obj_sim_cong [of t s so X D so'] same_fields_snap [OF assms]
  by auto

lemma sim_sym:
  assumes "sim X D s t"
  shows "sim X D t s"
proof -
  have "rel_option (obj_sim X D t) (lookup X D t a) (lookup X D s a)" for a
  proof (rule rel_option_sym)
    show "rel_option (obj_sim X D s) (lookup X D s a) (lookup X D t a)"
      using assms by (simp add: sim_def)
  qed (use obj_sim_same_fields [OF sim_same_fields [OF assms]] obj_sim_sym in blast)
  then show ?thesis using assms same_fields_equiv(2) by (auto simp: sim_def)
qed

lemma sim_trans:
  assumes st: "sim X D s t" and tu: "sim X D t u"
  shows "sim X D s u"
proof -
  have "rel_option (obj_sim X D s) (lookup X D s a) (lookup X D u a)" for a
  proof (rule rel_option_trans)
    show "rel_option (obj_sim X D s) (lookup X D s a) (lookup X D t a)"
      using st by (simp add: sim_def)
    show "rel_option (obj_sim X D t) (lookup X D t a) (lookup X D u a)"
      using tu by (simp add: sim_def)
  qed (use obj_sim_same_fields [OF sim_same_fields [OF st]] obj_sim_trans in blast)
  then show ?thesis using assms same_fields_equiv(3) by (auto simp: sim_def)
qed

section \<open>Setters respect the observations\<close>

lemma getTrie_fst_cong:
  assumes "so_trie so = so_trie so'" "addrHash so = addrHash so'"
    "acc_Root (so_data so) = acc_Root (so_data so')"
  shows "fst (getTrie D so) = fst (getTrie D so')"
  using assms by (auto simp: getTrie_def Let_def split: option.split sum.split)

lemma cache_slot_fst: "fst (cache_slot k enc so) = fst (cache_slot k enc so')"
  by (auto simp: cache_slot_def Let_def split: sum.split)

lemma trie_slot_view:
  "and_then (trie_slot D k so) (\<lambda>(v, _). Done v) =
     (case fst (getTrie D so) of
        None \<Rightarrow> Panicked NilDeref
      | Some t \<Rightarrow> (case TryGet D t (Hash_Bytes k) of
                    Inl _ \<Rightarrow> Done 0 | Inr enc \<Rightarrow> Done (fst (cache_slot k enc so))))"
  by (auto simp: trie_slot_def case_prod_unfold cache_slot_fst split: option.split sum.split)

text \<open>What \<open>committed_view\<close> reads of an object.\<close>

definition same_store :: "'t stateObject \<Rightarrow> 't stateObject \<Rightarrow> bool" where
  "same_store so so' \<longleftrightarrow>
     addrHash so = addrHash so' \<and> acc_Root (so_data so) = acc_Root (so_data so') \<and>
     so_trie so = so_trie so' \<and> originStorage so = originStorage so' \<and>
     pendingStorage so = pendingStorage so' \<and> fakeStorage so = fakeStorage so'"

lemma committed_view_same_store:
  assumes "same_store so so'"
  shows "committed_view X D s so k = committed_view X D s so' k"
proof -
  have "and_then (trie_slot D k so) (\<lambda>(v, _). Done v) = and_then (trie_slot D k so') (\<lambda>(v, _). Done v)"
    unfolding trie_slot_view using assms getTrie_fst_cong [of so so' D] cache_slot_fst [of k _ so so']
    by (auto simp: same_store_def split: option.split sum.split)
  moreover note assms cache_slot_fst [of k _ so so']
  ultimately show ?thesis
    by (auto simp: committed_view_def obj_GetCommittedState_def same_store_def case_prod_unfold
        split: option.split sum.split)
qed

lemma state_view_eq:
  "state_view X D s so k =
     (case fakeStorage so of
        None \<Rightarrow> (case dirtyStorage so k of Some v \<Rightarrow> Done v | None \<Rightarrow> committed_view X D s so k)
      | Some fk \<Rightarrow> Done (case fk k of None \<Rightarrow> 0 | Some v \<Rightarrow> v))"
  by (auto simp: state_view_def obj_GetState_def committed_view_def split: option.split)

lemma committed_view_fake:
  "fakeStorage so = Some fk \<Longrightarrow> committed_view X D s so k = Done (case fk k of None \<Rightarrow> 0 | Some v \<Rightarrow> v)"
  by (simp add: committed_view_def obj_GetCommittedState_def)

lemma obj_setters_store [simp]:
  "same_store (obj_setBalance b so) so" "same_store (obj_setNonce n so) so"
  "same_store (obj_setCode h c so) so" "same_store (obj_setState k v so) so"
  "same_store (so\<lparr>suicided := x\<rparr>) so" "same_store (so\<lparr>so_dbErr := e\<rparr>) so"
  by (simp_all add: same_store_def obj_setBalance_def obj_setNonce_def obj_setCode_def obj_setState_def)

lemma obj_setters_committed [simp]:
  "committed_view X D s (obj_setBalance b so) k = committed_view X D s so k"
  "committed_view X D s (obj_setNonce n so) k = committed_view X D s so k"
  "committed_view X D s (obj_setCode h c so) k = committed_view X D s so k"
  "committed_view X D s (obj_setState key v so) k = committed_view X D s so k"
  "committed_view X D s (so\<lparr>suicided := x\<rparr>) k = committed_view X D s so k"
  by (rule committed_view_same_store, simp)+

lemma obj_setters_state [simp]:
  "state_view X D s (obj_setBalance b so) k = state_view X D s so k"
  "state_view X D s (obj_setNonce n so) k = state_view X D s so k"
  "state_view X D s (obj_setCode h c so) k = state_view X D s so k"
  "state_view X D s (so\<lparr>suicided := x\<rparr>) k = state_view X D s so k"
  unfolding state_view_eq obj_setters_committed
  by (simp_all add: obj_setBalance_def obj_setNonce_def obj_setCode_def split: option.split)

lemma state_view_setState:
  "state_view X D s (obj_setState key v so) k =
     (if fakeStorage so = None \<and> k = key then Done v else state_view X D s so k)"
  unfolding state_view_eq obj_setters_committed by (auto simp: obj_setState_def split: option.split)

lemma obj_setters_code [simp]:
  "code_view X D (obj_setBalance b so) = code_view X D so"
  "code_view X D (obj_setNonce n so) = code_view X D so"
  "code_view X D (obj_setState key v so) = code_view X D so"
  "code_view X D (so\<lparr>suicided := x\<rparr>) = code_view X D so"
  by (auto simp: code_view_def obj_Code_def obj_setBalance_def obj_setNonce_def obj_setState_def
      split: option.split prod.split)

lemma code_view_eq:
  "code_view X D so =
     (case so_code so of
        Some c \<Rightarrow> Some c
      | None \<Rightarrow> if acc_CodeHash (so_data so) = emptyCodeHash X then None
                else fst (ContractCode D (addrHash so) (BytesToHash (acc_CodeHash (so_data so)))))"
  by (auto simp: code_view_def obj_Code_def split: option.split prod.split)

lemma obj_setters_fields [simp]:
  "so_address (obj_setBalance b so) = so_address so" "so_address (obj_setNonce n so) = so_address so"
  "so_address (obj_setCode h c so) = so_address so" "so_address (obj_setState k v so) = so_address so"
  "addrHash (obj_setBalance b so) = addrHash so" "addrHash (obj_setNonce n so) = addrHash so"
  "addrHash (obj_setCode h c so) = addrHash so" "addrHash (obj_setState k v so) = addrHash so"
  "deleted (obj_setBalance b so) = deleted so" "deleted (obj_setNonce n so) = deleted so"
  "deleted (obj_setCode h c so) = deleted so" "deleted (obj_setState k v so) = deleted so"
  "suicided (obj_setBalance b so) = suicided so" "suicided (obj_setNonce n so) = suicided so"
  "suicided (obj_setCode h c so) = suicided so" "suicided (obj_setState k v so) = suicided so"
  "fakeStorage (obj_setBalance b so) = fakeStorage so" "fakeStorage (obj_setNonce n so) = fakeStorage so"
  "fakeStorage (obj_setCode h c so) = fakeStorage so" "fakeStorage (obj_setState k v so) = fakeStorage so"
  "so_data (obj_setState k v so) = so_data so"
  "so_data (obj_setBalance b so) = (so_data so)\<lparr>acc_Balance := b\<rparr>"
  "so_data (obj_setNonce n so) = (so_data so)\<lparr>acc_Nonce := n\<rparr>"
  "so_data (obj_setCode h c so) = (so_data so)\<lparr>acc_CodeHash := Hash_Bytes h\<rparr>"
  by (simp_all add: obj_setBalance_def obj_setNonce_def obj_setCode_def obj_setState_def)

lemma obj_sim_setters:
  assumes "obj_sim X D s so so'"
  shows "obj_sim X D s (obj_setBalance b so) (obj_setBalance b so')"
    "obj_sim X D s (obj_setNonce n so) (obj_setNonce n so')"
    "obj_sim X D s (obj_setCode h c so) (obj_setCode h c so')"
    "obj_sim X D s (obj_setState k v so) (obj_setState k v so')"
    "obj_sim X D s (so\<lparr>suicided := x\<rparr>) (so'\<lparr>suicided := x\<rparr>)"
proof -
  have code: "code_view X D (obj_setCode h c so) = code_view X D (obj_setCode h c so')"
    using assms by (auto simp: code_view_eq obj_setCode_def obj_sim_def split: option.split)
  show "obj_sim X D s (obj_setBalance b so) (obj_setBalance b so')"
    using assms by (simp add: obj_sim_def)
  show "obj_sim X D s (obj_setNonce n so) (obj_setNonce n so')"
    using assms by (simp add: obj_sim_def)
  show "obj_sim X D s (obj_setCode h c so) (obj_setCode h c so')"
    using assms code by (simp add: obj_sim_def)
  show "obj_sim X D s (obj_setState k v so) (obj_setState k v so')"
    using assms by (auto simp: obj_sim_def state_view_setState)
  show "obj_sim X D s (so\<lparr>suicided := x\<rparr>) (so'\<lparr>suicided := x\<rparr>)"
    using assms by (simp add: obj_sim_def)
qed

section \<open>Well-formed states\<close>

definition wf_obj :: "ext \<Rightarrow> address \<Rightarrow> 't stateObject \<Rightarrow> bool" where
  "wf_obj X a so \<longleftrightarrow>
     so_address so = a \<and> addrHash so = keccak256 X (Address_Bytes a) \<and>
     length (acc_CodeHash (so_data so)) = 32 \<and> fakeStorage so = None"

fun wf_entry :: "ext \<Rightarrow> 't journalEntry \<Rightarrow> bool" where
  "wf_entry X (resetObjectChange prev _) = wf_obj X (so_address prev) prev"
| "wf_entry X (codeChange _ _ prevhash) = (length prevhash = 32)"
| "wf_entry X _ = True"

text \<open>The accounts that the database holds have code hashes of 32 bytes.\<close>

definition wf_source :: "ext \<Rightarrow> 't Database \<Rightarrow> 't StateDB \<Rightarrow> bool" where
  "wf_source X D s \<longleftrightarrow>
     (\<forall>a acc h. snd (read_account X D s a) = Some acc \<longrightarrow> raw_CodeHash acc = Some h \<longrightarrow> length h = 32)"

definition wf :: "ext \<Rightarrow> 't Database \<Rightarrow> 't StateDB \<Rightarrow> bool" where
  "wf X D s \<longleftrightarrow>
     wf_source X D s \<and> (\<forall>a so. stateObjects s a = Some so \<longrightarrow> wf_obj X a so) \<and>
     stateObjectsDirty s \<subseteq> dom (stateObjects s) \<and>
     (\<forall>e \<in> set (entries (journal s)). wf_entry X e)"

definition addr_hash_inj :: "ext \<Rightarrow> bool" where
  "addr_hash_inj X \<longleftrightarrow> inj (\<lambda>a. keccak256 X (Address_Bytes a))"

lemma wf_lookup: "wf X D s \<Longrightarrow> lookup X D s a = Some so \<Longrightarrow> wf_obj X a so"
  by (auto simp: wf_def wf_source_def lookup_def load_object_def wf_obj_def newObject_def
      emptyCodeHash_def Hash_Bytes_def split: option.splits)

lemma wf_obj_address: "wf_obj X a so \<Longrightarrow> so_address so = a"
  by (simp add: wf_obj_def)

lemma wf_obj_setters [simp]:
  "wf_obj X a (obj_setBalance b so) = wf_obj X a so" "wf_obj X a (obj_setNonce n so) = wf_obj X a so"
  "wf_obj X a (obj_setState k v so) = wf_obj X a so"
  "wf_obj X a (so\<lparr>suicided := x\<rparr>) = wf_obj X a so"
  "wf_obj X a (obj_setCode h c so) \<longleftrightarrow>
     so_address so = a \<and> addrHash so = keccak256 X (Address_Bytes a) \<and> fakeStorage so = None"
  by (auto simp: wf_obj_def Hash_Bytes_def)

lemma wf_source_cong:
  assumes "sd_snap s = sd_snap t" "sd_trie s = sd_trie t"
  shows "wf_source X D s = wf_source X D t"
  using load_object_cong [OF assms, of X D] by (simp add: wf_source_def)

lemma wf_cached: "wf X D s \<Longrightarrow> wf X D (cached X D a s)"
proof -
  assume w: "wf X D s"
  have "wf_source X D (cached X D a s)"
    using w wf_source_cong [of "cached X D a s" s X D] by (simp add: wf_def)
  moreover have "wf_obj X b so" if "stateObjects (cached X D a s) b = Some so" for b so
    using that w wf_lookup [OF w, of a] by (auto simp: wf_def split: if_splits)
  moreover have "stateObjectsDirty s \<subseteq> dom ((stateObjects s)(a := lookup X D s a))"
    using w by (auto simp: wf_def lookup_def subset_iff domIff split: option.splits)
  ultimately show ?thesis using w by (simp add: wf_def)
qed

lemma wf_setStateObject: "wf X D s \<Longrightarrow> wf_obj X (so_address so) so \<Longrightarrow> wf X D (setStateObject so s)"
  using wf_source_cong [of "setStateObject so s" s X D]
  by (auto simp: wf_def setStateObject_def)

lemma wf_cong:
  assumes "wf X D s" "sd_snap s = sd_snap t" "sd_trie s = sd_trie t" "stateObjects t = stateObjects s"
    "stateObjectsDirty t = stateObjectsDirty s" "set (entries (journal t)) \<subseteq> set (entries (journal s))"
  shows "wf X D t"
  using assms wf_source_cong [OF assms(2,3), of X D] by (auto simp: wf_def)

lemma wf_update:
  "wf X D s \<Longrightarrow> wf X D (s\<lparr>journal := (journal s)\<lparr>dirties := d\<rparr>\<rparr>)"
  "wf X D s \<Longrightarrow> wf X D (s\<lparr>refund := r\<rparr>)" "wf X D s \<Longrightarrow> wf X D (s\<lparr>logs := l, logSize := n\<rparr>)"
  "wf X D s \<Longrightarrow> wf X D (s\<lparr>preimages := p\<rparr>)" "wf X D s \<Longrightarrow> wf X D (s\<lparr>snapDestructs := S\<rparr>)"
  "wf X D s \<Longrightarrow> wf X D (s\<lparr>validRevisions := vr\<rparr>)"
  "wf X D s \<Longrightarrow> wf X D (s\<lparr>nextRevisionId := i, validRevisions := vr\<rparr>)"
  by (erule wf_cong; simp)+

lemma append_entry_fields [simp]:
  "sd_trie (append_entry e s) = sd_trie s" "sd_snaps (append_entry e s) = sd_snaps s"
  "sd_snap (append_entry e s) = sd_snap s" "snapDestructs (append_entry e s) = snapDestructs s"
  "snapAccounts (append_entry e s) = snapAccounts s" "snapStorage (append_entry e s) = snapStorage s"
  "stateObjects (append_entry e s) = stateObjects s"
  "stateObjectsPending (append_entry e s) = stateObjectsPending s"
  "stateObjectsDirty (append_entry e s) = stateObjectsDirty s"
  "refund (append_entry e s) = refund s" "thash (append_entry e s) = thash s"
  "bhash (append_entry e s) = bhash s" "txIndex (append_entry e s) = txIndex s"
  "logs (append_entry e s) = logs s" "logSize (append_entry e s) = logSize s"
  "preimages (append_entry e s) = preimages s"
  "validRevisions (append_entry e s) = validRevisions s"
  "nextRevisionId (append_entry e s) = nextRevisionId s"
  "entries (journal (append_entry e s)) = entries (journal s) @ [e]"
  by (simp_all add: append_entry_def journal_append_def journal_dirty_def Let_def split: option.split)

lemma wf_append_entry: "wf X D s \<Longrightarrow> wf_entry X e \<Longrightarrow> wf X D (append_entry e s)"
  using wf_source_cong [of "append_entry e s" s X D] by (auto simp: wf_def)

lemma live_wf: "wf X D s \<Longrightarrow> live X D s a = Some so \<Longrightarrow> wf_obj X a so \<and> so_address so = a"
  by (auto dest!: live_SomeD wf_lookup simp: wf_obj_address)

section \<open>Reverting an entry\<close>

lemma revert_entry_entries: "revert_entry X D e s = Done s' \<Longrightarrow> journal s' = journal s"
  by (cases e) (auto simp: with_object_def getStateObject_eq setStateObject_def Let_def
      split: option.splits if_splits)

lemma revert_entry_revisions:
  "revert_entry X D e s = Done s' \<Longrightarrow>
     validRevisions s' = validRevisions s \<and> nextRevisionId s' = nextRevisionId s"
  by (cases e) (auto simp: with_object_def getStateObject_eq setStateObject_def Let_def
      split: option.splits if_splits)

lemma with_object_wf:
  assumes "wf X D s" "with_object X D a f s = Done s'"
    and "\<And>so. wf_obj X a so \<Longrightarrow> wf_obj X a (f so)"
  shows "wf X D s'"
proof -
  from assms(2) obtain so where so: "live X D s a = Some so"
    and s': "s' = setStateObject (f so) (cached X D a s)"
    by (auto simp: with_object_def getStateObject_eq split: option.splits)
  have "wf_obj X a (f so)" using assms(3) live_wf [OF assms(1) so] by blast
  then show ?thesis unfolding s'
    by (intro wf_setStateObject wf_cached assms(1)) (simp add: wf_obj_address)
qed

lemma revert_entry_wf:
  assumes "wf X D s" "wf_entry X e" "revert_entry X D e s = Done s'"
  shows "wf X D s'"
proof (cases e)
  case (createObjectChange a)
  have "wf_source X D s'"
    using assms(1,3) createObjectChange wf_source_cong [of s' s X D] by (auto simp: wf_def)
  then show ?thesis using assms(1,3) createObjectChange by (auto simp: wf_def split: if_splits)
next
  case (resetObjectChange prev b)
  then show ?thesis using assms
    by (auto simp: Let_def split: if_splits intro!: wf_update wf_setStateObject)
next
  case (suicideChange a b n)
  then show ?thesis using assms live_wf [OF assms(1), of a]
    by (auto simp: getStateObject_eq split: option.splits intro!: wf_setStateObject wf_cached)
next
  case (addLogChange h)
  then show ?thesis using assms by (auto simp: Let_def split: if_splits intro!: wf_update)
next
  case (codeChange a c h)
  then show ?thesis using assms with_object_wf [OF assms(1), of a "obj_setCode (BytesToHash h) c" s']
    by (auto simp: wf_obj_def)
next
  case (balanceChange a b)
  then show ?thesis using assms with_object_wf [OF assms(1), of a "obj_setBalance b" s'] by simp
next
  case (nonceChange a b)
  then show ?thesis using assms with_object_wf [OF assms(1), of a "obj_setNonce b" s'] by simp
next
  case (storageChange a k v)
  then show ?thesis using assms with_object_wf [OF assms(1), of a "obj_setState k v" s'] by simp
qed (use assms in \<open>auto intro!: wf_update\<close>)

text \<open>Related states stay related.\<close>

lemma sim_live:
  assumes "sim X D s t"
  shows "rel_option (obj_sim X D s) (live X D s a) (live X D t a)"
proof -
  have "rel_option (obj_sim X D s) (lookup X D s a) (lookup X D t a)" using assms by (simp add: sim_def)
  then show ?thesis
    by (cases "lookup X D s a"; cases "lookup X D t a") (auto simp: live_def obj_sim_def)
qed

lemma GetLogs_simps [simp]:
  "GetLogs h (setStateObject so s) = GetLogs h s" "GetLogs h (cached X D a s) = GetLogs h s"
  "GetLogs h (append_entry e s) = GetLogs h s"
  "GetLogs h (s\<lparr>logs := l\<rparr>) = (case l h of None \<Rightarrow> [] | Some ls \<Rightarrow> ls)"
  by (simp_all add: GetLogs_def setStateObject_def)

lemma same_fields_objects:
  "same_fields s t \<Longrightarrow> same_fields (setStateObject so (cached X D a s)) (setStateObject so' (cached X D b t))"
  by (simp add: same_fields_def) (simp add: setStateObject_def)

lemma sim_setStateObject:
  assumes "sim X D s t" "obj_sim X D s so so'" "so_address so = a"
  shows "sim X D (setStateObject so (cached X D a s)) (setStateObject so' (cached X D a t))"
proof -
  let ?s = "setStateObject so (cached X D a s)" and ?t = "setStateObject so' (cached X D a t)"
  have sf: "same_fields ?s ?t" using same_fields_objects [OF sim_same_fields [OF assms(1)]] .
  have os: "obj_sim X D ?s = obj_sim X D s"
    using obj_sim_cong [of s ?s] obj_sim_cong [of ?s s]
    by (intro ext iffI) (auto simp: setStateObject_def)
  have a': "so_address so' = a" using assms(2,3) by (simp add: obj_sim_def)
  have "lookup X D ?s b = (if b = a then Some so else lookup X D s b)" for b
    using lookup_upd [of "cached X D a s" ?s a so X D b] assms(3) by (simp add: setStateObject_def)
  moreover have "lookup X D ?t b = (if b = a then Some so' else lookup X D t b)" for b
    using lookup_upd [of "cached X D a t" ?t a so' X D b] a' by (simp add: setStateObject_def)
  ultimately show ?thesis using sf assms(1,2) by (simp add: sim_def os)
qed

lemma with_object_sim:
  assumes "wf X D s" "sim X D s t" "with_object X D a f s = Done s'"
    and f: "\<And>so so'. obj_sim X D s so so' \<Longrightarrow> obj_sim X D s (f so) (f so')"
    and fa: "\<And>so. so_address (f so) = so_address so"
  shows "\<exists>t'. with_object X D a f t = Done t' \<and> sim X D s' t'"
proof -
  from assms(3) obtain so where so: "live X D s a = Some so"
    and s': "s' = setStateObject (f so) (cached X D a s)"
    by (auto simp: with_object_def getStateObject_eq split: option.splits)
  from sim_live [OF assms(2), of a] so obtain so' where so': "live X D t a = Some so'"
    and os: "obj_sim X D s so so'" by (auto simp: option_rel_Some1)
  have "so_address (f so) = a" using fa live_wf [OF assms(1) so] by simp
  from sim_setStateObject [OF assms(2) f [OF os] this] so'
  show ?thesis unfolding s' by (simp add: with_object_def getStateObject_eq)
qed

lemma sim_cached: "sim X D s (cached X D a s)"
  by (simp add: sim_def same_fields_def GetLogs_def option.rel_refl)

lemma sim_objects_cong:
  assumes "sim X D s t" "same_fields s' t'"
    and "sd_snap s' = sd_snap s" "snapDestructs s' = snapDestructs s" "sd_trie s' = sd_trie s"
    and "stateObjects s' = stateObjects s" "stateObjects t' = stateObjects t"
  shows "sim X D s' t'"
proof -
  have "obj_sim X D s' = obj_sim X D s"
    using obj_sim_cong [of s s'] obj_sim_cong [of s' s] assms(3,4) by (intro ext iffI) auto
  moreover have "lookup X D s' a = lookup X D s a" for a
    using assms by (intro lookup_cong) simp_all
  moreover have "lookup X D t' a = lookup X D t a" for a
    using assms same_fields_snap [OF sim_same_fields [OF assms(1)]] same_fields_snap [OF assms(2)]
    by (intro lookup_cong) simp_all
  ultimately show ?thesis using assms(1,2) by (simp add: sim_def)
qed

lemma sim_delete_object:
  assumes "sim X D s t"
  shows "sim X D (s\<lparr>stateObjects := (stateObjects s)(a := None), stateObjectsDirty := stateObjectsDirty s - {a}\<rparr>)
    (t\<lparr>stateObjects := (stateObjects t)(a := None), stateObjectsDirty := stateObjectsDirty t - {a}\<rparr>)"
    (is "sim X D ?s ?t")
proof -
  note sf = same_fields_snap [OF sim_same_fields [OF assms]]
  have os: "obj_sim X D ?s = obj_sim X D s"
    using obj_sim_cong [of s ?s] obj_sim_cong [of ?s s] by (intro ext iffI) auto
  have "rel_option (obj_sim X D ?s) (lookup X D ?s b) (lookup X D ?t b)" for b
  proof (cases "b = a")
    case True
    have "load_object X D ?s a = load_object X D ?t a" using sf by (intro load_object_cong) simp_all
    with True show ?thesis by (simp add: lookup_def option.rel_refl)
  next
    case False
    then have "lookup X D ?s b = lookup X D s b" "lookup X D ?t b = lookup X D t b"
      by (auto intro!: lookup_cong)
    with assms show ?thesis by (simp add: sim_def os)
  qed
  moreover have "same_fields ?s ?t"
    using assms by (simp add: sim_def same_fields_def GetLogs_def)
  ultimately show ?thesis by (simp add: sim_def)
qed

lemma sim_restore_object:
  assumes inj: "addr_hash_inj X" and w: "wf X D s" and prev: "wf_obj X (so_address prev) prev"
    and st: "sim X D s t" and S: "S = snapDestructs s \<or> S = snapDestructs s - {addrHash prev}"
  shows "sim X D ((setStateObject prev s)\<lparr>snapDestructs := S\<rparr>) ((setStateObject prev t)\<lparr>snapDestructs := S\<rparr>)"
    (is "sim X D ?s ?t")
proof -
  note sf = same_fields_snap [OF sim_same_fields [OF st]]
  let ?a = "so_address prev"
  have ls: "lookup X D ?s b = (if b = ?a then Some prev else lookup X D s b)" for b
    using lookup_upd [of s ?s ?a prev X D b] by (simp add: setStateObject_def)
  have lt: "lookup X D ?t b = (if b = ?a then Some prev else lookup X D t b)" for b
    using lookup_upd [of t ?t ?a prev X D b] by (simp add: setStateObject_def)
  have "rel_option (obj_sim X D ?s) (lookup X D s b) (lookup X D t b)" if "b \<noteq> ?a" for b
  proof (cases "lookup X D s b")
    case None
    have "rel_option (obj_sim X D s) (lookup X D s b) (lookup X D t b)" using st by (simp add: sim_def)
    with None show ?thesis by simp
  next
    case (Some so)
    then obtain so' where so': "lookup X D t b = Some so'" "obj_sim X D s so so'"
      using st by (auto simp: sim_def option_rel_Some1 dest!: spec [of _ b])
    have "addrHash so \<noteq> addrHash prev"
      using wf_lookup [OF w Some] prev inj that by (auto simp: wf_obj_def addr_hash_inj_def inj_def)
    then have "obj_sim X D ?s so so'"
      using so'(2) S by (intro obj_sim_cong [of s ?s so X D so']) (auto simp: setStateObject_def)
    with Some so' show ?thesis by simp
  qed
  moreover have "same_fields ?s ?t"
    using sim_same_fields [OF st] by (simp add: same_fields_def GetLogs_def setStateObject_def)
  ultimately show ?thesis by (simp add: sim_def ls lt)
qed

lemma revert_entry_sim:
  assumes inj: "addr_hash_inj X" and w: "wf X D s" and e: "wf_entry X e" and st: "sim X D s t"
    and r: "revert_entry X D e s = Done s'"
  shows "\<exists>t'. revert_entry X D e t = Done t' \<and> sim X D s' t'"
proof -
  note sf = sim_same_fields [OF st] same_fields_snap [OF sim_same_fields [OF st]]
  note wo = with_object_sim [OF w st]
  show ?thesis
  proof (cases e)
    case (createObjectChange a)
    then show ?thesis using r sim_delete_object [OF st] by auto
  next
    case (resetObjectChange prev b)
    then have prev: "wf_obj X (so_address prev) prev" using e by simp
    have triv: "(setStateObject prev u)\<lparr>snapDestructs := snapDestructs u\<rparr> = setStateObject prev u"
      for u :: "'a StateDB" by (simp add: setStateObject_def)
    show ?thesis
    proof (cases "\<not> b \<and> sd_snap s \<noteq> None")
      case True
      with resetObjectChange r sim_restore_object [OF inj w prev st, of "snapDestructs s - {addrHash prev}"] sf
      show ?thesis by (auto simp: setStateObject_def Let_def)
    next
      case False
      have "sim X D (setStateObject prev s) (setStateObject prev t)"
        using sim_restore_object [OF inj w prev st, of "snapDestructs s"] triv [of s] triv [of t] sf(3)
        by metis
      with False resetObjectChange r sf show ?thesis by (auto simp: Let_def setStateObject_def)
    qed
  next
    case (suicideChange a b n)
    show ?thesis
    proof (cases "live X D s a")
      case None
      with sim_live [OF st, of a] have "live X D t a = None" by simp
      with None suicideChange r sim_trans [OF sim_sym [OF sim_cached] sim_trans [OF st sim_cached]]
      show ?thesis by (auto simp: getStateObject_eq)
    next
      case (Some so)
      from sim_live [OF st, of a] Some obtain so' where so': "live X D t a = Some so'"
        and os: "obj_sim X D s so so'" by (auto simp: option_rel_Some1)
      let ?f = "\<lambda>x. obj_setBalance n (x\<lparr>suicided := b\<rparr>)"
      have "sim X D (setStateObject (?f so) (cached X D a s)) (setStateObject (?f so') (cached X D a t))"
        using live_wf [OF w Some]
        by (intro sim_setStateObject st obj_sim_setters os) simp
      with Some so' suicideChange r show ?thesis by (auto simp: getStateObject_eq)
    qed
  next
    case (balanceChange a b)
    then show ?thesis using r wo [of a "obj_setBalance b" s'] by (simp add: obj_sim_setters)
  next
    case (nonceChange a b)
    then show ?thesis using r wo [of a "obj_setNonce b" s'] by (simp add: obj_sim_setters)
  next
    case (storageChange a k v)
    then show ?thesis using r wo [of a "obj_setState k v" s'] by (simp add: obj_sim_setters)
  next
    case (codeChange a c h)
    then show ?thesis using r wo [of a "obj_setCode (BytesToHash h) c" s'] by (simp add: obj_sim_setters)
  next
    case (refundChange n)
    have "same_fields (s\<lparr>refund := n\<rparr>) (t\<lparr>refund := n\<rparr>)"
      using sf(1) by (simp add: same_fields_def GetLogs_def)
    with refundChange r sim_objects_cong [OF st] show ?thesis by fastforce
  next
    case (addPreimageChange h)
    have "same_fields (s\<lparr>preimages := (preimages s)(h := None)\<rparr>) (t\<lparr>preimages := (preimages t)(h := None)\<rparr>)"
      using sf(1) by (simp add: same_fields_def GetLogs_def)
    with addPreimageChange r sim_objects_cong [OF st] show ?thesis by fastforce
  next
    case (addLogChange h)
    have gl: "GetLogs k s = GetLogs k t" for k using sf(1) by (simp add: same_fields_def)
    have "same_fields (s\<lparr>logs := (logs s)(h := l), logSize := logSize s - 1\<rparr>)
        (t\<lparr>logs := (logs t)(h := l), logSize := logSize t - 1\<rparr>)" for l
      using sf(1) gl by (simp add: same_fields_def GetLogs_def)
    then have "sim X D (s\<lparr>logs := (logs s)(h := l), logSize := logSize s - 1\<rparr>)
        (t\<lparr>logs := (logs t)(h := l), logSize := logSize t - 1\<rparr>)" for l
      by (rule sim_objects_cong [OF st]) simp_all
    with addLogChange r gl [of h] show ?thesis by (auto simp: Let_def split: if_splits)
  qed (use r st in auto)
qed

text \<open>A list of entries.\<close>

lemma sim_journal:
  assumes "sim X D s t"
  shows "sim X D (s\<lparr>journal := j\<rparr>) (t\<lparr>journal := j'\<rparr>)"
proof (rule sim_objects_cong [OF assms])
  show "same_fields (s\<lparr>journal := j\<rparr>) (t\<lparr>journal := j'\<rparr>)"
    using assms by (simp add: sim_def same_fields_def GetLogs_def)
qed simp_all

lemma journal_undirty_entries [simp]: "entries (journal_undirty e j) = entries j"
  by (simp add: journal_undirty_def Let_def split: option.split)

lemma wf_undirty: "wf X D s \<Longrightarrow> wf X D (s\<lparr>journal := journal_undirty e (journal s)\<rparr>)"
  by (erule wf_cong) simp_all

lemma revert_entries_append:
  "revert_entries X D (es @ fs) s = and_then (revert_entries X D es s) (revert_entries X D fs)"
  by (induction es arbitrary: s) (simp_all add: and_then_assoc)

lemma revert_entries_keeps:
  "revert_entries X D es s = Done s' \<Longrightarrow>
     entries (journal s') = entries (journal s) \<and> validRevisions s' = validRevisions s \<and>
     nextRevisionId s' = nextRevisionId s"
proof (induction es arbitrary: s)
  case (Cons e es)
  then obtain s1 where "revert_entry X D e s = Done s1"
    and "revert_entries X D es (s1\<lparr>journal := journal_undirty e (journal s1)\<rparr>) = Done s'"
    by (auto simp: and_then_iffs)
  with Cons.IH revert_entry_entries revert_entry_revisions show ?case by fastforce
qed simp

lemma revert_entries_wf:
  "wf X D s \<Longrightarrow> \<forall>e \<in> set es. wf_entry X e \<Longrightarrow> revert_entries X D es s = Done s' \<Longrightarrow> wf X D s'"
proof (induction es arbitrary: s)
  case (Cons e es)
  then obtain s1 where s1: "revert_entry X D e s = Done s1"
    "revert_entries X D es (s1\<lparr>journal := journal_undirty e (journal s1)\<rparr>) = Done s'"
    by (auto simp: and_then_iffs)
  have "wf X D (s1\<lparr>journal := journal_undirty e (journal s1)\<rparr>)"
    using Cons.prems s1(1) revert_entry_wf by (intro wf_undirty) auto
  then show ?case using Cons s1(2) by auto
qed simp

lemma revert_entries_sim:
  assumes inj: "addr_hash_inj X"
  shows "wf X D s \<Longrightarrow> \<forall>e \<in> set es. wf_entry X e \<Longrightarrow> sim X D s t \<Longrightarrow>
     revert_entries X D es s = Done s' \<Longrightarrow> \<exists>t'. revert_entries X D es t = Done t' \<and> sim X D s' t'"
proof (induction es arbitrary: s t)
  case (Cons e es)
  then obtain s1 where s1: "revert_entry X D e s = Done s1"
    "revert_entries X D es (s1\<lparr>journal := journal_undirty e (journal s1)\<rparr>) = Done s'"
    by (auto simp: and_then_iffs)
  from revert_entry_sim [OF inj Cons.prems(1) _ Cons.prems(3) s1(1)] Cons.prems(2)
  obtain t1 where t1: "revert_entry X D e t = Done t1" "sim X D s1 t1" by auto
  have "wf X D (s1\<lparr>journal := journal_undirty e (journal s1)\<rparr>)"
    using Cons.prems s1(1) revert_entry_wf by (intro wf_undirty) auto
  with Cons.IH [of _ "t1\<lparr>journal := journal_undirty e (journal t1)\<rparr>"] sim_journal [OF t1(2)]
    Cons.prems(2) s1(2) t1(1)
  show ?case by fastforce
qed auto

section \<open>Operations are logged\<close>

definition logged :: "ext \<Rightarrow> 't Database \<Rightarrow> 't StateDB \<Rightarrow> 't StateDB \<Rightarrow> bool" where
  "logged X D s0 s \<longleftrightarrow>
     (\<exists>new u. entries (journal s) = entries (journal s0) @ new \<and>
        revert_entries X D (rev new) s = Done u \<and> sim X D s0 u)"

text \<open>\<open>steps s s'\<close>: from a well-formed state to a well-formed one, logged, with the revisions
  untouched.\<close>

definition steps :: "ext \<Rightarrow> 't Database \<Rightarrow> 't StateDB \<Rightarrow> 't StateDB \<Rightarrow> bool" where
  "steps X D s s' \<longleftrightarrow>
     (wf X D s \<longrightarrow> wf X D s' \<and> logged X D s s') \<and>
     validRevisions s' = validRevisions s \<and> nextRevisionId s' = nextRevisionId s"

lemma logged_sim: "entries (journal s') = entries (journal s) \<Longrightarrow> sim X D s s' \<Longrightarrow> logged X D s s'"
  by (auto simp: logged_def)

lemma logged_refl [simp]: "logged X D s s"
  by (simp add: logged_sim)

lemma logged_entry:
  assumes "entries (journal s') = entries (journal s) @ [e]" "revert_entry X D e s' = Done u" "sim X D s u"
  shows "logged X D s s'"
proof -
  have "sim X D s (u\<lparr>journal := j\<rparr>)" for j
    using sim_journal [OF assms(3), of "journal s" j] by simp
  with assms show ?thesis unfolding logged_def by (intro exI [of _ "[e]"]) simp
qed

lemma logged_trans:
  assumes inj: "addr_hash_inj X" and w: "wf X D s1"
    and l01: "logged X D s0 s1" and l12: "logged X D s1 s2"
  shows "logged X D s0 s2"
proof -
  from l01 obtain n1 u1 where 1: "entries (journal s1) = entries (journal s0) @ n1"
    "revert_entries X D (rev n1) s1 = Done u1" "sim X D s0 u1" by (auto simp: logged_def)
  from l12 obtain n2 u2 where 2: "entries (journal s2) = entries (journal s1) @ n2"
    "revert_entries X D (rev n2) s2 = Done u2" "sim X D s1 u2" by (auto simp: logged_def)
  have "\<forall>e \<in> set (rev n1). wf_entry X e" using w 1(1) by (auto simp: wf_def)
  from revert_entries_sim [OF inj w this 2(3) 1(2)] obtain u where
    "revert_entries X D (rev n1) u2 = Done u" "sim X D u1 u" by blast
  with 1 2 sim_trans show ?thesis
    unfolding logged_def by (intro exI [of _ "n1 @ n2"]) (auto simp: revert_entries_append)
qed

lemma steps_refl [simp]: "steps X D s s"
  by (simp add: steps_def)

lemma steps_trans: "addr_hash_inj X \<Longrightarrow> steps X D s0 s1 \<Longrightarrow> steps X D s1 s2 \<Longrightarrow> steps X D s0 s2"
  by (auto simp: steps_def intro: logged_trans)

lemma steps_cached: "steps X D s (cached X D a s)"
  by (simp add: steps_def wf_cached logged_sim sim_cached)

text \<open>Replacing the live object at an address by one with the same observations.\<close>

lemma sim_replace:
  assumes "lookup X D s a = Some so" "obj_sim X D s so so'" "so_address so' = a"
    and "same_fields s t" "stateObjects t = (stateObjects s)(a \<mapsto> so')"
  shows "sim X D s t"
proof -
  have "lookup X D t b = (if b = a then Some so' else lookup X D s b)" for b
    using lookup_upd [of s t a so'] same_fields_snap [OF assms(4)] assms(5) by simp
  then show ?thesis using assms by (auto simp: sim_def option.rel_refl)
qed

lemma sim_sameobjects:
  assumes "same_fields s t" "stateObjects t = stateObjects s"
  shows "sim X D s t"
proof -
  have "lookup X D t b = lookup X D s b" for b
    using same_fields_snap [OF assms(1)] assms(2) by (intro lookup_cong) simp_all
  with assms(1) show ?thesis by (simp add: sim_def option.rel_refl)
qed

lemma wf_obj_cached_views:
  assumes "wf_obj X a so" "obj_sim X D s so so'"
  shows "wf_obj X a so'"
  using assms unfolding wf_obj_def obj_sim_def by metis

section \<open>Caches do not change the observations\<close>

definition slot_value :: "bytes \<Rightarrow> hash" where
  "slot_value enc =
     (if length enc > 0
      then (case Split enc of Inl _ \<Rightarrow> Hash_SetBytes 0 [] | Inr (_, content, _) \<Rightarrow> Hash_SetBytes 0 content)
      else 0)"

definition trie_view :: "'t Database \<Rightarrow> hash \<Rightarrow> 't option \<Rightarrow> hash outcome" where
  "trie_view D k tr =
     (case tr of
        None \<Rightarrow> Panicked NilDeref
      | Some t \<Rightarrow> (case TryGet D t (Hash_Bytes k) of Inl _ \<Rightarrow> Done 0 | Inr enc \<Rightarrow> Done (slot_value enc)))"

definition slot_view ::
    "ext \<Rightarrow> 't Database \<Rightarrow> 't StateDB \<Rightarrow> hash \<Rightarrow> hash \<Rightarrow> 't option \<Rightarrow> hash outcome" where
  "slot_view X D s k ah tr =
     (case sd_snap s of
        None \<Rightarrow> trie_view D k tr
      | Some snap \<Rightarrow>
          if ah \<in> snapDestructs s then Done 0
          else case snap_Storage snap ah (keccak256 X (Hash_Bytes k)) of
                 Inr enc \<Rightarrow> Done (slot_value enc)
               | Inl _ \<Rightarrow> trie_view D k tr)"

lemma cache_slot_eq:
  "\<exists>e. cache_slot k enc so =
     (slot_value enc, so\<lparr>so_dbErr := e, originStorage := (originStorage so)(k \<mapsto> slot_value enc)\<rparr>)"
proof -
  have "cache_slot k enc so =
     (slot_value enc, so\<lparr>so_dbErr := so_dbErr (snd (cache_slot k enc so)),
        originStorage := (originStorage so)(k \<mapsto> slot_value enc)\<rparr>)"
    by (auto simp: cache_slot_def slot_value_def so_setError_def Let_def
        split: sum.split option.split prod.split)
  then show ?thesis by blast
qed

lemma getTrie_eq:
  "\<exists>e. getTrie D so = (fst (getTrie D so), so\<lparr>so_trie := fst (getTrie D so), so_dbErr := e\<rparr>)"
proof -
  have "getTrie D so = (fst (getTrie D so),
      so\<lparr>so_trie := fst (getTrie D so), so_dbErr := so_dbErr (snd (getTrie D so))\<rparr>)"
    by (auto simp: getTrie_def so_setError_def Let_def split: sum.split option.split)
  then show ?thesis by blast
qed

lemma getTrie_opened: "fst (getTrie D (so\<lparr>so_trie := fst (getTrie D so)\<rparr>)) = fst (getTrie D so)"
  by (auto simp: getTrie_def Let_def split: sum.split option.split)

lemma committed_view_slots:
  "committed_view X D s so k =
     (case fakeStorage so of
        Some fk \<Rightarrow> Done (case fk k of None \<Rightarrow> 0 | Some v \<Rightarrow> v)
      | None \<Rightarrow>
     (case pendingStorage so k of
        Some v \<Rightarrow> Done v
      | None \<Rightarrow>
     (case originStorage so k of
        Some v \<Rightarrow> Done v
      | None \<Rightarrow> slot_view X D s k (addrHash so) (fst (getTrie D so)))))"
proof -
  have c: "fst (cache_slot k enc so1) = slot_value enc" for enc so1
    using cache_slot_eq [of k enc so1] by auto
  show ?thesis
    unfolding committed_view_def obj_GetCommittedState_def slot_view_def trie_view_def
    by (auto simp: trie_slot_view [unfolded case_prod_unfold] c case_prod_unfold split: option.split sum.split)
qed

text \<open>An object with more slots cached, the trie opened, or an error noted.\<close>

definition more_cached :: "ext \<Rightarrow> 't Database \<Rightarrow> 't StateDB \<Rightarrow> 't stateObject \<Rightarrow> 't stateObject \<Rightarrow> bool" where
  "more_cached X D s so so1 \<longleftrightarrow>
     (\<exists>t e orig. so1 = so\<lparr>so_trie := t, so_dbErr := e, originStorage := orig\<rparr> \<and>
        (t = so_trie so \<or> t = fst (getTrie D so)) \<and>
        (\<forall>k. orig k = originStorage so k \<or>
             originStorage so k = None \<and> fakeStorage so = None \<and> pendingStorage so k = None \<and>
             (\<exists>v. orig k = Some v \<and> committed_view X D s so k = Done v)))"

lemma more_cached_sim:
  assumes "more_cached X D s so so1"
  shows "obj_sim X D s so so1"
proof -
  from assms obtain t e orig where so1: "so1 = so\<lparr>so_trie := t, so_dbErr := e, originStorage := orig\<rparr>"
    and t: "t = so_trie so \<or> t = fst (getTrie D so)"
    and orig: "\<And>k. orig k = originStorage so k \<or> originStorage so k = None \<and> fakeStorage so = None \<and>
             pendingStorage so k = None \<and> (\<exists>v. orig k = Some v \<and> committed_view X D s so k = Done v)"
    unfolding more_cached_def by blast
  have tr: "fst (getTrie D so1) = fst (getTrie D so)"
  proof -
    have "fst (getTrie D so1) = fst (getTrie D (so\<lparr>so_trie := t\<rparr>))"
      by (rule getTrie_fst_cong) (simp_all add: so1)
    with t getTrie_opened [of D so] show ?thesis by auto
  qed
  have com: "committed_view X D s so1 k = committed_view X D s so k" for k
  proof (cases "orig k = originStorage so k")
    case True
    then show ?thesis unfolding committed_view_slots tr by (auto simp: so1 split: option.split)
  next
    case False
    with orig [of k] obtain v where "orig k = Some v" "committed_view X D s so k = Done v"
      "fakeStorage so = None" "pendingStorage so k = None" by blast
    then show ?thesis unfolding committed_view_slots [of X D s so1] by (simp add: so1)
  qed
  have "state_view X D s so1 k = state_view X D s so k" for k
    unfolding state_view_eq com by (auto simp: so1 split: option.split)
  moreover have "code_view X D so1 = code_view X D so" by (auto simp: code_view_eq so1 split: option.split)
  ultimately show ?thesis using com by (simp add: obj_sim_def so1)
qed

lemma more_cached_slot:
  assumes "originStorage so k = None" "fakeStorage so = None" "pendingStorage so k = None"
    and "committed_view X D s so k = Done v" and "t = so_trie so \<or> t = fst (getTrie D so)"
  shows "more_cached X D s so (so\<lparr>so_trie := t, so_dbErr := e, originStorage := (originStorage so)(k \<mapsto> v)\<rparr>)"
  unfolding more_cached_def using assms by (intro exI conjI) (auto split: if_splits)

lemma more_cached_err:
  "t = so_trie so \<or> t = fst (getTrie D so) \<Longrightarrow> more_cached X D s so (so\<lparr>so_trie := t, so_dbErr := e\<rparr>)"
  unfolding more_cached_def by (intro exI conjI) auto

lemma more_cached_refl: "more_cached X D s so so"
  using more_cached_err [of "so_trie so" so D X s "so_dbErr so"] by simp

lemma trie_slot_cached:
  assumes "trie_slot D k so = Done (v, so1)" "committed_view X D s so k = Done v"
    and "originStorage so k = None" "fakeStorage so = None" "pendingStorage so k = None"
  shows "more_cached X D s so so1"
proof -
  obtain e where g: "getTrie D so = (fst (getTrie D so), so\<lparr>so_trie := fst (getTrie D so), so_dbErr := e\<rparr>)"
    using getTrie_eq by blast
  let ?so = "so\<lparr>so_trie := fst (getTrie D so), so_dbErr := e\<rparr>"
  from assms(1) obtain t where t: "fst (getTrie D so) = Some t"
    by (subst (asm) trie_slot_def, subst (asm) g) (auto split: option.splits)
  show ?thesis
  proof (cases "TryGet D t (Hash_Bytes k)")
    case (Inl err)
    then have "so1 = so_setError (Some (ErrStorageRead err)) ?so"
      using assms(1) t by (subst (asm) trie_slot_def, subst (asm) g) auto
    then obtain e' where "so1 = so\<lparr>so_trie := fst (getTrie D so), so_dbErr := e'\<rparr>"
      by (auto simp: so_setError_def split: option.splits)
    then show ?thesis using more_cached_err by blast
  next
    case (Inr enc)
    obtain e' where c: "cache_slot k enc ?so =
        (slot_value enc, ?so\<lparr>so_dbErr := e', originStorage := (originStorage ?so)(k \<mapsto> slot_value enc)\<rparr>)"
      using cache_slot_eq by blast
    from Inr have "(v, so1) = cache_slot k enc ?so"
      using assms(1) t by (subst (asm) trie_slot_def, subst (asm) g) auto
    with c have "v = slot_value enc"
      "so1 = so\<lparr>so_trie := fst (getTrie D so), so_dbErr := e', originStorage := (originStorage so)(k \<mapsto> v)\<rparr>"
      by simp_all
    with assms show ?thesis by (auto intro: more_cached_slot)
  qed
qed

lemma GetCommittedState_cached:
  assumes "obj_GetCommittedState X D s k so = Done (v, so1)"
  shows "more_cached X D s so so1" "committed_view X D s so k = Done v"
proof -
  show v: "committed_view X D s so k = Done v" using assms by (simp add: committed_view_def)
  have "so1 = so \<or> (originStorage so k = None \<and> fakeStorage so = None \<and> pendingStorage so k = None \<and>
      (trie_slot D k so = Done (v, so1) \<or> (\<exists>enc. cache_slot k enc so = (v, so1))))"
    using assms by (auto simp: obj_GetCommittedState_def split: option.splits if_splits sum.splits)
  then consider "so1 = so" | "originStorage so k = None" "fakeStorage so = None" "pendingStorage so k = None"
      "trie_slot D k so = Done (v, so1)"
    | enc where "originStorage so k = None" "fakeStorage so = None" "pendingStorage so k = None"
      "cache_slot k enc so = (v, so1)" by metis
  then show "more_cached X D s so so1"
  proof cases
    case 1
    then show ?thesis by (simp add: more_cached_refl)
  next
    case 2
    then show ?thesis using trie_slot_cached v by blast
  next
    case 3
    with cache_slot_eq [of k enc so] v more_cached_slot [of so k X D s v "so_trie so"] show ?thesis by auto
  qed
qed

lemma GetState_cached:
  assumes "obj_GetState X D s k so = Done (v, so1)"
  shows "more_cached X D s so so1" "state_view X D s so k = Done v" 
  using assms GetCommittedState_cached [of X D s k so v so1] more_cached_refl
  by (auto simp: obj_GetState_def state_view_def split: option.splits)

lemma obj_Code_cached: "obj_sim X D s so (snd (obj_Code X D so))"
proof -
  have *: "snd (obj_Code X D so) = so \<or>
      snd (obj_Code X D so) = so\<lparr>so_dbErr := so_dbErr (snd (obj_Code X D so)), so_code := code_view X D so\<rparr>"
    by (auto simp: obj_Code_def code_view_eq so_setError_def Let_def split: option.split prod.split)
  have "obj_sim X D s so (so\<lparr>so_dbErr := e, so_code := code_view X D so\<rparr>)" for e
  proof -
    let ?so = "so\<lparr>so_dbErr := e, so_code := code_view X D so\<rparr>"
    have com: "committed_view X D s ?so k = committed_view X D s so k" for k
      by (rule committed_view_same_store) (simp add: same_store_def)
    have "state_view X D s ?so k = state_view X D s so k" for k
      unfolding state_view_eq com by (simp split: option.split)
    moreover have "code_view X D ?so = code_view X D so"
      by (cases "so_code so") (auto simp: code_view_eq split: option.split)
    ultimately show ?thesis using com by (simp add: obj_sim_def)
  qed
  then show ?thesis using * obj_sim_refl by metis
qed

lemma obj_CodeSize_cached: "obj_sim X D s so (snd (obj_CodeSize X D so))"
proof -
  have "snd (obj_CodeSize X D so) = so\<lparr>so_dbErr := so_dbErr (snd (obj_CodeSize X D so))\<rparr>"
    by (auto simp: obj_CodeSize_def so_setError_def Let_def split: option.split prod.split)
  then have "more_cached X D s so (snd (obj_CodeSize X D so))"
    using more_cached_err [of "so_trie so" so D X s "so_dbErr (snd (obj_CodeSize X D so))"] by simp
  then show ?thesis by (rule more_cached_sim)
qed

section \<open>Every operation is logged\<close>

lemma same_fields_set:
  "same_fields s (setStateObject so (cached X D a s))" "same_fields s (setStateObject so s)"
  by (simp_all add: same_fields_def) (simp_all add: setStateObject_def)

lemma steps_recache:
  assumes "lookup X D s a = Some so" "obj_sim X D s so so1"
  shows "steps X D s (setStateObject so1 (cached X D a s))"
proof -
  let ?s = "setStateObject so1 (cached X D a s)"
  have "wf X D ?s \<and> logged X D s ?s" if w: "wf X D s"
  proof
    have wo: "wf_obj X a so1" using wf_lookup [OF w assms(1)] assms(2) wf_obj_cached_views by blast
    then have a: "so_address so1 = a" by (rule wf_obj_address)
    with wo show "wf X D ?s" by (intro wf_setStateObject wf_cached w) simp
    have "stateObjects ?s = (stateObjects s)(a \<mapsto> so1)" by (simp add: setStateObject_def a)
    then have "sim X D s ?s"
      using assms a same_fields_set by (intro sim_replace [of X D s a so so1]) auto
    moreover have "entries (journal ?s) = entries (journal s)" by (simp add: setStateObject_def)
    ultimately show "logged X D s ?s" by (simp add: logged_sim)
  qed
  then show ?thesis by (simp add: steps_def) (simp add: setStateObject_def)
qed

lemma steps_GetCode: "steps X D s (snd (GetCode X D a s))"
proof (cases "live X D s a")
  case None
  then show ?thesis by (simp add: GetCode_def getStateObject_eq steps_cached)
next
  case (Some so)
  with steps_recache [of X D s a so] obj_Code_cached [of X D s so] live_SomeD [OF Some] show ?thesis
    by (simp add: GetCode_def getStateObject_eq case_prod_unfold Let_def)
qed

lemma steps_GetCodeSize: "steps X D s (snd (GetCodeSize X D a s))"
proof (cases "live X D s a")
  case None
  then show ?thesis by (simp add: GetCodeSize_def getStateObject_eq steps_cached)
next
  case (Some so)
  with steps_recache [of X D s a so] obj_CodeSize_cached [of X D s so] live_SomeD [OF Some] show ?thesis
    by (simp add: GetCodeSize_def getStateObject_eq case_prod_unfold Let_def)
qed

lemma views_cached:
  "obj_GetState X D (cached X D a s) k so = obj_GetState X D s k so"
  "obj_GetCommittedState X D (cached X D a s) k so = obj_GetCommittedState X D s k so"
  by (simp_all add: obj_GetState_def obj_GetCommittedState_def split: option.split)

lemma steps_GetState:
  assumes "GetState X D a k s = Done (v, s')"
  shows "steps X D s s'"
proof (cases "live X D s a")
  case None
  with assms show ?thesis by (auto simp: GetState_def getStateObject_eq steps_cached)
next
  case (Some so)
  with assms obtain so1 where "obj_GetState X D s k so = Done (v, so1)"
    and "s' = setStateObject so1 (cached X D a s)"
    by (auto simp: GetState_def getStateObject_eq views_cached and_then_iffs)
  with steps_recache [of X D s a so so1] GetState_cached more_cached_sim live_SomeD [OF Some]
  show ?thesis by blast
qed

lemma steps_GetCommittedState:
  assumes "GetCommittedState X D a k s = Done (v, s')"
  shows "steps X D s s'"
proof (cases "live X D s a")
  case None
  with assms show ?thesis by (auto simp: GetCommittedState_def getStateObject_eq steps_cached)
next
  case (Some so)
  with assms obtain so1 where "obj_GetCommittedState X D s k so = Done (v, so1)"
    and "s' = setStateObject so1 (cached X D a s)"
    by (auto simp: GetCommittedState_def getStateObject_eq views_cached and_then_iffs)
  with steps_recache [of X D s a so so1] GetCommittedState_cached more_cached_sim live_SomeD [OF Some]
  show ?thesis by blast
qed

lemma steps_getters:
  "steps X D s (snd (Exist X D a s))" "steps X D s (snd (Empty X D a s))"
  "steps X D s (snd (GetBalance X D a s))" "steps X D s (snd (GetNonce X D a s))"
  "steps X D s (snd (GetCodeHash X D a s))" "steps X D s (snd (HasSuicided X D a s))"
  by (simp_all add: Exist_def Empty_def GetBalance_def GetNonce_def GetCodeHash_def HasSuicided_def
      getStateObject_eq steps_cached)

text \<open>Creating an object.\<close>

definition new_account :: "ext \<Rightarrow> address \<Rightarrow> 't stateObject" where
  "new_account X a = obj_setNonce 0 (newObject X a
     \<lparr> raw_Nonce = 0, raw_Balance = None, raw_Root = 0, raw_CodeHash = None \<rparr>)"

lemma new_account_wf [simp]: "wf_obj X a (new_account X a)" "deleted (new_account X a) = False"
  "so_address (new_account X a) = a"
  by (simp_all add: new_account_def wf_obj_def newObject_def emptyCodeHash_def Hash_Bytes_def)

lemma createObject_None:
  assumes "lookup X D s a = None"
  shows "createObject X D a s =
    (new_account X a, None, setStateObject (new_account X a) (append_entry (createObjectChange a) (cached X D a s)))"
  using assms by (simp add: createObject_def getDeletedStateObject_eq new_account_def Let_def split: option.split)

lemma createObject_Some:
  assumes "lookup X D s a = Some prev"
  shows "createObject X D a s =
    (new_account X a, if deleted prev then None else Some prev,
     setStateObject (new_account X a)
       (append_entry (resetObjectChange prev (sd_snap s \<noteq> None \<and> addrHash prev \<in> snapDestructs s))
         ((cached X D a s)\<lparr>snapDestructs :=
            (if sd_snap s = None then snapDestructs s else insert (addrHash prev) (snapDestructs s))\<rparr>)))"
proof -
  have c: "(cached X D a s)\<lparr>snapDestructs := snapDestructs s\<rparr> = cached X D a s"
    by (subst (1 2) cached_eq) simp
  from assms show ?thesis
    by (auto simp: c createObject_def getDeletedStateObject_eq new_account_def Let_def split: option.split)
qed

lemma setStateObject_fields [simp]:
  "sd_trie (setStateObject so s) = sd_trie s" "sd_snaps (setStateObject so s) = sd_snaps s"
  "sd_snap (setStateObject so s) = sd_snap s" "snapDestructs (setStateObject so s) = snapDestructs s"
  "snapAccounts (setStateObject so s) = snapAccounts s" "snapStorage (setStateObject so s) = snapStorage s"
  "stateObjects (setStateObject so s) = (stateObjects s)(so_address so \<mapsto> so)"
  "stateObjectsPending (setStateObject so s) = stateObjectsPending s"
  "stateObjectsDirty (setStateObject so s) = stateObjectsDirty s"
  "refund (setStateObject so s) = refund s" "thash (setStateObject so s) = thash s"
  "bhash (setStateObject so s) = bhash s" "txIndex (setStateObject so s) = txIndex s"
  "logs (setStateObject so s) = logs s" "logSize (setStateObject so s) = logSize s"
  "preimages (setStateObject so s) = preimages s" "journal (setStateObject so s) = journal s"
  "validRevisions (setStateObject so s) = validRevisions s"
  "nextRevisionId (setStateObject so s) = nextRevisionId s"
  by (simp_all add: setStateObject_def)

lemma steps_createObject_None:
  assumes "lookup X D s a = None"
  shows "steps X D s (snd (snd (createObject X D a s)))"
proof -
  let ?s = "setStateObject (new_account X a) (append_entry (createObjectChange a) (cached X D a s))"
  have objs: "stateObjects s a = None" using assms by (auto simp: lookup_def split: option.splits)
  have "wf X D ?s \<and> logged X D s ?s" if w: "wf X D s"
  proof
    show "wf X D ?s" by (intro wf_setStateObject wf_append_entry wf_cached w) simp_all
    let ?u = "?s\<lparr>stateObjects := (stateObjects ?s)(a := None), stateObjectsDirty := stateObjectsDirty ?s - {a}\<rparr>"
    have "a \<notin> stateObjectsDirty s" using w objs by (auto simp: wf_def)
    then have "same_fields s ?u" by (simp add: same_fields_def GetLogs_def)
    moreover have "stateObjects ?u = stateObjects s" using objs by auto
    ultimately have "sim X D s ?u" by (rule sim_sameobjects)
    then show "logged X D s ?s" by (intro logged_entry [of _ _ "createObjectChange a"]) simp_all
  qed
  then show ?thesis by (simp add: steps_def createObject_None [OF assms])
qed

lemma steps_reset:
  assumes inj: "addr_hash_inj X" and l: "lookup X D s a = Some prev"
    and new: "wf_obj X a new" and S: "S = (if sd_snap s = None then snapDestructs s else insert (addrHash prev) (snapDestructs s))"
    and pd: "pd \<longleftrightarrow> sd_snap s \<noteq> None \<and> addrHash prev \<in> snapDestructs s"
  shows "steps X D s (setStateObject new
    (append_entry (resetObjectChange prev pd) ((cached X D a s)\<lparr>snapDestructs := S\<rparr>)))" (is "steps X D s ?s")
proof -
  have "wf X D ?s \<and> logged X D s ?s" if w: "wf X D s"
  proof
    have prev: "wf_obj X a prev" by (rule wf_lookup [OF w l])
    then have a: "so_address prev = a" "so_address new = a" using new by (simp_all add: wf_obj_address)
    with prev new show "wf X D ?s"
      by (intro wf_setStateObject wf_append_entry wf_update(5) wf_cached w) simp_all
    obtain u where u: "revert_entry X D (resetObjectChange prev pd) ?s = Done u" by (simp add: Let_def)
    have "same_fields s u" using u S pd
      by (auto simp: same_fields_def GetLogs_def Let_def split: if_splits)
    moreover have "stateObjects u = (stateObjects s)(a \<mapsto> prev)" using u a by (auto simp: Let_def split: if_splits)
    ultimately have "sim X D s u" using l a(1) by (intro sim_replace [of X D s a prev prev]) simp_all
    with u show "logged X D s ?s" by (intro logged_entry [of _ _ "resetObjectChange prev pd"]) simp_all
  qed
  then show ?thesis by (simp add: steps_def)
qed

lemma steps_createObject:
  assumes "addr_hash_inj X"
  shows "steps X D s (snd (snd (createObject X D a s)))"
proof (cases "lookup X D s a")
  case None
  then show ?thesis by (rule steps_createObject_None)
next
  case (Some prev)
  show ?thesis unfolding createObject_Some [OF Some] snd_conv
    by (rule steps_reset [OF assms Some]) simp_all
qed

lemma createObject_new:
  "fst (createObject X D a s) = new_account X a"
  "stateObjects (snd (snd (createObject X D a s))) a = Some (new_account X a)"
  by (cases "lookup X D s a"; simp add: createObject_None createObject_Some)+

lemma GetOrNew_spec:
  assumes inj: "addr_hash_inj X" and g: "GetOrNewStateObject X D a s = (so, s1)"
  shows "steps X D s s1" "stateObjects s1 a = Some so" "\<not> deleted so"
proof -
  have "steps X D s s1 \<and> stateObjects s1 a = Some so \<and> \<not> deleted so"
  proof (cases "live X D s a")
    case (Some o1)
    with g live_SomeD [OF Some] show ?thesis
      by (auto simp: GetOrNewStateObject_def getStateObject_eq steps_cached)
  next
    case None
    let ?c = "createObject X D a (cached X D a s)"
    from None g have "so = fst ?c" "s1 = snd (snd ?c)"
      by (auto simp: GetOrNewStateObject_def getStateObject_eq split: prod.splits)
    with createObject_new [of X D a "cached X D a s"] steps_createObject [OF inj, of D "cached X D a s" a]
      steps_trans [OF inj steps_cached [of X D s a]] show ?thesis by auto
  qed
  then show "steps X D s s1" "stateObjects s1 a = Some so" "\<not> deleted so" by blast+
qed

lemma steps_CreateAccount:
  assumes inj: "addr_hash_inj X"
  shows "steps X D s (CreateAccount X D a s)"
proof (cases "lookup X D s a")
  case None
  then show ?thesis
    using steps_createObject_None [OF None] by (simp add: CreateAccount_def createObject_None)
next
  case (Some prev)
  have twice: "setStateObject so' (setStateObject so t) = setStateObject so' t"
    if "so_address so' = so_address so" for so so' and t :: "'a StateDB"
    using that by (simp add: setStateObject_def)
  show ?thesis
  proof (cases "deleted prev")
    case True
    then show ?thesis using steps_createObject [OF inj, of D s a]
      by (simp add: CreateAccount_def createObject_Some [OF Some])
  next
    case False
    then show ?thesis
      using steps_reset [OF inj Some, of "obj_setBalance (acc_Balance (so_data prev)) (new_account X a)"]
      by (simp add: CreateAccount_def createObject_Some [OF Some] twice)
  qed
qed

text \<open>Writing an account: the object at \<open>a\<close> becomes \<open>new\<close>, and reverting the entry applies \<open>g\<close>.\<close>

lemma steps_write:
  assumes so: "stateObjects s a = Some so" and nd: "\<not> deleted new"
    and rev: "\<And>t. revert_entry X D e t = with_object X D a g t"
    and ok: "wf_obj X a so \<Longrightarrow>
      wf_entry X e \<and> wf_obj X a new \<and> so_address (g new) = a \<and> obj_sim X D s so (g new)"
  shows "steps X D s (setStateObject new (append_entry e s))" (is "steps X D s ?s")
proof -
  have "wf X D ?s \<and> logged X D s ?s" if w: "wf X D s"
  proof
    have "wf_obj X a so" using w so by (auto simp: wf_def)
    note ok = ok [OF this]
    then have a: "so_address new = a" using wf_obj_address by blast
    with ok show "wf X D ?s" by (intro wf_setStateObject wf_append_entry w) simp_all
    have l: "lookup X D ?s a = Some new" by (simp add: lookup_def a)
    then have "live X D ?s a = Some new" using nd by (simp add: live_def)
    then have u: "revert_entry X D e ?s = Done (setStateObject (g new) (cached X D a ?s))"
      by (simp add: rev with_object_def getStateObject_eq)
    have "sim X D s (setStateObject (g new) (cached X D a ?s))"
      using so ok a l by (intro sim_replace [of X D s a so "g new"])
        (simp_all add: lookup_def same_fields_def GetLogs_def)
    with u show "logged X D s ?s" by (intro logged_entry [of _ _ e]) simp_all
  qed
  then show ?thesis by (simp add: steps_def)
qed

lemma obj_undo:
  "obj_setBalance (acc_Balance (so_data so)) (obj_setBalance b so) = so"
  "obj_setNonce (acc_Nonce (so_data so)) (obj_setNonce n so) = so"
  by (simp_all add: obj_setBalance_def obj_setNonce_def)

lemma steps_obj_SetBalance:
  "stateObjects s a = Some so \<Longrightarrow> \<not> deleted so \<Longrightarrow> so_address so = a \<Longrightarrow> steps X D s (obj_SetBalance b so s)"
  unfolding obj_SetBalance_def
  by (rule steps_write [where a = a and so = so and g = "obj_setBalance (acc_Balance (so_data so))"])
    (simp_all add: obj_undo)

lemma steps_obj_SetNonce:
  "stateObjects s a = Some so \<Longrightarrow> \<not> deleted so \<Longrightarrow> so_address so = a \<Longrightarrow> steps X D s (obj_SetNonce n so s)"
  unfolding obj_SetNonce_def
  by (rule steps_write [where a = a and so = so and g = "obj_setNonce (acc_Nonce (so_data so))"])
    (simp_all add: obj_undo)

lemma steps_obj_SetCode:
  assumes "stateObjects s a = Some so" "\<not> deleted so" "so_address so = a"
  shows "steps X D s (obj_SetCode X D h c so s)"
proof -
  obtain prev so1 where oc: "obj_Code X D so = (prev, so1)" by fastforce
  have os: "obj_sim X D s so so1" using obj_Code_cached [of X D s so] oc by simp
  then have d: "acc_CodeHash (so_data so1) = acc_CodeHash (so_data so)" "deleted so1 = deleted so"
    "so_address so1 = so_address so" "addrHash so1 = addrHash so" "fakeStorage so1 = fakeStorage so"
    by (simp_all add: obj_sim_def)
  have prev: "prev = code_view X D so" using oc by (simp add: code_view_def)
  have undo: "obj_sim X D s so (obj_setCode (BytesToHash (acc_CodeHash (so_data so))) prev (obj_setCode h c so1))"
    if len: "length (acc_CodeHash (so_data so)) = 32"
  proof -
    let ?u = "obj_setCode (BytesToHash (acc_CodeHash (so_data so))) prev (obj_setCode h c so1)"
    have "Hash_Bytes (BytesToHash (acc_CodeHash (so_data so))) = acc_CodeHash (so_data so)"
      using len by (simp add: Hash_Bytes_BytesToHash)
    then have data: "so_data ?u = so_data so" using os by (simp add: obj_sim_def)
    have "code_view X D ?u = code_view X D so"
      using data d(4) unfolding prev
      by (cases "so_code so") (auto simp: code_view_eq obj_setCode_def split: option.split)
    with data os show ?thesis by (simp add: obj_sim_def)
  qed
  show ?thesis
    unfolding obj_SetCode_def oc Let_def prod.case
    by (rule steps_write [where a = a and so = so and g = "obj_setCode (BytesToHash (acc_CodeHash (so_data so))) prev"])
      (use assms undo d in \<open>auto simp: wf_obj_def Hash_Bytes_def\<close>)
qed

lemma obj_GetState_cong:
  "sd_snap s = sd_snap t \<Longrightarrow> snapDestructs s = snapDestructs t \<Longrightarrow>
   obj_GetState X D s k so = obj_GetState X D t k so"
  by (simp add: obj_GetState_def obj_GetCommittedState_def split: option.split)

lemma steps_obj_SetState:
  assumes "stateObjects s a = Some so" "\<not> deleted so" "so_address so = a"
    and set: "obj_SetState X D k v so s = Done s'"
  shows "steps X D s s'"
proof (cases "fakeStorage so")
  case (Some fk)
  then have "\<not> wf X D s" using assms(1) by (force simp: wf_def wf_obj_def)
  moreover have "s' = setStateObject (so\<lparr>fakeStorage := Some (fk(k \<mapsto> v))\<rparr>) s"
    using set Some by (simp add: obj_SetState_def)
  ultimately show ?thesis by (simp add: steps_def)
next
  case None
  from set None obtain prev so1 where g: "obj_GetState X D s k so = Done (prev, so1)"
    and s': "s' = (if prev = v then setStateObject so1 s
      else setStateObject (obj_setState k v so1) (append_entry (storageChange a k prev) s))"
    by (auto simp: obj_SetState_def and_then_iffs assms(3))
  note mc = GetState_cached [OF g]
  have os: "obj_sim X D s so so1" using mc(1) by (rule more_cached_sim)
  have undo: "obj_sim X D s so (obj_setState k prev (obj_setState k v so1))"
    using os mc(2) None by (auto simp: obj_sim_def state_view_setState)
  have c: "cached X D a s = s"
    using assms(1) by (simp add: cached_def getDeletedStateObject_def)
  show ?thesis
  proof (cases "prev = v")
    case True
    have "lookup X D s a = Some so" using assms(1) by (simp add: lookup_def)
    from steps_recache [OF this os] True show ?thesis by (simp add: s' c)
  next
    case False
    have "steps X D s (setStateObject (obj_setState k v so1) (append_entry (storageChange a k prev) s))"
      by (rule steps_write [where a = a and so = so and g = "obj_setState k prev"])
        (use assms undo os in \<open>auto simp: obj_sim_def wf_obj_def\<close>)
    with False show ?thesis by (simp add: s')
  qed
qed

lemma steps_obj_touch: "steps X D s (obj_touch so s)"
proof -
  have e: "entries (journal (obj_touch so s)) = entries (journal s) @ [touchChange (so_address so)]"
    by (simp add: obj_touch_def journal_dirty_def Let_def)
  have o: "stateObjects (obj_touch so s) = stateObjects s" by (simp add: obj_touch_def Let_def)
  have sf: "same_fields s (obj_touch so s)"
    by (simp add: obj_touch_def same_fields_def GetLogs_def Let_def)
  have "wf X D (obj_touch so s)" if "wf X D s"
    using that e o sf wf_source_cong [of s "obj_touch so s" X D]
    by (auto simp: wf_def same_fields_def)
  moreover have "logged X D s (obj_touch so s)"
    using e sim_sameobjects [OF sf o] by (intro logged_entry [OF e]) simp_all
  moreover have "validRevisions (obj_touch so s) = validRevisions s"
    "nextRevisionId (obj_touch so s) = nextRevisionId s" by (simp_all add: obj_touch_def Let_def)
  ultimately show ?thesis by (simp add: steps_def)
qed

lemma steps_obj_AddBalance:
  "stateObjects s a = Some so \<Longrightarrow> \<not> deleted so \<Longrightarrow> so_address so = a \<Longrightarrow> steps X D s (obj_AddBalance X b so s)"
  by (simp add: obj_AddBalance_def steps_obj_SetBalance steps_obj_touch)

lemma steps_obj_SubBalance:
  "stateObjects s a = Some so \<Longrightarrow> \<not> deleted so \<Longrightarrow> so_address so = a \<Longrightarrow> steps X D s (obj_SubBalance b so s)"
  by (simp add: obj_SubBalance_def steps_obj_SetBalance)

lemma GetOrNew_address:
  assumes "wf X D s" "addr_hash_inj X" "GetOrNewStateObject X D a s = (so, s1)"
  shows "so_address so = a"
proof -
  have "wf X D s1" using GetOrNew_spec(1) [OF assms(2,3)] assms(1) by (simp add: steps_def)
  with GetOrNew_spec(2) [OF assms(2,3)] show ?thesis by (auto simp: wf_def dest: wf_obj_address)
qed

text \<open>The shape shared by the setters of \<open>StateDB\<close>: fetch or create the object, then write it.\<close>

lemma steps_with_new:
  assumes inj: "addr_hash_inj X" and g: "GetOrNewStateObject X D a s = (so, s1)"
    and f: "stateObjects s1 a = Some so \<Longrightarrow> \<not> deleted so \<Longrightarrow> so_address so = a \<Longrightarrow> steps X D s1 s2"
    and revs: "validRevisions s2 = validRevisions s1" "nextRevisionId s2 = nextRevisionId s1"
  shows "steps X D s s2"
proof (cases "wf X D s")
  case True
  note spec = GetOrNew_spec [OF inj g]
  from steps_trans [OF inj spec(1) f [OF spec(2,3) GetOrNew_address [OF True inj g]]] show ?thesis .
next
  case False
  with GetOrNew_spec(1) [OF inj g] revs show ?thesis by (simp add: steps_def)
qed

lemma obj_writes_revisions:
  "validRevisions (obj_SetBalance b so s) = validRevisions s" "nextRevisionId (obj_SetBalance b so s) = nextRevisionId s"
  "validRevisions (obj_SetNonce n so s) = validRevisions s" "nextRevisionId (obj_SetNonce n so s) = nextRevisionId s"
  "validRevisions (obj_touch so s) = validRevisions s" "nextRevisionId (obj_touch so s) = nextRevisionId s"
  "validRevisions (obj_SetCode X D h c so s) = validRevisions s"
  "nextRevisionId (obj_SetCode X D h c so s) = nextRevisionId s"
  "validRevisions (obj_AddBalance X b so s) = validRevisions s"
  "nextRevisionId (obj_AddBalance X b so s) = nextRevisionId s"
  "validRevisions (obj_SubBalance b so s) = validRevisions s"
  "nextRevisionId (obj_SubBalance b so s) = nextRevisionId s"
  by (simp_all add: obj_SetBalance_def obj_SetNonce_def obj_touch_def obj_SetCode_def obj_AddBalance_def
      obj_SubBalance_def Let_def case_prod_unfold)

lemma steps_setters:
  assumes inj: "addr_hash_inj X"
  shows "steps X D s (AddBalance X D a b s)" "steps X D s (SubBalance X D a b s)"
    "steps X D s (SetBalance X D a b s)" "steps X D s (SetNonce X D a n s)" "steps X D s (SetCode X D a c s)"
proof -
  obtain so s1 where g: "GetOrNewStateObject X D a s = (so, s1)" by fastforce
  note w = steps_with_new [OF inj g]
  show "steps X D s (AddBalance X D a b s)"
    unfolding AddBalance_def g Let_def prod.case
    by (rule w) (simp_all add: steps_obj_AddBalance obj_writes_revisions)
  show "steps X D s (SubBalance X D a b s)"
    unfolding SubBalance_def g Let_def prod.case
    by (rule w) (simp_all add: steps_obj_SubBalance obj_writes_revisions)
  show "steps X D s (SetBalance X D a b s)"
    unfolding SetBalance_def g Let_def prod.case
    by (rule w) (simp_all add: steps_obj_SetBalance obj_writes_revisions)
  show "steps X D s (SetNonce X D a n s)"
    unfolding SetNonce_def g Let_def prod.case
    by (rule w) (simp_all add: steps_obj_SetNonce obj_writes_revisions)
  show "steps X D s (SetCode X D a c s)"
    unfolding SetCode_def g Let_def prod.case
    by (rule w) (simp_all add: steps_obj_SetCode obj_writes_revisions)
qed

lemma steps_SetState:
  assumes inj: "addr_hash_inj X" and set: "SetState X D a k v s = Done s'"
  shows "steps X D s s'"
proof -
  obtain so s1 where g: "GetOrNewStateObject X D a s = (so, s1)" by fastforce
  with set have o: "obj_SetState X D k v so s1 = Done s'" by (simp add: SetState_def)
  then have "validRevisions s' = validRevisions s1 \<and> nextRevisionId s' = nextRevisionId s1"
    by (auto simp: obj_SetState_def and_then_iffs split: option.splits)
  with o steps_obj_SetState show ?thesis by (intro steps_with_new [OF inj g]) blast+
qed

lemma steps_Suicide: "steps X D s (snd (Suicide X D a s))"
proof (cases "live X D s a")
  case None
  then show ?thesis by (simp add: Suicide_def getStateObject_eq steps_cached)
next
  case (Some so)
  let ?e = "suicideChange a (suicided so) (acc_Balance (so_data so))"
  let ?new = "obj_setBalance 0 (obj_markSuicided so)"
  let ?s = "setStateObject ?new (append_entry ?e (cached X D a s))"
  note l = live_SomeD [OF Some]
  have "wf X D ?s \<and> logged X D s ?s" if w: "wf X D s"
  proof
    have wo: "wf_obj X a so" using l wf_lookup [OF w] by blast
    then have a: "so_address so = a" by (rule wf_obj_address)
    have wn: "wf_obj X a ?new" using wo by (simp add: obj_markSuicided_def)
    then show "wf X D ?s" using a
      by (intro wf_setStateObject wf_append_entry wf_cached w) (simp_all add: obj_markSuicided_def)
    have lk: "lookup X D ?s a = Some ?new" using a by (simp add: lookup_def obj_markSuicided_def)
    then have lv: "live X D ?s a = Some ?new" using l by (simp add: live_def obj_markSuicided_def)
    have undo: "obj_setBalance (acc_Balance (so_data so)) (?new\<lparr>suicided := suicided so\<rparr>) = so"
      by (simp add: obj_setBalance_def obj_markSuicided_def)
    have u: "revert_entry X D ?e ?s = Done (setStateObject so (cached X D a ?s))"
      using lv undo by (simp add: getStateObject_eq)
    have "sim X D s (setStateObject so (cached X D a ?s))"
      using l a lk by (intro sim_replace [of X D s a so so])
        (simp_all add: same_fields_def GetLogs_def obj_markSuicided_def)
    with u show "logged X D s ?s" by (intro logged_entry [of _ _ ?e]) simp_all
  qed
  then show ?thesis using Some by (simp add: Suicide_def getStateObject_eq steps_def)
qed

lemma steps_plain:
  assumes "stateObjects t = stateObjects s" "stateObjectsDirty t = stateObjectsDirty s"
    "sd_snap t = sd_snap s" "sd_trie t = sd_trie s"
    "validRevisions t = validRevisions s" "nextRevisionId t = nextRevisionId s"
    and e: "entries (journal t) = entries (journal s) @ [e]" "wf_entry X e"
    and u: "revert_entry X D e t = Done u" "same_fields s u" "stateObjects u = stateObjects s"
  shows "steps X D s t"
proof -
  have "wf X D t" if "wf X D s"
    using that assms wf_source_cong [of s t X D] by (auto simp: wf_def)
  moreover have "logged X D s t"
    using u sim_sameobjects [OF u(2,3)] by (intro logged_entry [OF e(1)]) auto
  ultimately show ?thesis using assms by (simp add: steps_def)
qed

lemma steps_AddRefund: "steps X D s (AddRefund n s)"
  by (rule steps_plain [where e = "refundChange (refund s)" and u = "(AddRefund n s)\<lparr>refund := refund s\<rparr>"])
    (simp_all add: AddRefund_def Let_def same_fields_def GetLogs_def)

lemma steps_SubRefund: "SubRefund n s = Done s' \<Longrightarrow> steps X D s s'"
  by (rule steps_plain [where e = "refundChange (refund s)" and u = "s'\<lparr>refund := refund s\<rparr>"])
    (auto simp: SubRefund_def Let_def same_fields_def GetLogs_def split: if_splits)

lemma steps_AddPreimage: "steps X D s (AddPreimage h p s)"
proof (cases "preimages s h")
  case None
  then show ?thesis
    by (intro steps_plain [where e = "addPreimageChange h" and u = "(AddPreimage h p s)\<lparr>preimages := preimages s\<rparr>"])
      (auto simp: AddPreimage_def Let_def same_fields_def GetLogs_def fun_upd_idem)
qed (simp add: AddPreimage_def)

lemma steps_AddLog: "steps X D s (AddLog l s)"
proof -
  let ?t = "AddLog l s"
  obtain l1 where t: "?t = (append_entry (addLogChange (thash s)) s)
      \<lparr>logs := (logs s)(thash s \<mapsto> GetLogs (thash s) s @ [l1]), logSize := logSize s + 1\<rparr>"
    by (simp add: AddLog_def Let_def)
  have gl: "GetLogs (thash s) ?t = GetLogs (thash s) s @ [l1]" unfolding t by (simp add: GetLogs_def)
  show ?thesis
  proof (rule steps_plain [where e = "addLogChange (thash s)"])
    let ?u = "?t\<lparr>logs := (logs ?t)(thash s := (if GetLogs (thash s) s = [] then None else Some (GetLogs (thash s) s))),
        logSize := logSize ?t - 1\<rparr>"
    show "revert_entry X D (addLogChange (thash s)) ?t = Done ?u" by (simp add: gl)
    show "same_fields s ?u" unfolding t by (simp add: same_fields_def GetLogs_def)
    show "stateObjects ?u = stateObjects s" unfolding t by simp
  qed (simp_all add: t)
qed

section \<open>Revisions\<close>

lemma sort_Search_from_least:
  assumes "\<And>k l. i \<le> k \<Longrightarrow> k \<le> l \<Longrightarrow> l < j \<Longrightarrow> f k \<Longrightarrow> f l" "i \<le> p" "p \<le> j"
    and "\<And>k. i \<le> k \<Longrightarrow> k < p \<Longrightarrow> \<not> f k" "p < j \<Longrightarrow> f p"
  shows "sort_Search_from i j f = p"
  using assms
proof (induction i j f rule: sort_Search_from.induct)
  case (1 i j f)
  show ?case
  proof (cases "i < j")
    case False
    with "1.prems"(2,3) show ?thesis by (simp add: sort_Search_from.simps)
  next
    case True
    define h where h_def: "h = (i + j) div 2"
    have h: "i \<le> h" "h < j" using True unfolding h_def by linarith+
    show ?thesis
    proof (cases "f h")
      case fh: True
      have ph: "p \<le> h" using "1.prems"(4) [of h] fh h(1) by (meson not_le)
      have "sort_Search_from i h f = p"
      proof (rule "1.IH"(2) [OF True h_def])
        show "f l" if "i \<le> k" "k \<le> l" "l < h" "f k" for k l
          using "1.prems"(1) [of k l] that h(2) by linarith
        show "\<not> f k" if "i \<le> k" "k < p" for k using "1.prems"(4) that by blast
        show "f p" if "p < h" using "1.prems"(5) that h(2) by linarith
      qed (use fh ph "1.prems"(2) in simp_all)
      with True fh show ?thesis by (simp add: sort_Search_from.simps [of i j] h_def [symmetric])
    next
      case fh: False
      have ph: "h + 1 \<le> p"
      proof (rule ccontr)
        assume "\<not> h + 1 \<le> p"
        then have "f h" using "1.prems"(1) [of p h] "1.prems"(2,5) h by linarith
        with fh show False by simp
      qed
      have "sort_Search_from (h + 1) j f = p"
      proof (rule "1.IH"(1) [OF True h_def fh])
        show "f l" if "h + 1 \<le> k" "k \<le> l" "l < j" "f k" for k l
          using "1.prems"(1) [of k l] that h(1) by linarith
        show "\<not> f k" if "h + 1 \<le> k" "k < p" for k using "1.prems"(4) [of k] that h(1) by linarith
      qed (use ph "1.prems"(3,5) in simp_all)
      with True fh show ?thesis by (simp add: sort_Search_from.simps [of i j] h_def [symmetric] Let_def)
    qed
  qed
qed

lemma sort_Search_sorted:
  assumes "sorted_wrt (<) (map fst xs)" "p < length xs"
  shows "sort_Search (length xs) (\<lambda>i. (fst (xs ! i) :: nat) \<ge> fst (xs ! p)) = p"
proof -
  have lt: "fst (xs ! k) < fst (xs ! l)" if "k < l" "l < length xs" for k l
    using assms(1) that by (simp add: sorted_wrt_iff_nth_less)
  show ?thesis unfolding sort_Search_def
  proof (rule sort_Search_from_least)
    show "fst (xs ! p) \<le> fst (xs ! l)" if "k \<le> l" "l < length xs" "fst (xs ! p) \<le> fst (xs ! k)" for k l
      using that lt [of k l] by (cases "k = l") auto
    show "\<not> fst (xs ! p) \<le> fst (xs ! k)" if "k < p" for k
      using lt [OF that assms(2)] by simp
  qed (use assms(2) in auto)
qed

definition revs_ok :: "'t StateDB \<Rightarrow> bool" where
  "revs_ok s \<longleftrightarrow>
     sorted_wrt (<) (map fst (validRevisions s)) \<and> sorted (map snd (validRevisions s)) \<and>
     (\<forall>(i, j) \<in> set (validRevisions s). i < nextRevisionId s \<and> j \<le> length (entries (journal s)))"

text \<open>\<open>extends s0 s\<close>: the state reached from \<open>s0\<close> by operations that revert at most to
  snapshots taken after \<open>s0\<close>.\<close>

definition extends :: "ext \<Rightarrow> 't Database \<Rightarrow> 't StateDB \<Rightarrow> 't StateDB \<Rightarrow> bool" where
  "extends X D s0 s \<longleftrightarrow>
     wf X D s \<and> revs_ok s0 \<and> revs_ok s \<and> logged X D s0 s \<and> nextRevisionId s0 \<le> nextRevisionId s \<and>
     (\<exists>more. validRevisions s = validRevisions s0 @ more \<and>
        (\<forall>(i, j) \<in> set more. nextRevisionId s0 \<le> i \<and> length (entries (journal s0)) \<le> j))"

lemma extends_refl: "wf X D s \<Longrightarrow> revs_ok s \<Longrightarrow> extends X D s s"
  by (simp add: extends_def)

lemma logged_entries: "logged X D s0 s \<Longrightarrow> \<exists>new. entries (journal s) = entries (journal s0) @ new"
  by (auto simp: logged_def)

lemma extends_steps:
  assumes inj: "addr_hash_inj X" and e: "extends X D s0 s" and st: "steps X D s s'"
  shows "extends X D s0 s'"
proof -
  have w: "wf X D s" "wf X D s'" "logged X D s s'" using e st by (auto simp: extends_def steps_def)
  then have "logged X D s0 s'" using logged_trans [OF inj w(1)] e by (auto simp: extends_def)
  moreover obtain new where "entries (journal s') = entries (journal s) @ new"
    using logged_entries [OF w(3)] by blast
  ultimately show ?thesis using e st w by (auto simp: extends_def steps_def revs_ok_def)
qed

lemma Snapshot_op_fields:
  "same_fields s (snd (Snapshot_op s))" "stateObjects (snd (Snapshot_op s)) = stateObjects s"
  "journal (snd (Snapshot_op s)) = journal s"
  "validRevisions (snd (Snapshot_op s)) =
     validRevisions s @ [(nextRevisionId s, length (entries (journal s)))]"
  "nextRevisionId (snd (Snapshot_op s)) = nextRevisionId s + 1" "fst (Snapshot_op s) = nextRevisionId s"
  by (simp_all add: Snapshot_op_def same_fields_def GetLogs_def journal_length_def)

lemma wf_Snapshot: "wf X D s \<Longrightarrow> wf X D (snd (Snapshot_op s))"
  by (simp add: Snapshot_op_def wf_update)

lemma revs_ok_Snapshot: "revs_ok s \<Longrightarrow> revs_ok (snd (Snapshot_op s))"
  by (auto simp: revs_ok_def Snapshot_op_fields sorted_wrt_append sorted_append)

lemma logged_Snapshot: "logged X D s (snd (Snapshot_op s))"
  by (intro logged_sim sim_sameobjects) (simp_all add: Snapshot_op_fields)

lemma extends_Snapshot:
  assumes inj: "addr_hash_inj X" and e: "extends X D s0 s"
  shows "extends X D s0 (snd (Snapshot_op s))"
proof -
  have "logged X D s0 (snd (Snapshot_op s))"
    using logged_trans [OF inj _ _ logged_Snapshot] e by (auto simp: extends_def)
  moreover obtain new where "entries (journal s) = entries (journal s0) @ new"
    using e logged_entries [of X D s0 s] by (auto simp: extends_def)
  ultimately show ?thesis
    using e by (auto simp: extends_def wf_Snapshot revs_ok_Snapshot Snapshot_op_fields)
qed

lemma logged_prefix:
  assumes "wf X D s" "entries (journal s) = es @ new" "revert_entries X D (rev new) s = Done u" "i \<le> length new"
  obtains v where "revert_entries X D (rev (drop i new)) s = Done v" "wf X D v"
    "revert_entries X D (rev (take i new)) v = Done u"
proof -
  have "rev new = rev (drop i new) @ rev (take i new)"
    by (metis append_take_drop_id rev_append)
  with assms(3) obtain v where v: "revert_entries X D (rev (drop i new)) s = Done v"
    "revert_entries X D (rev (take i new)) v = Done u" by (auto simp: revert_entries_append and_then_iffs)
  have "\<forall>e \<in> set (rev (drop i new)). wf_entry X e"
    using assms(1,2) by (auto simp: wf_def dest: in_set_dropD)
  with v assms(1) revert_entries_wf that show thesis by blast
qed

text \<open>Reverting the journal to a length between those of \<open>s0\<close> and \<open>s\<close>.\<close>

lemma journal_revert_logged:
  assumes inj: "addr_hash_inj X" and w: "wf X D s" and l: "logged X D s0 s"
    and j: "length (entries (journal s0)) \<le> j" "j \<le> length (entries (journal s))"
  obtains v where "journal_revert X D j s = Done v" "wf X D v" "logged X D s0 v"
    "entries (journal v) = take j (entries (journal s))"
    "validRevisions v = validRevisions s" "nextRevisionId v = nextRevisionId s"
proof -
  let ?n = "length (entries (journal s0))"
  from l obtain new u where new: "entries (journal s) = entries (journal s0) @ new"
    "revert_entries X D (rev new) s = Done u" "sim X D s0 u" by (auto simp: logged_def)
  have dj: "drop j (entries (journal s)) = drop (j - ?n) new" using new(1) j(1) by simp
  have ij: "j - ?n \<le> length new" using new(1) j by simp
  obtain v where v: "revert_entries X D (rev (drop (j - ?n) new)) s = Done v" "wf X D v"
    "revert_entries X D (rev (take (j - ?n) new)) v = Done u"
    by (rule logged_prefix [OF w new(1,2) ij])
  note keep = revert_entries_keeps [OF v(1)]
  let ?v = "v\<lparr>journal := (journal v)\<lparr>entries := take j (entries (journal v))\<rparr>\<rparr>"
  have jr: "journal_revert X D j s = Done ?v" by (simp add: journal_revert_def dj v(1))
  have wv: "wf X D ?v" by (rule wf_cong [OF v(2)]) (auto dest: in_set_takeD)
  have "sim X D v ?v" using sim_journal [OF sim_refl [of X D v], of "journal v"] by simp
  moreover have "\<forall>e \<in> set (rev (take (j - ?n) new)). wf_entry X e"
    using w new(1) by (auto simp: wf_def dest: in_set_takeD)
  ultimately obtain u' where u': "revert_entries X D (rev (take (j - ?n) new)) ?v = Done u'" "sim X D u u'"
    using revert_entries_sim [OF inj v(2) _ _ v(3)] by blast
  have "take j (entries (journal v)) = entries (journal s0) @ take (j - ?n) new"
    using keep new(1) j(1) by simp
  then have "logged X D s0 ?v"
    using u' new(3) sim_trans unfolding logged_def by (intro exI [of _ "take (j - ?n) new"]) auto
  with jr wv keep that show thesis by auto
qed

lemma RevertToSnapshot_at:
  assumes "revs_ok s" "p < length (validRevisions s)" "validRevisions s ! p = (i, j)"
  shows "RevertToSnapshot X D i s =
    and_then (journal_revert X D j s) (\<lambda>s1. Done (s1\<lparr>validRevisions := take p (validRevisions s1)\<rparr>))"
proof -
  have "sort_Search (length (validRevisions s)) (\<lambda>k. fst (validRevisions s ! k) \<ge> i) = p"
    using assms sort_Search_sorted [of "validRevisions s" p] by (simp add: revs_ok_def)
  with assms show ?thesis by (simp add: RevertToSnapshot_def Let_def)
qed

lemma RevertToSnapshot_Done:
  assumes "RevertToSnapshot X D i s = Done s'"
  obtains p j where "p < length (validRevisions s)" "validRevisions s ! p = (i, j)"
proof -
  let ?p = "sort_Search (length (validRevisions s)) (\<lambda>k. fst (validRevisions s ! k) \<ge> i)"
  have le: "sort_Search_from a b f \<le> b" if "a \<le> b" for a b f
    using that
  proof (induction a b f rule: sort_Search_from.induct)
    case (1 a b f)
    define h where h_def: "h = (a + b) div 2"
    show ?case
    proof (cases "a < b")
      case True
      then have h: "a \<le> h" "h < b" unfolding h_def by linarith+
      show ?thesis
      proof (cases "f h")
        case fh: True
        then have "sort_Search_from a h f \<le> h" using "1.IH"(2) [OF True h_def] h by simp
        with True fh h show ?thesis by (simp add: sort_Search_from.simps [of a b] h_def [symmetric])
      next
        case fh: False
        then have "sort_Search_from (h + 1) b f \<le> b" using "1.IH"(1) [OF True h_def fh] h by simp
        with True fh show ?thesis by (simp add: sort_Search_from.simps [of a b] h_def [symmetric] Let_def)
      qed
    qed (use "1.prems" in \<open>simp add: sort_Search_from.simps\<close>)
  qed
  have "?p \<le> length (validRevisions s)" unfolding sort_Search_def by (rule le) simp
  moreover have "?p \<noteq> length (validRevisions s)" "fst (validRevisions s ! ?p) = i"
    using assms by (auto simp: RevertToSnapshot_def Let_def split: if_splits)
  ultimately show thesis using that [of ?p "snd (validRevisions s ! ?p)"] by (auto simp: prod_eq_iff)
qed

lemma revs_ok_take:
  assumes "revs_ok s" "validRevisions t = take p (validRevisions s)" "nextRevisionId t = nextRevisionId s"
    and "\<forall>(i, j) \<in> set (take p (validRevisions s)). j \<le> length (entries (journal t))"
  shows "revs_ok t"
  using assms
  by (auto simp: revs_ok_def sorted_wrt_take simp flip: take_map dest: in_set_takeD)

lemma sorted_snd_take:
  assumes "sorted (map snd xs)" "p < length xs" "x \<in> set (take p xs)"
  shows "snd x \<le> snd (xs ! p)"
proof -
  from assms(3) obtain k where "k < p" "x = xs ! k" by (auto simp: in_set_conv_nth)
  with assms(1,2) show ?thesis by (auto simp: sorted_iff_nth_mono)
qed

lemma extends_revert:
  assumes inj: "addr_hash_inj X" and e: "extends X D s0 s" and i: "nextRevisionId s0 \<le> i"
    and idx: "p < length (validRevisions s)" "validRevisions s ! p = (i, j)"
  obtains s' where "RevertToSnapshot X D i s = Done s'" "extends X D s0 s'"
    "entries (journal s') = take j (entries (journal s))"
    "validRevisions s' = take p (validRevisions s)"
proof -
  from e obtain more where more: "validRevisions s = validRevisions s0 @ more"
    "\<forall>(i, j) \<in> set more. nextRevisionId s0 \<le> i \<and> length (entries (journal s0)) \<le> j"
    and ok: "revs_ok s0" "revs_ok s" and w: "wf X D s" and l: "logged X D s0 s"
    and nid: "nextRevisionId s0 \<le> nextRevisionId s" by (auto simp: extends_def)
  have p: "length (validRevisions s0) \<le> p"
  proof (rule ccontr)
    assume "\<not> length (validRevisions s0) \<le> p"
    then have "(i, j) \<in> set (validRevisions s0)" using idx(2) more(1) by (metis not_le nth_append nth_mem)
    with ok(1) i show False by (auto simp: revs_ok_def)
  qed
  have "p - length (validRevisions s0) < length more" using idx(1) more(1) p by simp
  then have "(i, j) \<in> set more" using idx(2) more(1) p by (metis not_le nth_append nth_mem)
  then have j: "length (entries (journal s0)) \<le> j" using more(2) by auto
  have j': "j \<le> length (entries (journal s))"
    using ok(2) nth_mem [OF idx(1)] idx(2) by (auto simp: revs_ok_def)
  obtain v where v: "journal_revert X D j s = Done v" "wf X D v" "logged X D s0 v"
    "entries (journal v) = take j (entries (journal s))"
    "validRevisions v = validRevisions s" "nextRevisionId v = nextRevisionId s"
    by (rule journal_revert_logged [OF inj w l j j'])
  let ?v = "v\<lparr>validRevisions := take p (validRevisions v)\<rparr>"
  have r: "RevertToSnapshot X D i s = Done ?v"
    using RevertToSnapshot_at [OF ok(2) idx] v(1) by simp
  have "revs_ok ?v"
  proof (rule revs_ok_take [OF ok(2)])
    show "\<forall>(i, j) \<in> set (take p (validRevisions s)). j \<le> length (entries (journal ?v))"
      using sorted_snd_take [OF _ idx(1)] ok(2) idx(2) j' by (auto simp: v(4) revs_ok_def)
  qed (simp_all add: v)
  moreover have "wf X D ?v" using v(2) by (rule wf_update)
  moreover have "logged X D s0 ?v"
  proof -
    have "sim X D v ?v" by (rule sim_sameobjects) (simp_all add: same_fields_def GetLogs_def)
    then show ?thesis using logged_trans [OF inj v(2,3) logged_sim] by simp
  qed
  moreover have "take p (validRevisions s) = validRevisions s0 @ take (p - length (validRevisions s0)) more"
    using more(1) p by simp
  ultimately have "extends X D s0 ?v"
    using ok(1) nid more(2) by (auto simp: extends_def v dest: in_set_takeD)
  with r v that show thesis by simp
qed

text \<open>A snapshot undone: after any operations that revert at most to later snapshots.\<close>

lemma revert_restores:
  assumes inj: "addr_hash_inj X" and w: "wf X D s0" and ok: "revs_ok s0"
    and snap: "Snapshot_op s0 = (i, s1)" and e: "extends X D s1 s"
  obtains s' where "RevertToSnapshot X D i s = Done s'" "sim X D s0 s'" "wf X D s'" "revs_ok s'"
    "entries (journal s') = entries (journal s0)" "validRevisions s' = validRevisions s0"
    "extends X D s0 s'"
proof -
  let ?n = "length (validRevisions s0)" and ?j = "length (entries (journal s0))"
  have s1: "s1 = snd (Snapshot_op s0)" "i = nextRevisionId s0" using snap Snapshot_op_fields(6) [of s0] by auto
  have e0: "extends X D s0 s"
  proof -
    have s01: "extends X D s0 s1" unfolding s1 by (rule extends_Snapshot [OF inj extends_refl [OF w ok]])
    then have "logged X D s0 s" using e logged_trans [OF inj] by (auto simp: extends_def)
    with s01 e show ?thesis by (fastforce simp: extends_def s1 Snapshot_op_fields)
  qed
  obtain more where more: "validRevisions s = (validRevisions s0 @ [(i, ?j)]) @ more"
    using e by (auto simp: extends_def s1 Snapshot_op_fields)
  have idx: "?n < length (validRevisions s)" "validRevisions s ! ?n = (i, ?j)"
    by (simp_all add: more nth_append)
  obtain s' where s': "RevertToSnapshot X D i s = Done s'" "extends X D s0 s'"
    "entries (journal s') = take ?j (entries (journal s))" "validRevisions s' = take ?n (validRevisions s)"
    using extends_revert [OF inj e0 _ idx] s1(2) by auto
  have es: "entries (journal s') = entries (journal s0)"
    using s'(3) e0 logged_entries [of X D s0 s] by (auto simp: extends_def)
  have "sim X D s0 s'" using s'(2) es by (auto simp: extends_def logged_def)
  moreover have "validRevisions s' = validRevisions s0" using s'(4) more by simp
  ultimately show thesis using that s'(1,2) es by (auto simp: extends_def)
qed

end
