(* ===== verification/State_Spec.thy ===== *)
theory State_Spec
  imports State_Revert "HOL-Library.Multiset"
begin

text \<open>
  What the state promises its users: sequences of the operations of the \<open>vm.StateDB\<close> interface,
  the revert theorem over them, the observations that \<open>sim\<close> fixes, the bookkeeping of the
  journal's dirty counts, and \<open>Finalise\<close>.
\<close>

section \<open>Sequences of operations\<close>

datatype state_op =
    OpCreateAccount address
  | OpAddBalance address int
  | OpSubBalance address int
  | OpSetBalance address int
  | OpSetNonce address u64
  | OpSetCode address "bytes option"
  | OpSetState address hash hash
  | OpSuicide address
  | OpAddLog Log
  | OpAddPreimage hash bytes
  | OpAddRefund u64
  | OpSubRefund u64
  | OpExist address
  | OpEmpty address
  | OpGetBalance address
  | OpGetNonce address
  | OpGetCodeHash address
  | OpHasSuicided address
  | OpGetCode address
  | OpGetCodeSize address
  | OpGetState address hash
  | OpGetCommittedState address hash
  | OpSnapshot
  | OpRevertToSnapshot nat

fun run_op :: "ext \<Rightarrow> 't Database \<Rightarrow> state_op \<Rightarrow> 't StateDB \<Rightarrow> 't StateDB outcome" where
  "run_op X D (OpCreateAccount a) s = Done (CreateAccount X D a s)"
| "run_op X D (OpAddBalance a b) s = Done (AddBalance X D a b s)"
| "run_op X D (OpSubBalance a b) s = Done (SubBalance X D a b s)"
| "run_op X D (OpSetBalance a b) s = Done (SetBalance X D a b s)"
| "run_op X D (OpSetNonce a n) s = Done (SetNonce X D a n s)"
| "run_op X D (OpSetCode a c) s = Done (SetCode X D a c s)"
| "run_op X D (OpSetState a k v) s = SetState X D a k v s"
| "run_op X D (OpSuicide a) s = Done (snd (Suicide X D a s))"
| "run_op X D (OpAddLog l) s = Done (AddLog l s)"
| "run_op X D (OpAddPreimage h p) s = Done (AddPreimage h p s)"
| "run_op X D (OpAddRefund n) s = Done (AddRefund n s)"
| "run_op X D (OpSubRefund n) s = SubRefund n s"
| "run_op X D (OpExist a) s = Done (snd (Exist X D a s))"
| "run_op X D (OpEmpty a) s = Done (snd (Empty X D a s))"
| "run_op X D (OpGetBalance a) s = Done (snd (GetBalance X D a s))"
| "run_op X D (OpGetNonce a) s = Done (snd (GetNonce X D a s))"
| "run_op X D (OpGetCodeHash a) s = Done (snd (GetCodeHash X D a s))"
| "run_op X D (OpHasSuicided a) s = Done (snd (HasSuicided X D a s))"
| "run_op X D (OpGetCode a) s = Done (snd (GetCode X D a s))"
| "run_op X D (OpGetCodeSize a) s = Done (snd (GetCodeSize X D a s))"
| "run_op X D (OpGetState a k) s = and_then (GetState X D a k s) (\<lambda>(_, s1). Done s1)"
| "run_op X D (OpGetCommittedState a k) s = and_then (GetCommittedState X D a k s) (\<lambda>(_, s1). Done s1)"
| "run_op X D OpSnapshot s = Done (snd (Snapshot_op s))"
| "run_op X D (OpRevertToSnapshot i) s = RevertToSnapshot X D i s"

primrec run_ops :: "ext \<Rightarrow> 't Database \<Rightarrow> state_op list \<Rightarrow> 't StateDB \<Rightarrow> 't StateDB outcome" where
  "run_ops X D [] s = Done s"
| "run_ops X D (op # ops) s = and_then (run_op X D op s) (run_ops X D ops)"

lemmas steps_ops = steps_CreateAccount steps_setters steps_Suicide steps_AddLog steps_AddPreimage
  steps_AddRefund steps_getters steps_GetCode steps_GetCodeSize

lemma run_op_steps:
  assumes inj: "addr_hash_inj X" and r: "run_op X D op s = Done s'"
    and op: "op \<noteq> OpSnapshot" "\<And>j. op \<noteq> OpRevertToSnapshot j"
  shows "steps X D s s'"
proof (cases op)
  case (OpSetState a k v)
  with r show ?thesis using steps_SetState [OF inj, of D a k v s s'] by simp
next
  case (OpSubRefund n)
  with r show ?thesis using steps_SubRefund [of n s s' X D] by simp
next
  case (OpGetState a k)
  with r obtain v where "GetState X D a k s = Done (v, s')" by (auto simp: and_then_iffs)
  then show ?thesis by (rule steps_GetState)
next
  case (OpGetCommittedState a k)
  with r obtain v where "GetCommittedState X D a k s = Done (v, s')" by (auto simp: and_then_iffs)
  then show ?thesis by (rule steps_GetCommittedState)
qed (use r op in \<open>auto intro: steps_ops inj\<close>)

lemma run_op_extends:
  assumes inj: "addr_hash_inj X" and e: "extends X D s0 s" and r: "run_op X D op s = Done s'"
    and k: "\<And>j. op = OpRevertToSnapshot j \<Longrightarrow> nextRevisionId s0 \<le> j"
  shows "extends X D s0 s'"
proof -
  consider "op = OpSnapshot" | i where "op = OpRevertToSnapshot i"
    | "op \<noteq> OpSnapshot" "\<And>j. op \<noteq> OpRevertToSnapshot j" by blast
  then show ?thesis
  proof cases
    case 1
    with r extends_Snapshot [OF inj e] show ?thesis by simp
  next
    case (2 i)
    with r have rv: "RevertToSnapshot X D i s = Done s'" by simp
    then obtain p j where p: "p < length (validRevisions s)" "validRevisions s ! p = (i, j)"
      by (rule RevertToSnapshot_Done)
    obtain s'' where "RevertToSnapshot X D i s = Done s''" "extends X D s0 s''"
      by (rule extends_revert [OF inj e k [OF 2] p])
    with rv show ?thesis by simp
  next
    case 3
    from extends_steps [OF inj e run_op_steps [OF inj r 3]] show ?thesis .
  qed
qed

lemma run_ops_extends:
  "addr_hash_inj X \<Longrightarrow> extends X D s0 s \<Longrightarrow> run_ops X D ops s = Done s' \<Longrightarrow>
   \<forall>j. OpRevertToSnapshot j \<in> set ops \<longrightarrow> nextRevisionId s0 \<le> j \<Longrightarrow> extends X D s0 s'"
proof (induction ops arbitrary: s)
  case (Cons op ops)
  then obtain s1 where "run_op X D op s = Done s1" "run_ops X D ops s1 = Done s'"
    by (auto simp: and_then_iffs)
  with Cons show ?case using run_op_extends [of X D s0 s op s1] by auto
qed simp

section \<open>Observations\<close>

lemma sim_observed:
  assumes "sim X D s t"
  shows "fst (Exist X D a s) = fst (Exist X D a t)" "fst (Empty X D a s) = fst (Empty X D a t)"
    "fst (GetBalance X D a s) = fst (GetBalance X D a t)" "fst (GetNonce X D a s) = fst (GetNonce X D a t)"
    "fst (GetCodeHash X D a s) = fst (GetCodeHash X D a t)"
    "fst (HasSuicided X D a s) = fst (HasSuicided X D a t)" "fst (GetCode X D a s) = fst (GetCode X D a t)"
    "and_then (GetState X D a k s) (\<lambda>(v, _). Done v) = and_then (GetState X D a k t) (\<lambda>(v, _). Done v)"
    "and_then (GetCommittedState X D a k s) (\<lambda>(v, _). Done v) =
       and_then (GetCommittedState X D a k t) (\<lambda>(v, _). Done v)"
proof -
  have live: "rel_option (obj_sim X D s) (live X D s a) (live X D t a)" by (rule sim_live [OF assms])
  have st: "and_then (GetState X D a k u) (\<lambda>(v, _). Done v) =
      (case live X D u a of None \<Rightarrow> Done 0 | Some so \<Rightarrow> state_view X D u so k)" for u
    by (auto simp: GetState_def getStateObject_eq views_cached state_view_def and_then_assoc
        case_prod_unfold split: option.split)
  have co: "and_then (GetCommittedState X D a k u) (\<lambda>(v, _). Done v) =
      (case live X D u a of None \<Rightarrow> Done 0 | Some so \<Rightarrow> committed_view X D u so k)" for u
    by (auto simp: GetCommittedState_def getStateObject_eq views_cached committed_view_def and_then_assoc
        case_prod_unfold split: option.split)
  have code: "fst (GetCode X D a u) = (case live X D u a of None \<Rightarrow> None | Some so \<Rightarrow> code_view X D so)" for u
    by (auto simp: GetCode_def getStateObject_eq code_view_def case_prod_unfold Let_def split: option.split)
  have vw: "state_view X D t so k = state_view X D s so k" "committed_view X D t so k = committed_view X D s so k"
    for so using committed_view_cong [of s t so X D k] same_fields_snap [OF sim_same_fields [OF assms]] by simp_all
  show "fst (Exist X D a s) = fst (Exist X D a t)" "fst (Empty X D a s) = fst (Empty X D a t)"
    "fst (GetBalance X D a s) = fst (GetBalance X D a t)" "fst (GetNonce X D a s) = fst (GetNonce X D a t)"
    "fst (GetCodeHash X D a s) = fst (GetCodeHash X D a t)"
    "fst (HasSuicided X D a s) = fst (HasSuicided X D a t)" "fst (GetCode X D a s) = fst (GetCode X D a t)"
    using live unfolding code
    by (cases "live X D s a"; cases "live X D t a";
        simp add: Exist_def Empty_def GetBalance_def GetNonce_def GetCodeHash_def HasSuicided_def
          getStateObject_eq obj_sim_def obj_empty_def)+
  show "and_then (GetState X D a k s) (\<lambda>(v, _). Done v) = and_then (GetState X D a k t) (\<lambda>(v, _). Done v)"
    using live unfolding st by (cases "live X D s a"; cases "live X D t a") (auto simp: obj_sim_def vw)
  show "and_then (GetCommittedState X D a k s) (\<lambda>(v, _). Done v) =
      and_then (GetCommittedState X D a k t) (\<lambda>(v, _). Done v)"
    using live unfolding co by (cases "live X D s a"; cases "live X D t a") (auto simp: obj_sim_def vw)
qed

section \<open>Dirty counts\<close>

text \<open>The journal counts, for every address, the entries that dirtied it. Only \<open>ripemd\<close> can have
  a larger count: it is counted twice when it is touched, and once when the touch is reverted.\<close>

definition dirty_entries :: "'t journalEntry list \<Rightarrow> address \<Rightarrow> int" where
  "dirty_entries es a = int (length (filter (\<lambda>e. dirtied e = Some a) es))"

definition counts :: "'t journalEntry list \<Rightarrow> (address \<rightharpoonup> int) \<Rightarrow> bool" where
  "counts es d \<longleftrightarrow>
     (\<forall>a. (a \<noteq> ripemd \<longrightarrow> d a = (if dirty_entries es a = 0 then None else Some (dirty_entries es a))) \<and>
          dirty_entries es a \<le> map_count d a \<and> (\<forall>n. d a = Some n \<longrightarrow> 0 < n))"

definition journal_ok :: "'t StateDB \<Rightarrow> bool" where
  "journal_ok s \<longleftrightarrow> counts (entries (journal s)) (dirties (journal s))"

lemma dirty_entries_append [simp]: "dirty_entries (es @ fs) a = dirty_entries es a + dirty_entries fs a"
  by (simp add: dirty_entries_def)

lemma dirty_entries_single: "dirty_entries [e] a = (if dirtied e = Some a then 1 else 0)"
  by (simp add: dirty_entries_def)

lemma dirty_entries_nonneg: "0 \<le> dirty_entries es a"
  by (simp add: dirty_entries_def)

lemma counts_append:
  assumes "counts es d"
  shows "counts (es @ [e]) (case dirtied e of None \<Rightarrow> d | Some a \<Rightarrow> d(a \<mapsto> map_count d a + 1))"
proof (cases "dirtied e")
  case None
  with assms show ?thesis by (simp add: counts_def dirty_entries_single)
next
  case (Some b)
  have "(a \<noteq> ripemd \<longrightarrow> (d(b \<mapsto> map_count d b + 1)) a =
      (if dirty_entries (es @ [e]) a = 0 then None else Some (dirty_entries (es @ [e]) a))) \<and>
    dirty_entries (es @ [e]) a \<le> map_count (d(b \<mapsto> map_count d b + 1)) a \<and>
    (\<forall>n. (d(b \<mapsto> map_count d b + 1)) a = Some n \<longrightarrow> 0 < n)" for a
    using assms Some dirty_entries_nonneg [of es a]
    by (auto simp: counts_def dirty_entries_single map_count_def split: option.splits dest!: spec [of _ a])
  with Some show ?thesis by (simp add: counts_def)
qed

lemma counts_ripemd:
  assumes "counts es d"
  shows "counts es (d(ripemd \<mapsto> map_count d ripemd + 1))" (is "counts es ?d")
  unfolding counts_def
proof
  fix a
  have le: "dirty_entries es ripemd \<le> map_count d ripemd" using assms by (simp add: counts_def)
  then have "0 \<le> map_count d ripemd" using dirty_entries_nonneg [of es ripemd] by linarith
  with le have "dirty_entries es ripemd \<le> map_count ?d ripemd \<and> (\<forall>n. ?d ripemd = Some n \<longrightarrow> 0 < n)"
    by (simp add: map_count_def)
  moreover have "map_count ?d a = map_count d a" "?d a = d a" if "a \<noteq> ripemd"
    using that by (simp_all add: map_count_def)
  moreover note assms [unfolded counts_def, rule_format, of a]
  ultimately show "(a \<noteq> ripemd \<longrightarrow> ?d a = (if dirty_entries es a = 0 then None else Some (dirty_entries es a))) \<and>
      dirty_entries es a \<le> map_count ?d a \<and> (\<forall>n. ?d a = Some n \<longrightarrow> 0 < n)"
    by (cases "a = ripemd") simp_all
qed

lemma counts_undo:
  assumes "counts (es @ [e]) (dirties j)"
  shows "counts es (dirties (journal_undirty e j))"
proof (cases "dirtied e")
  case None
  with assms show ?thesis by (simp add: counts_def dirty_entries_single journal_undirty_def)
next
  case (Some b)
  let ?d = "dirties j" and ?d' = "dirties (journal_undirty e j)"
  let ?n = "map_count ?d b - 1"
  have d': "?d' = (if ?n = 0 then ?d(b := None) else ?d(b \<mapsto> ?n))"
    using Some by (simp add: journal_undirty_def Let_def)
  show ?thesis unfolding counts_def
  proof
    fix a
    note c = assms [unfolded counts_def, rule_format, of a]
    show "(a \<noteq> ripemd \<longrightarrow> ?d' a = (if dirty_entries es a = 0 then None else Some (dirty_entries es a))) \<and>
      dirty_entries es a \<le> map_count ?d' a \<and> (\<forall>n. ?d' a = Some n \<longrightarrow> 0 < n)"
    proof (cases "a = b")
      case False
      then have "?d' a = ?d a" "map_count ?d' a = map_count ?d a" "dirty_entries (es @ [e]) a = dirty_entries es a"
        using Some by (simp_all add: d' map_count_def dirty_entries_single)
      with c show ?thesis by simp
    next
      case True
      have c1: "dirty_entries (es @ [e]) a = dirty_entries es a + 1"
        using Some True by (simp add: dirty_entries_single)
      have n: "a \<noteq> ripemd \<Longrightarrow> ?n = dirty_entries es a" "dirty_entries es a \<le> ?n"
        using c True dirty_entries_nonneg [of es a] unfolding c1 by (auto simp: map_count_def)
      have "?d' a = (if ?n = 0 then None else Some ?n)" "map_count ?d' a = ?n"
        using True by (simp_all add: d' map_count_def)
      with n dirty_entries_nonneg [of es a] show ?thesis by (cases "a = ripemd") auto
    qed
  qed
qed

lemma journal_ok_append_entry: "journal_ok s \<Longrightarrow> journal_ok (append_entry e s)"
  unfolding journal_ok_def append_entry_fields using counts_append [of "entries (journal s)" "dirties (journal s)" e]
  by (auto simp: append_entry_def journal_append_def journal_dirty_def Let_def split: option.splits)

lemma journal_ok_simps [simp]:
  "journal_ok (setStateObject so s) = journal_ok s" "journal_ok (cached X D a s) = journal_ok s"
  "journal_ok (s\<lparr>refund := r\<rparr>) = journal_ok s" "journal_ok (s\<lparr>logs := l, logSize := n\<rparr>) = journal_ok s"
  "journal_ok (s\<lparr>preimages := p\<rparr>) = journal_ok s" "journal_ok (s\<lparr>snapDestructs := S\<rparr>) = journal_ok s"
  "journal_ok (snd (Snapshot_op s)) = journal_ok s"
  by (simp_all add: journal_ok_def Snapshot_op_def)

lemma journal_ok_touch: "journal_ok s \<Longrightarrow> journal_ok (obj_touch so s)"
  using journal_ok_append_entry [of s "touchChange (so_address so)"] counts_ripemd
  by (auto simp: obj_touch_def Let_def journal_ok_def journal_dirty_def)

lemma journal_ok_createObject: "journal_ok s \<Longrightarrow> journal_ok (snd (snd (createObject X D a s)))"
  by (cases "lookup X D s a") (simp_all add: createObject_None createObject_Some journal_ok_append_entry)

lemma journal_ok_GetOrNew: "journal_ok s \<Longrightarrow> GetOrNewStateObject X D a s = (so, s1) \<Longrightarrow> journal_ok s1"
  using journal_ok_createObject [of "cached X D a s" X D a]
  by (auto simp: GetOrNewStateObject_def getStateObject_eq split: option.splits prod.splits)

lemma journal_ok_obj:
  assumes "journal_ok s"
  shows "journal_ok (obj_SetBalance b so s)" "journal_ok (obj_SetNonce n so s)"
    "journal_ok (obj_SetCode X D h c so s)" "journal_ok (obj_AddBalance X b so s)"
    "journal_ok (obj_SubBalance b so s)" "obj_SetState X D k v so s = Done s' \<Longrightarrow> journal_ok s'"
  using assms
  by (auto simp: obj_SetBalance_def obj_SetNonce_def obj_SetCode_def obj_AddBalance_def obj_SubBalance_def
      obj_SetState_def journal_ok_append_entry journal_ok_touch case_prod_unfold Let_def and_then_iffs
      split: option.splits if_splits)

lemma journal_ok_CreateAccount: "journal_ok s \<Longrightarrow> journal_ok (CreateAccount X D a s)"
  using journal_ok_createObject [of s X D a]
  by (auto simp: CreateAccount_def split: prod.split option.split)

lemma revert_entries_counts:
  assumes "revert_entries X D (rev new) s = Done u" "counts (es @ new) (dirties (journal s))"
  shows "counts es (dirties (journal u))"
  using assms
proof (induction new arbitrary: s rule: rev_induct)
  case (snoc e new)
  then obtain s1 where s1: "revert_entry X D e s = Done s1"
    "revert_entries X D (rev new) (s1\<lparr>journal := journal_undirty e (journal s1)\<rparr>) = Done u"
    by (auto simp: and_then_iffs)
  have "counts (es @ new) (dirties (journal_undirty e (journal s)))"
    using snoc.prems(2) by (intro counts_undo) simp
  with revert_entry_entries [OF s1(1)] show ?case by (intro snoc.IH [OF s1(2)]) simp
qed simp

lemma journal_ok_RevertToSnapshot:
  assumes "journal_ok s" "RevertToSnapshot X D i s = Done s'"
  shows "journal_ok s'"
proof -
  from assms(2) obtain n u where u: "revert_entries X D (rev (drop n (entries (journal s)))) s = Done u"
    and j: "journal s' = (journal u)\<lparr>entries := take n (entries (journal u))\<rparr>"
    by (auto simp: RevertToSnapshot_def journal_revert_def Let_def and_then_iffs split: if_splits)
  have "counts (take n (entries (journal s))) (dirties (journal u))"
    using revert_entries_counts [OF u] assms(1) by (simp add: journal_ok_def)
  with j revert_entries_keeps [OF u] show ?thesis by (simp add: journal_ok_def)
qed

lemma journal_ok_ops:
  assumes "journal_ok s"
  shows "journal_ok (AddBalance X D a b s)" "journal_ok (SubBalance X D a b s)"
    "journal_ok (SetBalance X D a b s)" "journal_ok (SetNonce X D a n s)" "journal_ok (SetCode X D a c s)"
    "journal_ok (snd (Suicide X D a s))" "journal_ok (AddLog l s)" "journal_ok (AddPreimage h p s)"
    "journal_ok (AddRefund g s)"
    "journal_ok (snd (Exist X D a s))" "journal_ok (snd (Empty X D a s))" "journal_ok (snd (GetBalance X D a s))"
    "journal_ok (snd (GetNonce X D a s))" "journal_ok (snd (GetCodeHash X D a s))"
    "journal_ok (snd (HasSuicided X D a s))" "journal_ok (snd (GetCode X D a s))"
    "journal_ok (snd (GetCodeSize X D a s))"
proof -
  have new: "journal_ok (snd (GetOrNewStateObject X D a s))"
    by (rule journal_ok_GetOrNew [OF assms prod.collapse [symmetric]])
  show "journal_ok (AddBalance X D a b s)" "journal_ok (SubBalance X D a b s)"
    "journal_ok (SetBalance X D a b s)" "journal_ok (SetNonce X D a n s)" "journal_ok (SetCode X D a c s)"
    by (simp_all add: AddBalance_def SubBalance_def SetBalance_def SetNonce_def SetCode_def
        case_prod_unfold Let_def journal_ok_obj new)
  show "journal_ok (snd (Suicide X D a s))"
    using assms journal_ok_append_entry [of "cached X D a s"]
    by (simp add: Suicide_def getStateObject_eq split: option.split)
  show "journal_ok (AddLog l s)" "journal_ok (AddPreimage h p s)" "journal_ok (AddRefund g s)"
    using assms journal_ok_append_entry [of s]
    by (simp_all add: AddLog_def AddPreimage_def AddRefund_def Let_def split: option.split)
qed (use assms in \<open>simp_all add: Exist_def Empty_def GetBalance_def GetNonce_def GetCodeHash_def HasSuicided_def
    GetCode_def GetCodeSize_def getStateObject_eq case_prod_unfold Let_def split: option.split\<close>)

lemma journal_ok_partial:
  assumes "journal_ok s"
  shows "SetState X D a k v s = Done s' \<Longrightarrow> journal_ok s'" "SubRefund g s = Done s' \<Longrightarrow> journal_ok s'"
    "GetState X D a k s = Done (x, s') \<Longrightarrow> journal_ok s'"
    "GetCommittedState X D a k s = Done (x, s') \<Longrightarrow> journal_ok s'"
proof -
  have new: "journal_ok (snd (GetOrNewStateObject X D a s))"
    by (rule journal_ok_GetOrNew [OF assms prod.collapse [symmetric]])
  show "journal_ok s'" if "SetState X D a k v s = Done s'"
    using that journal_ok_obj(6) [OF new] by (simp add: SetState_def case_prod_unfold Let_def)
  show "journal_ok s'" if "SubRefund g s = Done s'"
    using that assms journal_ok_append_entry [of s] by (auto simp: SubRefund_def Let_def split: if_splits)
  show "journal_ok s'" if "GetState X D a k s = Done (x, s')"
    using that assms by (auto simp: GetState_def getStateObject_eq and_then_iffs split: option.splits)
  show "journal_ok s'" if "GetCommittedState X D a k s = Done (x, s')"
    using that assms by (auto simp: GetCommittedState_def getStateObject_eq and_then_iffs split: option.splits)
qed

lemma journal_ok_run_op:
  "journal_ok s \<Longrightarrow> run_op X D op s = Done s' \<Longrightarrow> journal_ok s'"
  by (cases op)
    (auto simp: journal_ok_ops journal_ok_CreateAccount and_then_iffs
      dest: journal_ok_partial journal_ok_RevertToSnapshot)

section \<open>Finalise\<close>

definition finalised :: "ext \<Rightarrow> bool \<Rightarrow> 't stateObject \<Rightarrow> 't stateObject" where
  "finalised X d so =
     (if suicided so \<or> (d \<and> obj_empty X so) then so\<lparr>deleted := True\<rparr> else obj_finalise so)"

definition killed :: "ext \<Rightarrow> bool \<Rightarrow> 't StateDB \<Rightarrow> 't stateObject \<Rightarrow> bool" where
  "killed X d s so \<longleftrightarrow> (suicided so \<or> (d \<and> obj_empty X so)) \<and> sd_snap s \<noteq> None"

lemma finalise_addr_Some:
  "stateObjects s a = Some so \<Longrightarrow> finalise_addr X d a s =
     s\<lparr>stateObjects := (stateObjects s)(a \<mapsto> finalised X d so),
       snapDestructs := (if killed X d s so then insert (addrHash so) (snapDestructs s) else snapDestructs s),
       snapAccounts := (if killed X d s so then (snapAccounts s)(addrHash so := None) else snapAccounts s),
       snapStorage := (if killed X d s so then (snapStorage s)(addrHash so := None) else snapStorage s),
       stateObjectsPending := insert a (stateObjectsPending s),
       stateObjectsDirty := insert a (stateObjectsDirty s)\<rparr>"
  by (simp add: finalise_addr_def finalised_def killed_def Let_def)

lemma finalise_addr_None: "stateObjects s a = None \<Longrightarrow> finalise_addr X d a s = s"
  by (simp add: finalise_addr_def)

lemma finalise_addr_other: "a \<noteq> b \<Longrightarrow> stateObjects (finalise_addr X d b s) a = stateObjects s a"
  by (simp add: finalise_addr_def Let_def split: option.split)

lemma map_None_twist: "m(a := None, b := None) = m(b := None, a := None)"
  by (cases "a = b") (simp_all add: fun_upd_twist)

lemma finalise_addr_commute:
  "finalise_addr X d a (finalise_addr X d b s) = finalise_addr X d b (finalise_addr X d a s)"
proof (cases "a = b \<or> stateObjects s a = None \<or> stateObjects s b = None")
  case True
  then show ?thesis
    by (cases "a = b") (auto simp: finalise_addr_None finalise_addr_other)
next
  case False
  then obtain so1 so2 where so: "stateObjects s a = Some so1" "stateObjects s b = Some so2" and ab: "a \<noteq> b"
    by auto
  have k: "killed X d (s\<lparr>stateObjects := o', snapDestructs := x, snapAccounts := y, snapStorage := z,
      stateObjectsPending := p, stateObjectsDirty := q\<rparr>) so = killed X d s so" for o' x y z p q so
    by (simp add: killed_def)
  have sa: "finalise_addr X d a s = s\<lparr>stateObjects := (stateObjects s)(a \<mapsto> finalised X d so1),
       snapDestructs := (if killed X d s so1 then insert (addrHash so1) (snapDestructs s) else snapDestructs s),
       snapAccounts := (if killed X d s so1 then (snapAccounts s)(addrHash so1 := None) else snapAccounts s),
       snapStorage := (if killed X d s so1 then (snapStorage s)(addrHash so1 := None) else snapStorage s),
       stateObjectsPending := insert a (stateObjectsPending s),
       stateObjectsDirty := insert a (stateObjectsDirty s)\<rparr>" (is "_ = ?sa")
    using so(1) by (rule finalise_addr_Some)
  have sb: "finalise_addr X d b s = s\<lparr>stateObjects := (stateObjects s)(b \<mapsto> finalised X d so2),
       snapDestructs := (if killed X d s so2 then insert (addrHash so2) (snapDestructs s) else snapDestructs s),
       snapAccounts := (if killed X d s so2 then (snapAccounts s)(addrHash so2 := None) else snapAccounts s),
       snapStorage := (if killed X d s so2 then (snapStorage s)(addrHash so2 := None) else snapStorage s),
       stateObjectsPending := insert b (stateObjectsPending s),
       stateObjectsDirty := insert b (stateObjectsDirty s)\<rparr>" (is "_ = ?sb")
    using so(2) by (rule finalise_addr_Some)
  have "stateObjects ?sa b = Some so2" "stateObjects ?sb a = Some so1" using so ab by simp_all
  then show ?thesis
    unfolding sa sb
    by (simp add: finalise_addr_Some k insert_commute fun_upd_twist [OF ab] map_None_twist [of _ "addrHash so1"])
qed

lemma fold_finalise_order:
  "mset xs = mset ys \<Longrightarrow> fold (finalise_addr X b) xs s = fold (finalise_addr X b) ys s"
  by (rule fun_cong [of _ _ s], rule fold_multiset_equiv) (auto simp: fun_eq_iff finalise_addr_commute)

lemma committed_view_finalise:
  assumes "fakeStorage so = None"
  shows "committed_view X D s (obj_finalise so) k = state_view X D s so k"
proof -
  have "fst (getTrie D (obj_finalise so)) = fst (getTrie D so)"
    by (rule getTrie_fst_cong) (simp_all add: obj_finalise_def)
  then show ?thesis using assms
    unfolding committed_view_slots state_view_eq
    by (auto simp: obj_finalise_def map_add_def split: option.split)
qed

lemma fold_finalise_objects:
  "distinct xs \<Longrightarrow> stateObjects (fold (finalise_addr X d) xs s) a =
     (if a \<in> set xs then map_option (finalised X d) (stateObjects s a) else stateObjects s a)"
proof (induction xs arbitrary: s)
  case (Cons b xs)
  have "stateObjects (finalise_addr X d b s) b = map_option (finalised X d) (stateObjects s b)"
    by (simp add: finalise_addr_def finalised_def Let_def split: option.split)
  with Cons finalise_addr_other [of a b X d s] show ?case by (cases "a = b") auto
qed simp

lemma fold_finalise_fields:
  "sd_snap (fold (finalise_addr X d) xs s) = sd_snap s \<and> sd_trie (fold (finalise_addr X d) xs s) = sd_trie s"
proof (induction xs arbitrary: s)
  case (Cons b xs)
  have "sd_snap (finalise_addr X d b s) = sd_snap s \<and> sd_trie (finalise_addr X d b s) = sd_trie s"
    by (simp add: finalise_addr_def Let_def split: option.split)
  with Cons show ?case by simp
qed simp

lemma fold_finalise_destructs:
  assumes "distinct xs" "h \<in> snapDestructs (fold (finalise_addr X d) xs s)" "h \<notin> snapDestructs s"
  shows "\<exists>b so. b \<in> set xs \<and> stateObjects s b = Some so \<and> killed X d s so \<and> h = addrHash so"
  using assms
proof (induction xs arbitrary: s)
  case (Cons b xs)
  let ?s = "finalise_addr X d b s"
  show ?case
  proof (cases "h \<in> snapDestructs ?s")
    case True
    with Cons.prems(3) show ?thesis
      by (cases "stateObjects s b") (auto simp: finalise_addr_None finalise_addr_Some split: if_splits)
  next
    case False
    have "\<exists>c so. c \<in> set xs \<and> stateObjects ?s c = Some so \<and> killed X d ?s so \<and> h = addrHash so"
      using Cons.prems False by (intro Cons.IH) auto
    then obtain c so where c: "c \<in> set xs" "stateObjects ?s c = Some so" "killed X d ?s so" "h = addrHash so"
      by blast
    have "sd_snap ?s = sd_snap s" using fold_finalise_fields [of X d "[b]" s] by simp
    moreover have "stateObjects s c = Some so"
    proof -
      have "c \<noteq> b" using c(1) Cons.prems(1) by auto
      with c(2) finalise_addr_other [of c b X d s] show ?thesis by simp
    qed
    ultimately have "c \<in> set (b # xs)" "stateObjects s c = Some so" "killed X d s so"
      using c by (simp_all add: killed_def)
    with c(4) show ?thesis by blast
  qed
qed simp

lemma snapDestructs_mono: "snapDestructs s \<subseteq> snapDestructs (fold (finalise_addr X d) xs s)"
proof (induction xs arbitrary: s)
  case (Cons b xs)
  have "snapDestructs s \<subseteq> snapDestructs (finalise_addr X d b s)"
    by (cases "stateObjects s b") (auto simp: finalise_addr_None finalise_addr_Some)
  with Cons [of "finalise_addr X d b s"] show ?case by auto
qed simp

lemma clearJournal_fields:
  "stateObjects (clearJournalAndRefund s) = stateObjects s" "sd_snap (clearJournalAndRefund s) = sd_snap s"
  "snapDestructs (clearJournalAndRefund s) = snapDestructs s" "sd_trie (clearJournalAndRefund s) = sd_trie s"
  by (simp_all add: clearJournalAndRefund_def Let_def)

lemma Finalise_commits:
  assumes inj: "addr_hash_inj X" and w: "wf X D s" and order: "distinct order" "a \<in> set order"
    and so: "stateObjects s a = Some so" "\<not> deleted so" "\<not> (suicided so \<or> (d \<and> obj_empty X so))"
  shows "and_then (GetCommittedState X D a k (Finalise X d order s)) (\<lambda>(v, _). Done v) =
    and_then (GetState X D a k s) (\<lambda>(v, _). Done v)"
proof -
  let ?f = "fold (finalise_addr X d) order s" and ?t = "Finalise X d order s"
  have wo: "wf_obj X a so" using w so(1) by (auto simp: wf_def)
  have obj: "stateObjects ?t a = Some (obj_finalise so)"
    using fold_finalise_objects [OF order(1), of X d s a] order(2) so
    by (simp add: Finalise_def clearJournal_fields finalised_def)
  have snap: "sd_snap ?t = sd_snap s"
    using fold_finalise_fields [of X d order s] by (simp add: Finalise_def clearJournal_fields)
  have "addrHash so \<in> snapDestructs ?f \<longleftrightarrow> addrHash so \<in> snapDestructs s"
  proof
    assume h: "addrHash so \<in> snapDestructs ?f"
    show "addrHash so \<in> snapDestructs s"
    proof (rule ccontr)
      assume "addrHash so \<notin> snapDestructs s"
      from fold_finalise_destructs [OF order(1) h this] obtain b so' where
        b: "stateObjects s b = Some so'" "killed X d s so'" "addrHash so = addrHash so'" by blast
      then have "wf_obj X b so'" using w by (auto simp: wf_def)
      with wo b(3) inj have "b = a" by (auto simp: wf_obj_def addr_hash_inj_def inj_def)
      with b so show False by (simp add: killed_def)
    qed
  next
    show "addrHash so \<in> snapDestructs s \<Longrightarrow> addrHash so \<in> snapDestructs ?f"
      using snapDestructs_mono by blast
  qed
  then have "addrHash so \<in> snapDestructs ?t \<longleftrightarrow> addrHash so \<in> snapDestructs s"
    by (simp add: Finalise_def clearJournal_fields)
  then have "state_view X D ?t so k = state_view X D s so k"
    using committed_view_cong(2) [OF snap] by blast
  moreover have "committed_view X D ?t (obj_finalise so) k = state_view X D ?t so k"
    using wo by (intro committed_view_finalise) (simp add: wf_obj_def)
  moreover have "live X D ?t a = Some (obj_finalise so)" "live X D s a = Some so"
    using obj so by (simp_all add: live_def lookup_def obj_finalise_def)
  ultimately show ?thesis
    by (simp add: GetCommittedState_def GetState_def getStateObject_eq views_cached committed_view_def
        state_view_def and_then_assoc case_prod_unfold)
qed

section \<open>A concrete state\<close>

text \<open>A database with no account and no code, over which the witnesses below run.\<close>

definition null_db :: "unit Database" where
  "null_db =
     \<lparr> OpenTrie = (\<lambda>_. Inr ()), OpenStorageTrie = (\<lambda>_ _. Inr ()),
       ContractCode = (\<lambda>_ _. (None, None)), ContractCodeSize = (\<lambda>_ _. (0, None)),
       TryGet = (\<lambda>_ _. Inr []), TryUpdate = (\<lambda>t _ _. (t, None)), TryDelete = (\<lambda>t _. (t, None)),
       trie_Hash = (\<lambda>_. emptyRoot), DecodeAccount = (\<lambda>_. Inl []) \<rparr>"

definition null_state :: "unit StateDB" where
  "null_state = projr (New null_db 0 None)"

lemma New_null: "New null_db 0 None = Inr null_state"
  by (simp add: null_state_def New_def null_db_def)

lemma New_fields:
  assumes "New D root snaps = Inr s"
  shows "stateObjects s = Map.empty" "stateObjectsDirty s = {}" "journal s = newJournal"
    "validRevisions s = []" "nextRevisionId s = 0" "refund s = 0"
  using assms by (auto simp: New_def split: sum.splits)

lemma null_state_ok: "wf X null_db null_state" "revs_ok null_state" "nextRevisionId null_state = 0"
proof -
  note f = New_fields [OF New_null]
  have "snd (read_account X null_db null_state a) = None" for a
    by (simp add: read_account_def trie_account_def null_db_def null_state_def New_def)
  then show "wf X null_db null_state"
    by (simp add: wf_def wf_source_def f newJournal_def)
  show "revs_ok null_state" by (simp add: revs_ok_def f)
  show "nextRevisionId null_state = 0" by (rule f)
qed

lemma addr_hash_inj_word: "addr_hash_inj word_ext"
  unfolding addr_hash_inj_def
proof (rule injI)
  fix a b
  assume "keccak256 word_ext (Address_Bytes a) = keccak256 word_ext (Address_Bytes b)"
  then have e: "(of_nat (be_nat (Address_Bytes a)) :: hash) = of_nat (be_nat (Address_Bytes b))"
    by (simp add: word_ext_def)
  have lt: "be_nat (Address_Bytes c) < 2 ^ 256" for c :: address
  proof -
    have "be_nat (Address_Bytes c) < 256 ^ 20" using be_nat_less [of "Address_Bytes c"] by simp
    then show ?thesis by (simp add: le_less_trans)
  qed
  have "be_nat (Address_Bytes a) = be_nat (Address_Bytes b)"
    using arg_cong [OF e, of unat] lt [of a] lt [of b] by (simp add: unsigned_of_nat take_bit_nat_eq_self)
  then have "Address_Bytes a = Address_Bytes b" by (intro be_nat_inj) simp_all
  then show "a = b" by (metis BytesToAddress_Address_Bytes)
qed

section \<open>Properties\<close>

text \<open>C1. Reverting to a snapshot undoes every operation since it was taken: after any sequence of
  operations of the state interface that reverts at most to later snapshots,
  \<open>RevertToSnapshot\<close> does not panic, and it leads to a state that no getter tells from the one
  the snapshot was taken in, with the same journal and the same valid revisions.\<close>

theorem RevertToSnapshot_undoes:
  assumes "addr_hash_inj X" "wf X D s0" "revs_ok s0" "Snapshot_op s0 = (i, s1)"
    and "run_ops X D ops s1 = Done s" "\<forall>j. OpRevertToSnapshot j \<in> set ops \<longrightarrow> i < j"
  shows "\<exists>s'. RevertToSnapshot X D i s = Done s' \<and> sim X D s0 s' \<and>
    entries (journal s') = entries (journal s0) \<and> validRevisions s' = validRevisions s0"
proof -
  have s1: "s1 = snd (Snapshot_op s0)" "nextRevisionId s1 = i + 1"
    using assms(4) Snapshot_op_fields(5,6) [of s0] by auto
  have "extends X D s1 s1"
    unfolding s1 by (intro extends_refl wf_Snapshot revs_ok_Snapshot assms)
  then have "extends X D s1 s"
    by (rule run_ops_extends [OF assms(1) _ assms(5)]) (use assms(6) s1(2) in auto)
  then show ?thesis using revert_restores [OF assms(1-4)] by metis
qed

theorem RevertToSnapshot_undoes_witness:
  "\<exists>s'. RevertToSnapshot word_ext null_db 0
       (SetCode word_ext null_db 7 (Some [1]) (SetNonce word_ext null_db 7 1
         (AddBalance word_ext null_db 7 5 (snd (Snapshot_op null_state))))) = Done s' \<and>
     sim word_ext null_db null_state s' \<and> entries (journal s') = entries (journal null_state) \<and>
     validRevisions s' = validRevisions null_state"
proof -
  have "Snapshot_op null_state = (0, snd (Snapshot_op null_state))"
    using null_state_ok(3) by (simp add: Snapshot_op_def)
  from RevertToSnapshot_undoes [OF addr_hash_inj_word null_state_ok(1,2) this,
      of "[OpAddBalance 7 5, OpSetNonce 7 1, OpSetCode 7 (Some [1])]"]
  show ?thesis by simp
qed





text \<open>C24. The order in which Go visits the dirty addresses does not matter: \<open>Finalise\<close> gives the
  same state for every order.\<close>

theorem Finalise_order:
  assumes "mset order = mset order'"
  shows "Finalise X d order s = Finalise X d order' s"
  by (simp add: Finalise_def fold_finalise_order [OF assms])

theorem Finalise_order_witness:
  "Finalise word_ext True [1, 2, 3] null_state = Finalise word_ext True [3, 1, 2] null_state"
  by (rule Finalise_order) simp

text \<open>C25. \<open>Finalise\<close> commits the storage of the transaction: for a dirty account that it keeps,
  every slot of the committed storage is afterwards what \<open>GetState\<close> returned before.\<close>

theorem Finalise_commits_storage:
  assumes "addr_hash_inj X" "wf X D s" "distinct order" "a \<in> set order"
    and "stateObjects s a = Some so" "\<not> deleted so" "\<not> (suicided so \<or> (d \<and> obj_empty X so))"
  shows "and_then (GetCommittedState X D a k (Finalise X d order s)) (\<lambda>(v, _). Done v) =
    and_then (GetState X D a k s) (\<lambda>(v, _). Done v)"
  by (rule Finalise_commits [OF assms])

theorem Finalise_commits_storage_witness:
  "and_then (GetCommittedState word_ext null_db 7 1
      (Finalise word_ext False [7] (snd (GetOrNewStateObject word_ext null_db 7 null_state)))) (\<lambda>(v, _). Done v) =
   and_then (GetState word_ext null_db 7 1 (snd (GetOrNewStateObject word_ext null_db 7 null_state)))
     (\<lambda>(v, _). Done v)"
proof -
  let ?g = "GetOrNewStateObject word_ext null_db 7 null_state"
  have g: "?g = (fst ?g, snd ?g)" by simp
  note spec = GetOrNew_spec [OF addr_hash_inj_word g]
  have l: "lookup word_ext null_db null_state 7 = None"
    using New_fields(1) [OF New_null]
    by (simp add: lookup_def load_object_def read_account_def trie_account_def null_db_def null_state_def New_def)
  have "fst ?g = new_account word_ext 7"
    using createObject_new(1) [of word_ext null_db 7 "cached word_ext null_db 7 null_state"] l
    by (simp add: GetOrNewStateObject_def getStateObject_eq live_def case_prod_unfold Let_def)
  then have "\<not> suicided (fst ?g)" by (simp add: new_account_def newObject_def)
  moreover have "wf word_ext null_db (snd ?g)" using spec(1) null_state_ok(1) by (simp add: steps_def)
  ultimately show ?thesis
    using Finalise_commits_storage [OF addr_hash_inj_word _ _ _ spec(2,3), where D = null_db and order = "[7]" and d = False and k = 1] by simp
qed

end
