(* ===== verification/Vm_Opcodes.thy ===== *)
theory Vm_Opcodes
  imports Prelude
begin

text \<open>
  The opcodes of \<open>core/vm/opcodes.go\<close>: one abbreviation per constant, with the value its
  \<open>iota\<close> expression gives it.
\<close>

abbreviation (input) STOP :: u8 where "STOP \<equiv> 0x00"
abbreviation (input) ADD :: u8 where "ADD \<equiv> 0x01"
abbreviation (input) MUL :: u8 where "MUL \<equiv> 0x02"
abbreviation (input) SUB :: u8 where "SUB \<equiv> 0x03"
abbreviation (input) DIV :: u8 where "DIV \<equiv> 0x04"
abbreviation (input) SDIV :: u8 where "SDIV \<equiv> 0x05"
abbreviation (input) MOD :: u8 where "MOD \<equiv> 0x06"
abbreviation (input) SMOD :: u8 where "SMOD \<equiv> 0x07"
abbreviation (input) ADDMOD :: u8 where "ADDMOD \<equiv> 0x08"
abbreviation (input) MULMOD :: u8 where "MULMOD \<equiv> 0x09"
abbreviation (input) EXP :: u8 where "EXP \<equiv> 0x0a"
abbreviation (input) SIGNEXTEND :: u8 where "SIGNEXTEND \<equiv> 0x0b"
abbreviation (input) LT :: u8 where "LT \<equiv> 0x10"
abbreviation (input) GT :: u8 where "GT \<equiv> 0x11"
abbreviation (input) SLT :: u8 where "SLT \<equiv> 0x12"
abbreviation (input) SGT :: u8 where "SGT \<equiv> 0x13"
abbreviation (input) EQ :: u8 where "EQ \<equiv> 0x14"
abbreviation (input) ISZERO :: u8 where "ISZERO \<equiv> 0x15"
abbreviation (input) AND :: u8 where "AND \<equiv> 0x16"
abbreviation (input) OR :: u8 where "OR \<equiv> 0x17"
abbreviation (input) XOR :: u8 where "XOR \<equiv> 0x18"
abbreviation (input) NOT :: u8 where "NOT \<equiv> 0x19"
abbreviation (input) BYTE :: u8 where "BYTE \<equiv> 0x1a"
abbreviation (input) SHL :: u8 where "SHL \<equiv> 0x1b"
abbreviation (input) SHR :: u8 where "SHR \<equiv> 0x1c"
abbreviation (input) SAR :: u8 where "SAR \<equiv> 0x1d"
abbreviation (input) SHA3 :: u8 where "SHA3 \<equiv> 0x20"
abbreviation (input) ADDRESS :: u8 where "ADDRESS \<equiv> 0x30"
abbreviation (input) BALANCE :: u8 where "BALANCE \<equiv> 0x31"
abbreviation (input) ORIGIN :: u8 where "ORIGIN \<equiv> 0x32"
abbreviation (input) CALLER :: u8 where "CALLER \<equiv> 0x33"
abbreviation (input) CALLVALUE :: u8 where "CALLVALUE \<equiv> 0x34"
abbreviation (input) CALLDATALOAD :: u8 where "CALLDATALOAD \<equiv> 0x35"
abbreviation (input) CALLDATASIZE :: u8 where "CALLDATASIZE \<equiv> 0x36"
abbreviation (input) CALLDATACOPY :: u8 where "CALLDATACOPY \<equiv> 0x37"
abbreviation (input) CODESIZE :: u8 where "CODESIZE \<equiv> 0x38"
abbreviation (input) CODECOPY :: u8 where "CODECOPY \<equiv> 0x39"
abbreviation (input) GASPRICE :: u8 where "GASPRICE \<equiv> 0x3a"
abbreviation (input) EXTCODESIZE :: u8 where "EXTCODESIZE \<equiv> 0x3b"
abbreviation (input) EXTCODECOPY :: u8 where "EXTCODECOPY \<equiv> 0x3c"
abbreviation (input) RETURNDATASIZE :: u8 where "RETURNDATASIZE \<equiv> 0x3d"
abbreviation (input) RETURNDATACOPY :: u8 where "RETURNDATACOPY \<equiv> 0x3e"
abbreviation (input) EXTCODEHASH :: u8 where "EXTCODEHASH \<equiv> 0x3f"
abbreviation (input) BLOCKHASH :: u8 where "BLOCKHASH \<equiv> 0x40"
abbreviation (input) COINBASE :: u8 where "COINBASE \<equiv> 0x41"
abbreviation (input) TIMESTAMP :: u8 where "TIMESTAMP \<equiv> 0x42"
abbreviation (input) NUMBER :: u8 where "NUMBER \<equiv> 0x43"
abbreviation (input) DIFFICULTY :: u8 where "DIFFICULTY \<equiv> 0x44"
abbreviation (input) GASLIMIT :: u8 where "GASLIMIT \<equiv> 0x45"
abbreviation (input) CHAINID :: u8 where "CHAINID \<equiv> 0x46"
abbreviation (input) SELFBALANCE :: u8 where "SELFBALANCE \<equiv> 0x47"
abbreviation (input) POP :: u8 where "POP \<equiv> 0x50"
abbreviation (input) MLOAD :: u8 where "MLOAD \<equiv> 0x51"
abbreviation (input) MSTORE :: u8 where "MSTORE \<equiv> 0x52"
abbreviation (input) MSTORE8 :: u8 where "MSTORE8 \<equiv> 0x53"
abbreviation (input) SLOAD :: u8 where "SLOAD \<equiv> 0x54"
abbreviation (input) SSTORE :: u8 where "SSTORE \<equiv> 0x55"
abbreviation (input) JUMP :: u8 where "JUMP \<equiv> 0x56"
abbreviation (input) JUMPI :: u8 where "JUMPI \<equiv> 0x57"
abbreviation (input) PC :: u8 where "PC \<equiv> 0x58"
abbreviation (input) MSIZE :: u8 where "MSIZE \<equiv> 0x59"
abbreviation (input) GAS :: u8 where "GAS \<equiv> 0x5a"
abbreviation (input) JUMPDEST :: u8 where "JUMPDEST \<equiv> 0x5b"
abbreviation (input) BEGINSUB :: u8 where "BEGINSUB \<equiv> 0x5c"
abbreviation (input) RETURNSUB :: u8 where "RETURNSUB \<equiv> 0x5d"
abbreviation (input) JUMPSUB :: u8 where "JUMPSUB \<equiv> 0x5e"
abbreviation (input) PUSH1 :: u8 where "PUSH1 \<equiv> 0x60"
abbreviation (input) PUSH2 :: u8 where "PUSH2 \<equiv> 0x61"
abbreviation (input) PUSH3 :: u8 where "PUSH3 \<equiv> 0x62"
abbreviation (input) PUSH4 :: u8 where "PUSH4 \<equiv> 0x63"
abbreviation (input) PUSH5 :: u8 where "PUSH5 \<equiv> 0x64"
abbreviation (input) PUSH6 :: u8 where "PUSH6 \<equiv> 0x65"
abbreviation (input) PUSH7 :: u8 where "PUSH7 \<equiv> 0x66"
abbreviation (input) PUSH8 :: u8 where "PUSH8 \<equiv> 0x67"
abbreviation (input) PUSH9 :: u8 where "PUSH9 \<equiv> 0x68"
abbreviation (input) PUSH10 :: u8 where "PUSH10 \<equiv> 0x69"
abbreviation (input) PUSH11 :: u8 where "PUSH11 \<equiv> 0x6a"
abbreviation (input) PUSH12 :: u8 where "PUSH12 \<equiv> 0x6b"
abbreviation (input) PUSH13 :: u8 where "PUSH13 \<equiv> 0x6c"
abbreviation (input) PUSH14 :: u8 where "PUSH14 \<equiv> 0x6d"
abbreviation (input) PUSH15 :: u8 where "PUSH15 \<equiv> 0x6e"
abbreviation (input) PUSH16 :: u8 where "PUSH16 \<equiv> 0x6f"
abbreviation (input) PUSH17 :: u8 where "PUSH17 \<equiv> 0x70"
abbreviation (input) PUSH18 :: u8 where "PUSH18 \<equiv> 0x71"
abbreviation (input) PUSH19 :: u8 where "PUSH19 \<equiv> 0x72"
abbreviation (input) PUSH20 :: u8 where "PUSH20 \<equiv> 0x73"
abbreviation (input) PUSH21 :: u8 where "PUSH21 \<equiv> 0x74"
abbreviation (input) PUSH22 :: u8 where "PUSH22 \<equiv> 0x75"
abbreviation (input) PUSH23 :: u8 where "PUSH23 \<equiv> 0x76"
abbreviation (input) PUSH24 :: u8 where "PUSH24 \<equiv> 0x77"
abbreviation (input) PUSH25 :: u8 where "PUSH25 \<equiv> 0x78"
abbreviation (input) PUSH26 :: u8 where "PUSH26 \<equiv> 0x79"
abbreviation (input) PUSH27 :: u8 where "PUSH27 \<equiv> 0x7a"
abbreviation (input) PUSH28 :: u8 where "PUSH28 \<equiv> 0x7b"
abbreviation (input) PUSH29 :: u8 where "PUSH29 \<equiv> 0x7c"
abbreviation (input) PUSH30 :: u8 where "PUSH30 \<equiv> 0x7d"
abbreviation (input) PUSH31 :: u8 where "PUSH31 \<equiv> 0x7e"
abbreviation (input) PUSH32 :: u8 where "PUSH32 \<equiv> 0x7f"
abbreviation (input) DUP1 :: u8 where "DUP1 \<equiv> 0x80"
abbreviation (input) DUP2 :: u8 where "DUP2 \<equiv> 0x81"
abbreviation (input) DUP3 :: u8 where "DUP3 \<equiv> 0x82"
abbreviation (input) DUP4 :: u8 where "DUP4 \<equiv> 0x83"
abbreviation (input) DUP5 :: u8 where "DUP5 \<equiv> 0x84"
abbreviation (input) DUP6 :: u8 where "DUP6 \<equiv> 0x85"
abbreviation (input) DUP7 :: u8 where "DUP7 \<equiv> 0x86"
abbreviation (input) DUP8 :: u8 where "DUP8 \<equiv> 0x87"
abbreviation (input) DUP9 :: u8 where "DUP9 \<equiv> 0x88"
abbreviation (input) DUP10 :: u8 where "DUP10 \<equiv> 0x89"
abbreviation (input) DUP11 :: u8 where "DUP11 \<equiv> 0x8a"
abbreviation (input) DUP12 :: u8 where "DUP12 \<equiv> 0x8b"
abbreviation (input) DUP13 :: u8 where "DUP13 \<equiv> 0x8c"
abbreviation (input) DUP14 :: u8 where "DUP14 \<equiv> 0x8d"
abbreviation (input) DUP15 :: u8 where "DUP15 \<equiv> 0x8e"
abbreviation (input) DUP16 :: u8 where "DUP16 \<equiv> 0x8f"
abbreviation (input) SWAP1 :: u8 where "SWAP1 \<equiv> 0x90"
abbreviation (input) SWAP2 :: u8 where "SWAP2 \<equiv> 0x91"
abbreviation (input) SWAP3 :: u8 where "SWAP3 \<equiv> 0x92"
abbreviation (input) SWAP4 :: u8 where "SWAP4 \<equiv> 0x93"
abbreviation (input) SWAP5 :: u8 where "SWAP5 \<equiv> 0x94"
abbreviation (input) SWAP6 :: u8 where "SWAP6 \<equiv> 0x95"
abbreviation (input) SWAP7 :: u8 where "SWAP7 \<equiv> 0x96"
abbreviation (input) SWAP8 :: u8 where "SWAP8 \<equiv> 0x97"
abbreviation (input) SWAP9 :: u8 where "SWAP9 \<equiv> 0x98"
abbreviation (input) SWAP10 :: u8 where "SWAP10 \<equiv> 0x99"
abbreviation (input) SWAP11 :: u8 where "SWAP11 \<equiv> 0x9a"
abbreviation (input) SWAP12 :: u8 where "SWAP12 \<equiv> 0x9b"
abbreviation (input) SWAP13 :: u8 where "SWAP13 \<equiv> 0x9c"
abbreviation (input) SWAP14 :: u8 where "SWAP14 \<equiv> 0x9d"
abbreviation (input) SWAP15 :: u8 where "SWAP15 \<equiv> 0x9e"
abbreviation (input) SWAP16 :: u8 where "SWAP16 \<equiv> 0x9f"
abbreviation (input) LOG0 :: u8 where "LOG0 \<equiv> 0xa0"
abbreviation (input) LOG1 :: u8 where "LOG1 \<equiv> 0xa1"
abbreviation (input) LOG2 :: u8 where "LOG2 \<equiv> 0xa2"
abbreviation (input) LOG3 :: u8 where "LOG3 \<equiv> 0xa3"
abbreviation (input) LOG4 :: u8 where "LOG4 \<equiv> 0xa4"
abbreviation (input) PUSH :: u8 where "PUSH \<equiv> 0xb0"
abbreviation (input) DUP :: u8 where "DUP \<equiv> 0xb1"
abbreviation (input) SWAP :: u8 where "SWAP \<equiv> 0xb2"
abbreviation (input) CREATE :: u8 where "CREATE \<equiv> 0xf0"
abbreviation (input) CALL :: u8 where "CALL \<equiv> 0xf1"
abbreviation (input) CALLCODE :: u8 where "CALLCODE \<equiv> 0xf2"
abbreviation (input) RETURN :: u8 where "RETURN \<equiv> 0xf3"
abbreviation (input) DELEGATECALL :: u8 where "DELEGATECALL \<equiv> 0xf4"
abbreviation (input) CREATE2 :: u8 where "CREATE2 \<equiv> 0xf5"
abbreviation (input) STATICCALL :: u8 where "STATICCALL \<equiv> 0xfa"
abbreviation (input) REVERT :: u8 where "REVERT \<equiv> 0xfd"
abbreviation (input) SELFDESTRUCT :: u8 where "SELFDESTRUCT \<equiv> 0xff"

end
