(* ===== verification/Vm_Contract.thy ===== *)
theory Vm_Contract
  imports External Vm_Opcodes
begin

text \<open>
  \<open>core/vm/errors.go\<close>, \<open>core/vm/analysis.go\<close> and \<open>core/vm/contract.go\<close>: the errors of the
  virtual machine, the bitmap that tells the code positions of a program from its PUSH
  data, and the \<open>Contract\<close> a call runs in. Positions in the code are natural numbers (the
  length of a slice fits an \<open>int\<close>, so the \<open>uint64\<close> counters of \<open>codeBitmap\<close> never wrap).

  A \<open>Contract\<close> refers to its caller by pointer and reads three fields of it, which a
  \<open>ContractRef\<close> carries here. The map \<open>jumpdests\<close> is shared by all contracts of a call tree:
  a child starts with its parent's map, and the interpreter writes the child's map back.
\<close>

section \<open>errors.go\<close>

datatype evm_error =
    ErrInvalidSubroutineEntry
  | ErrOutOfGas
  | ErrCodeStoreOutOfGas
  | ErrDepth
  | ErrInsufficientBalance
  | ErrContractAddressCollision
  | ErrExecutionReverted
  | ErrMaxCodeSizeExceeded
  | ErrInvalidJump
  | ErrWriteProtection
  | ErrReturnDataOutOfBounds
  | ErrGasUintOverflow
  | ErrInvalidRetsub
  | ErrReturnStackExceeded
  | ErrStackUnderflow nat nat
  | ErrStackOverflow nat nat
  | ErrInvalidOpCode u8
  | ErrOther string

section \<open>analysis.go\<close>

type_synonym bitvec = bytes

definition bitvec_or :: "bitvec \<Rightarrow> nat \<Rightarrow> u8 \<Rightarrow> bitvec outcome" where
  "bitvec_or bits i v =
     (if i < length bits then Done (bits[i := or (bits ! i) v]) else Panicked BitvecIndex)"

definition bitvec_set :: "bitvec \<Rightarrow> nat \<Rightarrow> bitvec outcome" where
  "bitvec_set bits pos = bitvec_or bits (pos div 8) (drop_bit (pos mod 8) 0x80)"

definition bitvec_set8 :: "bitvec \<Rightarrow> nat \<Rightarrow> bitvec outcome" where
  "bitvec_set8 bits pos =
     and_then (bitvec_or bits (pos div 8) (drop_bit (pos mod 8) 0xFF)) (\<lambda>bits'.
       bitvec_or bits' (pos div 8 + 1) (not (drop_bit (pos mod 8) 0xFF)))"

definition codeSegment :: "bitvec \<Rightarrow> nat \<Rightarrow> bool outcome" where
  "codeSegment bits pos =
     (if pos div 8 < length bits
      then Done (and (bits ! (pos div 8)) (drop_bit (pos mod 8) 0x80) = 0)
      else Panicked BitvecIndex)"

text \<open>The two inner loops of \<open>codeBitmap\<close>: eight bits at a time, then one at a time.\<close>

function mark8 :: "nat \<Rightarrow> nat \<Rightarrow> bitvec \<Rightarrow> (nat \<times> nat \<times> bitvec) outcome" where
  "mark8 numbits pc bits =
     (if 8 \<le> numbits
      then and_then (bitvec_set8 bits pc) (\<lambda>bits'. mark8 (numbits - 8) (pc + 8) bits')
      else Done (numbits, pc, bits))"
  by pat_completeness auto
termination
  by (relation "measure (\<lambda>(n, _, _). n)") auto

fun mark1 :: "nat \<Rightarrow> nat \<Rightarrow> bitvec \<Rightarrow> (nat \<times> bitvec) outcome" where
  "mark1 0 pc bits = Done (pc, bits)"
| "mark1 (Suc numbits) pc bits =
     and_then (bitvec_set bits pc) (\<lambda>bits'. mark1 numbits (pc + 1) bits')"

declare mark8.simps [simp del]

lemma mark8_result:
  "mark8 n pc bits = Done (n', pc', bits') \<Longrightarrow> n' = n mod 8 \<and> pc' + n' = pc + n \<and> n' < 8"
proof (induction n pc bits rule: mark8.induct)
  case (1 n pc bits)
  show ?case
  proof (cases "8 \<le> n")
    case True
    with "1.prems" obtain b where "bitvec_set8 bits pc = Done b"
      and r: "mark8 (n - 8) (pc + 8) b = Done (n', pc', bits')"
      by (auto simp: mark8.simps [of n] and_then_iffs)
    with "1.IH" True have "n' = (n - 8) mod 8 \<and> pc' + n' = pc + 8 + (n - 8) \<and> n' < 8" by blast
    with True show ?thesis by (simp add: le_mod_geq)
  next
    case False
    with "1.prems" show ?thesis by (auto simp: mark8.simps [of n])
  qed
qed

lemma mark1_result: "mark1 n pc bits = Done (pc', bits') \<Longrightarrow> pc' = pc + n"
proof (induction n arbitrary: pc bits)
  case (Suc n)
  then obtain b where "mark1 n (pc + 1) b = Done (pc', bits')"
    by (auto simp: and_then_iffs)
  from Suc.IH [OF this] show ?case by simp
qed simp

function codeBitmap_from :: "bytes \<Rightarrow> nat \<Rightarrow> bitvec \<Rightarrow> bitvec outcome" where
  "codeBitmap_from code pc bits =
     (if pc < length code then
        (let op = code ! pc
         in if PUSH1 \<le> op \<and> op \<le> PUSH32 then
              and_then (mark8 (unat (op - PUSH1 + 1)) (pc + 1) bits) (\<lambda>(numbits, pc1, bits1).
                and_then (mark1 numbits pc1 bits1) (\<lambda>(pc2, bits2).
                  codeBitmap_from code pc2 bits2))
            else codeBitmap_from code (pc + 1) bits)
      else Done bits)"
  by pat_completeness auto
termination
  by (relation "measure (\<lambda>(code, pc, _). length code - pc)")
    (auto dest!: mark8_result mark1_result)

declare codeBitmap_from.simps [simp del]

definition codeBitmap :: "bytes \<Rightarrow> bitvec outcome" where
  "codeBitmap code = codeBitmap_from code 0 (replicate (length code div 8 + 1 + 4) 0)"

section \<open>contract.go\<close>

datatype ContractRef =
    AccountRef address
  | ContractPtr (ref_self: address) (ref_CallerAddress: address) (ref_value: "int option")
      (ref_jumpdests: "hash \<rightharpoonup> bitvec")

fun ref_Address :: "ContractRef \<Rightarrow> address" where
  "ref_Address (AccountRef a) = a"
| "ref_Address (ContractPtr a _ _ _) = a"

text \<open>\<open>c_value\<close> is the field \<open>value\<close>; \<open>None\<close> is the nil pointer \<open>DelegateCall\<close> passes before
  \<open>AsDelegate\<close> replaces it. \<open>analysis\<close> is \<open>None\<close> for a nil slice.\<close>

record Contract =
  CallerAddress :: address
  caller :: ContractRef
  self :: address
  jumpdests :: "hash \<rightharpoonup> bitvec"
  analysis :: "bitvec option"
  Code :: bytes
  CodeHash :: hash
  CodeAddr :: "address option"
  Input :: bytes
  Gas :: u64
  c_value :: "int option"

definition NewContract :: "ContractRef \<Rightarrow> address \<Rightarrow> int option \<Rightarrow> u64 \<Rightarrow> Contract" where
  "NewContract clr obj val gas =
     \<lparr> CallerAddress = ref_Address clr, caller = clr, self = obj,
       jumpdests = (case clr of ContractPtr _ _ _ jd \<Rightarrow> jd | AccountRef _ \<Rightarrow> Map.empty),
       analysis = None, Code = [], CodeHash = 0, CodeAddr = None, Input = [],
       Gas = gas, c_value = val \<rparr>"

definition isCode :: "Contract \<Rightarrow> nat \<Rightarrow> (bool \<times> Contract) outcome" where
  "isCode c udest =
     (case analysis c of
        Some a \<Rightarrow> and_then (codeSegment a udest) (\<lambda>r. Done (r, c))
      | None \<Rightarrow>
          if CodeHash c \<noteq> 0 then
            and_then
              (case jumpdests c (CodeHash c) of
                 Some a \<Rightarrow> Done (a, c)
               | None \<Rightarrow> and_then (codeBitmap (Code c)) (\<lambda>a.
                   Done (a, c\<lparr>jumpdests := (jumpdests c)(CodeHash c \<mapsto> a)\<rparr>)))
              (\<lambda>(a, c1). and_then (codeSegment a udest) (\<lambda>r. Done (r, c1\<lparr>analysis := Some a\<rparr>)))
          else
            and_then (codeBitmap (Code c)) (\<lambda>a.
              and_then (codeSegment a udest) (\<lambda>r. Done (r, c\<lparr>analysis := Some a\<rparr>))))"

definition validJumpdest :: "ext \<Rightarrow> u256 \<Rightarrow> Contract \<Rightarrow> (bool \<times> Contract) outcome" where
  "validJumpdest X dest c =
     (let (udest, overflow) = u_Uint64WithOverflow X dest
      in if overflow \<or> unat udest \<ge> length (Code c) then Done (False, c)
         else if Code c ! unat udest \<noteq> JUMPDEST then Done (False, c)
         else isCode c (unat udest))"

definition validJumpSubdest :: "u64 \<Rightarrow> Contract \<Rightarrow> (bool \<times> Contract) outcome" where
  "validJumpSubdest udest c =
     (if sint udest < 0 \<or> unat udest \<ge> length (Code c) then Done (False, c)
      else if Code c ! unat udest \<noteq> BEGINSUB then Done (False, c)
      else isCode c (unat udest))"

definition AsDelegate :: "Contract \<Rightarrow> Contract outcome" where
  "AsDelegate c =
     (case caller c of
        ContractPtr _ pcaller pvalue _ \<Rightarrow>
          Done (c\<lparr>CallerAddress := pcaller, c_value := pvalue\<rparr>)
      | AccountRef _ \<Rightarrow> Panicked TypeAssertion)"

definition GetByte :: "u64 \<Rightarrow> Contract \<Rightarrow> u8" where
  "GetByte n c = (if unat n < length (Code c) then Code c ! unat n else 0)"

definition GetOp :: "u64 \<Rightarrow> Contract \<Rightarrow> u8" where
  "GetOp n c = GetByte n c"

definition UseGas :: "u64 \<Rightarrow> Contract \<Rightarrow> bool \<times> Contract" where
  "UseGas gas c = (if Gas c < gas then (False, c) else (True, c\<lparr>Gas := Gas c - gas\<rparr>))"

definition SetCallCode :: "address option \<Rightarrow> hash \<Rightarrow> bytes \<Rightarrow> Contract \<Rightarrow> Contract" where
  "SetCallCode addr h code c = c\<lparr>Code := code, CodeHash := h, CodeAddr := addr\<rparr>"

record codeAndHash =
  cah_code :: bytes
  cah_hash :: hash

definition SetCodeOptionalHash :: "address option \<Rightarrow> codeAndHash \<Rightarrow> Contract \<Rightarrow> Contract" where
  "SetCodeOptionalHash addr cah c =
     c\<lparr>Code := cah_code cah, CodeHash := cah_hash cah, CodeAddr := addr\<rparr>"

text \<open>The pointer a child contract holds to the contract that calls it.\<close>

definition contract_ref :: "Contract \<Rightarrow> ContractRef" where
  "contract_ref c =
     ContractPtr (self c) (CallerAddress c) (c_value c) (jumpdests c)"

section \<open>The bitmap marks exactly the PUSH data\<close>

text \<open>The reference notion: the instruction starts of a program, found by walking over it and
  skipping the immediate bytes of each PUSH.\<close>

definition push_size :: "u8 \<Rightarrow> nat" where
  "push_size op = (if PUSH1 \<le> op \<and> op \<le> PUSH32 then unat op - 0x5f else 0)"

function instr_start :: "bytes \<Rightarrow> nat \<Rightarrow> nat \<Rightarrow> bool" where
  "instr_start code pc p =
     (if pc < length code
      then (if p = pc then True else instr_start code (pc + 1 + push_size (code ! pc)) p)
      else False)"
  by pat_completeness auto
termination
  by (relation "measure (\<lambda>(code, pc, p). length code - pc)") auto

declare instr_start.simps [simp del]

definition marked :: "bitvec \<Rightarrow> nat \<Rightarrow> bool" where
  "marked bits p = bit (bits ! (p div 8)) (7 - p mod 8)"

lemma u8_bit_index: "n < 8 \<Longrightarrow> n \<in> {0, 1, 2, 3, 4, 5, 6, 7}" for n :: nat
  by auto

lemma bit_128: "bit (128 :: u8) n \<longleftrightarrow> n = 7"
proof (cases "n < 8")
  case True
  from u8_bit_index [OF this] show ?thesis by auto
next
  case False
  then show ?thesis by (auto dest: bit_imp_le_length)
qed

lemma bit_255: "bit (255 :: u8) n \<longleftrightarrow> n < 8"
proof (cases "n < 8")
  case True
  from u8_bit_index [OF this] show ?thesis by auto
next
  case False
  then show ?thesis by (auto dest: bit_imp_le_length)
qed

lemma bit_0x80: "bit (drop_bit k (0x80 :: u8)) i \<longleftrightarrow> i + k = 7"
  by (simp only: bit_drop_bit_eq comp_def bit_128 add.commute)

lemma bit_0xFF: "bit (drop_bit k (0xFF :: u8)) i \<longleftrightarrow> i + k < 8"
  by (simp only: bit_drop_bit_eq comp_def bit_255 add.commute)

lemma and_bit_zero_iff: "and v w = 0 \<longleftrightarrow> (\<forall>n < 8. \<not> (bit v n \<and> bit w n))" for v w :: u8
proof
  assume "and v w = 0"
  then have "\<not> bit (and v w) n" for n by simp
  then show "\<forall>n < 8. \<not> (bit v n \<and> bit w n)" by (simp add: bit_and_iff)
next
  assume "\<forall>n < 8. \<not> (bit v n \<and> bit w n)"
  then show "and v w = 0" by (intro bit_word_eqI) (simp add: bit_and_iff)
qed

lemma codeSegment_iff:
  assumes "p div 8 < length bits"
  shows "codeSegment bits p = Done (\<not> marked bits p)"
proof -
  have k: "p mod 8 \<le> 7" by presburger
  have "(\<forall>n < 8. \<not> (bit w n \<and> n + p mod 8 = 7)) \<longleftrightarrow> \<not> bit w (7 - p mod 8)" for w :: u8
  proof
    assume "\<forall>n < 8. \<not> (bit w n \<and> n + p mod 8 = 7)"
    from spec [OF this, of "7 - p mod 8"] k show "\<not> bit w (7 - p mod 8)" by simp
  next
    assume nb: "\<not> bit w (7 - p mod 8)"
    have "n + p mod 8 = 7 \<Longrightarrow> n = 7 - p mod 8" for n by simp
    with nb show "\<forall>n < 8. \<not> (bit w n \<and> n + p mod 8 = 7)" by blast
  qed
  with assms show ?thesis
    by (simp add: codeSegment_def marked_def and_bit_zero_iff bit_0x80)
qed

lemma bitvec_or_marked:
  assumes "i < length bits"
  obtains bits' where "bitvec_or bits i v = Done bits'" "length bits' = length bits"
    "\<And>p. p div 8 < length bits \<Longrightarrow>
       marked bits' p \<longleftrightarrow> marked bits p \<or> p div 8 = i \<and> bit v (7 - p mod 8)"
proof
  show "bitvec_or bits i v = Done (bits[i := or (bits ! i) v])"
    using assms by (simp add: bitvec_or_def)
  show "marked (bits[i := or (bits ! i) v]) p \<longleftrightarrow>
          marked bits p \<or> p div 8 = i \<and> bit v (7 - p mod 8)"
    if "p div 8 < length bits" for p
    using that assms by (auto simp: marked_def nth_list_update bit_or_iff)
qed simp

lemma block_offset: "7 - b + d < (8 :: nat) \<longleftrightarrow> d \<le> b" "7 - b + d = (7 :: nat) \<longleftrightarrow> d = b"
  if "b < 8" "d < 8"
  using that by linarith+

lemma same_block:
  "p div 8 = pos div 8 \<and> 7 - p mod 8 + pos mod 8 = 7 \<longleftrightarrow> p = pos"
  "p div 8 = pos div 8 \<and> 7 - p mod 8 + pos mod 8 < 8 \<or>
   p div 8 = pos div 8 + 1 \<and> \<not> 7 - p mod 8 + pos mod 8 < 8 \<longleftrightarrow> pos \<le> p \<and> p < pos + 8"
  for p pos :: nat
proof -
  define a b c d where abcd: "a = p div 8" "b = p mod 8" "c = pos div 8" "d = pos mod 8"
  have p: "p = 8 * a + b" "b < 8" "pos = 8 * c + d" "d < 8" by (simp_all add: abcd)
  show "p div 8 = pos div 8 \<and> 7 - p mod 8 + pos mod 8 = 7 \<longleftrightarrow> p = pos"
    unfolding abcd [symmetric] block_offset [OF p(2,4)]
  proof
    show "p = pos" if "a = c \<and> d = b" using that p(1,3) by simp
    show "a = c \<and> d = b" if "p = pos" unfolding abcd using that by simp
  qed
  show "p div 8 = pos div 8 \<and> 7 - p mod 8 + pos mod 8 < 8 \<or>
   p div 8 = pos div 8 + 1 \<and> \<not> 7 - p mod 8 + pos mod 8 < 8 \<longleftrightarrow> pos \<le> p \<and> p < pos + 8"
    unfolding abcd [symmetric] block_offset [OF p(2,4)] using p by linarith
qed

lemma bitvec_set_marked:
  assumes "pos div 8 < length bits"
  obtains bits' where "bitvec_set bits pos = Done bits'" "length bits' = length bits"
    "\<And>p. p div 8 < length bits \<Longrightarrow> marked bits' p \<longleftrightarrow> marked bits p \<or> p = pos"
proof (rule bitvec_or_marked [OF assms, of "drop_bit (pos mod 8) 0x80"])
  fix bits'
  assume "bitvec_or bits (pos div 8) (drop_bit (pos mod 8) 0x80) = Done bits'"
    and "length bits' = length bits"
    and m: "\<And>p. p div 8 < length bits \<Longrightarrow> marked bits' p \<longleftrightarrow>
              marked bits p \<or> p div 8 = pos div 8 \<and> bit (drop_bit (pos mod 8) 0x80 :: u8) (7 - p mod 8)"
  moreover have "p div 8 < length bits \<Longrightarrow> marked bits' p \<longleftrightarrow> marked bits p \<or> p = pos" for p
    by (simp only: m bit_0x80 same_block)
  ultimately show thesis using that by (simp add: bitvec_set_def)
qed

lemma bitvec_set8_marked:
  assumes "pos div 8 + 1 < length bits"
  obtains bits' where "bitvec_set8 bits pos = Done bits'" "length bits' = length bits"
    "\<And>p. p div 8 < length bits \<Longrightarrow>
       marked bits' p \<longleftrightarrow> marked bits p \<or> pos \<le> p \<and> p < pos + 8"
proof -
  let ?v = "drop_bit (pos mod 8) 0xFF :: u8"
  from assms have "pos div 8 < length bits" by simp
  then obtain b1 where b1: "bitvec_or bits (pos div 8) ?v = Done b1" "length b1 = length bits"
    "\<And>p. p div 8 < length bits \<Longrightarrow>
       marked b1 p \<longleftrightarrow> marked bits p \<or> p div 8 = pos div 8 \<and> bit ?v (7 - p mod 8)"
    by (rule bitvec_or_marked [where v = ?v]) blast
  from assms b1(2) have "pos div 8 + 1 < length b1" by simp
  then obtain b2 where b2: "bitvec_or b1 (pos div 8 + 1) (not ?v) = Done b2" "length b2 = length b1"
    "\<And>p. p div 8 < length b1 \<Longrightarrow>
       marked b2 p \<longleftrightarrow> marked b1 p \<or> p div 8 = pos div 8 + 1 \<and> bit (not ?v) (7 - p mod 8)"
    by (rule bitvec_or_marked [where v = "not ?v"]) blast
  have neg: "bit (not ?v) (7 - p mod 8) \<longleftrightarrow> \<not> bit ?v (7 - p mod 8)" for p
  proof -
    have "7 - p mod 8 < 8" by linarith
    then show ?thesis by (simp add: bit_not_iff)
  qed
  have "marked b2 p \<longleftrightarrow> marked bits p \<or> pos \<le> p \<and> p < pos + 8" if "p div 8 < length bits" for p
  proof -
    have "marked b2 p \<longleftrightarrow> marked bits p \<or>
            (p div 8 = pos div 8 \<and> 7 - p mod 8 + pos mod 8 < 8 \<or>
             p div 8 = pos div 8 + 1 \<and> \<not> 7 - p mod 8 + pos mod 8 < 8)"
      using that b1(2,3) b2(3) [of p] by (simp only: neg bit_0xFF) blast
    then show ?thesis by (simp only: same_block)
  qed
  with b1(1,2) b2(1,2) show thesis using that by (simp add: bitvec_set8_def)
qed

lemma mark8_marked:
  assumes "(pc + n) div 8 < length bits"
  shows "\<exists>bits'. mark8 n pc bits = Done (n mod 8, pc + (n - n mod 8), bits') \<and>
           length bits' = length bits \<and>
           (\<forall>p. p div 8 < length bits \<longrightarrow>
              marked bits' p \<longleftrightarrow> marked bits p \<or> pc \<le> p \<and> p < pc + (n - n mod 8))"
  using assms
proof (induction n pc bits rule: mark8.induct)
  case (1 n pc bits)
  show ?case
  proof (cases "8 \<le> n")
    case True
    then have "(pc + 8) div 8 \<le> (pc + n) div 8" by (intro div_le_mono) simp
    then have "pc div 8 + 1 < length bits" using "1.prems" by simp
    then obtain b where b: "bitvec_set8 bits pc = Done b" "length b = length bits"
      "\<And>p. p div 8 < length bits \<Longrightarrow> marked b p \<longleftrightarrow> marked bits p \<or> pc \<le> p \<and> p < pc + 8"
      by (rule bitvec_set8_marked) blast
    have "(pc + 8 + (n - 8)) div 8 < length b" using True "1.prems" b(2) by simp
    from "1.IH" [OF True b(1) this] obtain b' where
      b': "mark8 (n - 8) (pc + 8) b = Done ((n - 8) mod 8, pc + 8 + (n - 8 - (n - 8) mod 8), b')"
      "length b' = length b"
      "\<And>p. p div 8 < length b \<Longrightarrow> marked b' p \<longleftrightarrow>
         marked b p \<or> pc + 8 \<le> p \<and> p < pc + 8 + (n - 8 - (n - 8) mod 8)" by blast
    have m: "(n - 8) mod 8 = n mod 8" using True by (simp add: le_mod_geq)
    have e: "pc + 8 + (n - 8 - n mod 8) = pc + (n - n mod 8)"
      using True mod_less_eq_dividend [of "n - 8" 8] by (simp add: m)
    have le: "pc + 8 \<le> pc + (n - n mod 8)" using e by linarith
    then have range: "(A \<or> pc \<le> p \<and> p < pc + 8) \<or> pc + 8 \<le> p \<and> p < pc + (n - n mod 8) \<longleftrightarrow>
        A \<or> pc \<le> p \<and> p < pc + (n - n mod 8)" for A p by linarith
    have "marked b' p \<longleftrightarrow> marked bits p \<or> pc \<le> p \<and> p < pc + (n - n mod 8)"
      if "p div 8 < length bits" for p
      using that b(2) b(3) [of p] b'(3) [of p] by (simp only: m e range)
    with True b b' m e show ?thesis by (simp add: mark8.simps [of n])
  next
    case False
    then show ?thesis by (simp add: mark8.simps [of n] linorder_not_le [symmetric])
  qed
qed

lemma mark1_marked:
  assumes "(pc + n) div 8 < length bits"
  shows "\<exists>bits'. mark1 n pc bits = Done (pc + n, bits') \<and> length bits' = length bits \<and>
           (\<forall>p. p div 8 < length bits \<longrightarrow>
              marked bits' p \<longleftrightarrow> marked bits p \<or> pc \<le> p \<and> p < pc + n)"
  using assms
proof (induction n arbitrary: pc bits)
  case 0
  show ?case by (simp add: linorder_not_le [symmetric])
next
  case (Suc n)
  have "pc div 8 < length bits" using Suc.prems by (meson div_le_mono le_add1 le_less_trans)
  then obtain b where b: "bitvec_set bits pc = Done b" "length b = length bits"
    "\<And>p. p div 8 < length bits \<Longrightarrow> marked b p \<longleftrightarrow> marked bits p \<or> p = pc"
    by (rule bitvec_set_marked) blast
  have "(pc + 1 + n) div 8 < length b" using Suc.prems b(2) by simp
  from Suc.IH [OF this] obtain b' where b': "mark1 n (pc + 1) b = Done (pc + 1 + n, b')"
    "length b' = length b"
    "\<And>p. p div 8 < length b \<Longrightarrow> marked b' p \<longleftrightarrow> marked b p \<or> pc + 1 \<le> p \<and> p < pc + 1 + n" by blast
  have range: "(A \<or> p = pc) \<or> pc + 1 \<le> p \<and> p < pc + 1 + n \<longleftrightarrow> A \<or> pc \<le> p \<and> p < pc + Suc n" for A p
    by auto
  have "marked b' p \<longleftrightarrow> marked bits p \<or> pc \<le> p \<and> p < pc + Suc n" if "p div 8 < length bits" for p
    using that b(2) b(3) [of p] b'(3) [of p] by (simp only: range)
  with b b' show ?case by simp
qed

lemma instr_start_before: "instr_start code pc p \<Longrightarrow> pc \<le> p"
proof (induction code pc p rule: instr_start.induct)
  case (1 code pc p)
  from "1.prems" show ?case
    by (subst (asm) instr_start.simps) (use "1.IH" in \<open>auto split: if_splits\<close>)
qed

lemma push_size_bounds: "push_size op \<le> 32"
proof -
  have "unat op \<le> 0x7f" if "op \<le> PUSH32"
    using that by (simp add: word_le_nat_alt)
  then show ?thesis by (auto simp: push_size_def)
qed

lemma push_size_eq:
  assumes "PUSH1 \<le> op" "op \<le> PUSH32"
  shows "unat (op - PUSH1 + 1) = push_size op"
proof -
  have lo: "0x60 \<le> unat op" using assms(1) by (simp add: word_le_nat_alt)
  have hi: "unat op \<le> 0x7f" using assms(2) by (simp add: word_le_nat_alt)
  have "unat (op - PUSH1) = unat op - 0x60" using assms(1) by (simp add: unat_sub_le)
  then have "unat (op - PUSH1 + 1) = unat op - 0x60 + 1"
    using lo hi by (subst unat_add_le) auto
  with assms lo show ?thesis by (simp add: push_size_def)
qed

text \<open>One instruction of the outer loop: the data bytes of the instruction at \<open>pc\<close> become
  marked, and the loop goes on at the next instruction.\<close>

lemma codeBitmap_from_step:
  assumes pc: "pc < length code" and len: "length bits = length code div 8 + 1 + 4"
  defines "n \<equiv> push_size (code ! pc)"
  obtains b where "codeBitmap_from code pc bits = codeBitmap_from code (pc + 1 + n) b"
    "length b = length bits"
    "\<And>p. p < length code \<Longrightarrow> marked b p \<longleftrightarrow> marked bits p \<or> pc < p \<and> p < pc + 1 + n"
proof (cases "PUSH1 \<le> code ! pc \<and> code ! pc \<le> PUSH32")
  case False
  then have "n = 0" by (simp only: n_def push_size_def if_False)
  then show ?thesis
  proof -
    have "codeBitmap_from code pc bits = codeBitmap_from code (pc + 1 + n) bits"
      using pc False \<open>n = 0\<close> by (auto simp add: codeBitmap_from.simps [of code pc] Let_def)
    moreover have "\<not> (pc < p \<and> p < pc + 1 + n)" for p using \<open>n = 0\<close> by linarith
    ultimately show ?thesis using that [of bits] by blast
  qed
next
  case True
  have n32: "n \<le> 32" by (simp add: n_def push_size_bounds)
  have "pc + 1 + n \<le> length code + 8 * 4" using pc n32 by linarith
  then have "(pc + 1 + n) div 8 \<le> (length code + 8 * 4) div 8" by (rule div_le_mono)
  then have bound: "(pc + 1 + n) div 8 < length bits" by (simp add: len)
  from mark8_marked [OF bound] obtain b1 where
    b1: "mark8 n (pc + 1) bits = Done (n mod 8, pc + 1 + (n - n mod 8), b1)" "length b1 = length bits"
    "\<And>p. p div 8 < length bits \<Longrightarrow>
       marked b1 p \<longleftrightarrow> marked bits p \<or> pc + 1 \<le> p \<and> p < pc + 1 + (n - n mod 8)" by blast
  have "(pc + 1 + (n - n mod 8) + n mod 8) div 8 < length b1"
    using bound b1(2) by simp
  from mark1_marked [OF this] obtain b2 where
    b2: "mark1 (n mod 8) (pc + 1 + (n - n mod 8)) b1 = Done (pc + 1 + n, b2)"
    "length b2 = length b1"
    "\<And>p. p div 8 < length b1 \<Longrightarrow> marked b2 p \<longleftrightarrow>
       marked b1 p \<or> pc + 1 + (n - n mod 8) \<le> p \<and> p < pc + 1 + n" by auto
  have range: "(A \<or> pc + 1 \<le> p \<and> p < pc + 1 + (n - n mod 8)) \<or>
      pc + 1 + (n - n mod 8) \<le> p \<and> p < pc + 1 + n \<longleftrightarrow> A \<or> pc < p \<and> p < pc + 1 + n" for A p
    by linarith
  have "marked b2 p \<longleftrightarrow> marked bits p \<or> pc < p \<and> p < pc + 1 + n" if "p < length code" for p
  proof -
    from that have "p div 8 \<le> length code div 8" by (intro div_le_mono) simp
    then have "p div 8 < length bits" by (simp add: len)
    with b1(2) b1(3) [of p] b2(3) [of p] show ?thesis by (simp only: range)
  qed
  moreover have "codeBitmap_from code pc bits = codeBitmap_from code (pc + 1 + n) b2"
  proof -
    have "unat (code ! pc - PUSH1 + 1) = n" using True by (simp only: push_size_eq n_def)
    then show ?thesis
      by (subst codeBitmap_from.simps)
        (simp only: Let_def pc True simp_thms if_True b1(1) b2(1) and_then.simps prod.case)
  qed
  ultimately show ?thesis using that b1(2) b2(2) by simp
qed

lemma codeBitmap_from_marks:
  assumes "length bits = length code div 8 + 1 + 4"
  shows "\<exists>bits'. codeBitmap_from code pc bits = Done bits' \<and> length bits' = length bits \<and>
    (\<forall>p < length code. marked bits' p \<longleftrightarrow> marked bits p \<or> pc \<le> p \<and> \<not> instr_start code pc p)"
  using assms
proof (induction "length code - pc" arbitrary: pc bits rule: less_induct)
  case less
  show ?case
  proof (cases "pc < length code")
    case False
    then show ?thesis by (auto simp: codeBitmap_from.simps [of code pc])
  next
    case True
    let ?next = "pc + 1 + push_size (code ! pc)"
    from codeBitmap_from_step [OF True less.prems] obtain b where
      b: "codeBitmap_from code pc bits = codeBitmap_from code ?next b" "length b = length bits"
      "\<And>p. p < length code \<Longrightarrow> marked b p \<longleftrightarrow> marked bits p \<or> pc < p \<and> p < ?next" by blast
    have "length code - ?next < length code - pc" using True by simp
    from less.hyps [OF this] b(2) less.prems obtain bits' where
      r: "codeBitmap_from code ?next b = Done bits'" "length bits' = length b"
      "\<And>p. p < length code \<Longrightarrow>
         marked bits' p \<longleftrightarrow> marked b p \<or> ?next \<le> p \<and> \<not> instr_start code ?next p" by auto
    have start: "instr_start code pc p \<longleftrightarrow> p = pc \<or> instr_start code ?next p" for p
      using True by (simp add: instr_start.simps [of code pc])
    have "marked bits' p \<longleftrightarrow> marked bits p \<or> pc \<le> p \<and> \<not> instr_start code pc p"
      if "p < length code" for p
      using b(3) [OF that] r(3) [OF that] start [of p] instr_start_before [of code ?next p]
      by linarith
    with b r show ?thesis by simp
  qed
qed

lemma not_marked_zeros: "p div 8 < n \<Longrightarrow> \<not> marked (replicate n 0) p"
  by (simp add: marked_def)

lemma codeBitmap_correct:
  "\<exists>bits. codeBitmap code = Done bits \<and>
     (\<forall>p < length code. codeSegment bits p = Done (instr_start code 0 p))"
proof -
  let ?z = "replicate (length code div 8 + 1 + 4) 0 :: bitvec"
  from codeBitmap_from_marks [of ?z code 0] obtain bits where
    b: "codeBitmap code = Done bits" "length bits = length code div 8 + 1 + 4"
    "\<And>p. p < length code \<Longrightarrow> marked bits p \<longleftrightarrow> marked ?z p \<or> \<not> instr_start code 0 p"
    by (auto simp: codeBitmap_def)
  have "codeSegment bits p = Done (instr_start code 0 p)" if "p < length code" for p
  proof -
    from that have "p div 8 \<le> length code div 8" by (intro div_le_mono) simp
    then have lt: "p div 8 < length code div 8 + 1 + 4" by simp
    with b(2) have "codeSegment bits p = Done (\<not> marked bits p)" by (simp add: codeSegment_iff)
    with b(3) [OF that] not_marked_zeros [OF lt] show ?thesis by simp
  qed
  with b(1) show ?thesis by blast
qed

section \<open>Jump destinations\<close>

text \<open>A cached analysis is sound when it is the bitmap of the contract's own code.\<close>

definition analysis_ok :: "Contract \<Rightarrow> bool" where
  "analysis_ok c \<longleftrightarrow>
     (\<forall>a. analysis c = Some a \<longrightarrow> codeBitmap (Code c) = Done a) \<and>
     (\<forall>a. CodeHash c \<noteq> 0 \<longrightarrow> jumpdests c (CodeHash c) = Some a \<longrightarrow> codeBitmap (Code c) = Done a)"

lemma codeBitmap_codeSegment:
  assumes "codeBitmap code = Done a" "p < length code"
  shows "codeSegment a p = Done (instr_start code 0 p)"
  using codeBitmap_correct [of code] assms by auto

lemma isCode_cases:
  assumes "analysis_ok c" "p < length (Code c)"
  obtains c' where "isCode c p = Done (instr_start (Code c) 0 p, c')" "analysis_ok c'"
    "c' = c\<lparr>jumpdests := jumpdests c', analysis := analysis c'\<rparr>"
proof -
  obtain b where b: "codeBitmap (Code c) = Done b" using codeBitmap_correct by blast
  note seg = codeBitmap_codeSegment [OF _ assms(2)]
  show thesis
  proof (cases "analysis c")
    case (Some a)
    with assms(1) have "codeBitmap (Code c) = Done a" by (simp add: analysis_ok_def)
    with Some assms(1) show ?thesis by (intro that [of c]) (simp_all add: isCode_def seg)
  next
    case None
    show ?thesis
    proof (cases "CodeHash c = 0")
      case True
      with None b show ?thesis
        by (intro that [of "c\<lparr>analysis := Some b\<rparr>"]) (simp_all add: isCode_def seg analysis_ok_def)
    next
      case False
      show ?thesis
      proof (cases "jumpdests c (CodeHash c)")
        case jd: None
        with False None b show ?thesis
          by (intro that [of "c\<lparr>jumpdests := (jumpdests c)(CodeHash c \<mapsto> b), analysis := Some b\<rparr>"])
            (simp_all add: isCode_def seg analysis_ok_def)
      next
        case (Some a)
        with assms(1) False have "codeBitmap (Code c) = Done a" by (simp add: analysis_ok_def)
        with Some False None b show ?thesis
          by (intro that [of "c\<lparr>analysis := Some a\<rparr>"]) (simp_all add: isCode_def seg analysis_ok_def)
      qed
    qed
  qed
qed

definition is_jumpdest :: "bytes \<Rightarrow> u256 \<Rightarrow> bool" where
  "is_jumpdest code dest \<longleftrightarrow>
     unat dest < length code \<and> code ! unat dest = JUMPDEST \<and> instr_start code 0 (unat dest)"

lemma validJumpdest_correct:
  assumes X: "uint256_api X" and ok: "analysis_ok c" and len: "length (Code c) < 2 ^ 63"
  shows "\<exists>c'. validJumpdest X dest c = Done (is_jumpdest (Code c) dest, c') \<and> analysis_ok c' \<and>
           c' = c\<lparr>jumpdests := jumpdests c', analysis := analysis c'\<rparr>"
proof -
  note u = uint256_api.Uint64WithOverflow [OF X, of dest]
  show ?thesis
  proof (cases "unat dest < length (Code c)")
    case False
    have "snd (u_Uint64WithOverflow X dest) \<or>
        unat (fst (u_Uint64WithOverflow X dest)) \<ge> length (Code c)"
    proof (cases "unat dest < 2 ^ 64")
      case True
      then have "unat (ucast dest :: u64) = unat dest" by (simp add: unsigned_ucast_eq take_bit_nat_eq_self)
      with False show ?thesis by (simp add: u)
    next
      case big: False
      then show ?thesis by (simp add: u)
    qed
    then have "validJumpdest X dest c = Done (False, c)"
      by (simp add: validJumpdest_def case_prod_unfold)
    moreover have "\<not> is_jumpdest (Code c) dest" using False by (simp add: is_jumpdest_def)
    ultimately show ?thesis using ok by auto
  next
    case True
    with len have small: "unat dest < 2 ^ 64" by simp
    then have d: "unat (ucast dest :: u64) = unat dest"
      by (simp add: unsigned_ucast_eq take_bit_nat_eq_self)
    obtain c' where c': "isCode c (unat dest) = Done (instr_start (Code c) 0 (unat dest), c')"
      "analysis_ok c'" "c' = c\<lparr>jumpdests := jumpdests c', analysis := analysis c'\<rparr>"
      using isCode_cases [OF ok True] .
    show ?thesis
    proof (cases "Code c ! unat dest = JUMPDEST")
      case jd: True
      with True small d c' show ?thesis
        by (intro exI [of _ c']) (simp add: validJumpdest_def u is_jumpdest_def)
    next
      case False
      with True small d ok show ?thesis
        by (intro exI [of _ c]) (simp add: validJumpdest_def u is_jumpdest_def)
    qed
  qed
qed

section \<open>Properties\<close>

text \<open>C35. \<open>codeBitmap\<close> never writes outside its bitmap, and \<open>codeSegment\<close> answers for every position
  of the code whether an instruction starts there, that is, whether it is not PUSH data.\<close>

theorem codeBitmap_marks_push_data:
  "\<exists>bits. codeBitmap code = Done bits \<and>
     (\<forall>p. p < length code \<longrightarrow> codeSegment bits p = Done (instr_start code 0 p))"
  using codeBitmap_correct [of code] by blast

theorem codeBitmap_marks_push_data_witness:
  "\<exists>bits. codeBitmap [0x61, 0x5b, 0x5b, 0x5b] = Done bits \<and>
     (\<forall>p. p < length [0x61, 0x5b, 0x5b, 0x5b :: u8] \<longrightarrow>
        codeSegment bits p = Done (instr_start [0x61, 0x5b, 0x5b, 0x5b] 0 p))"
  using codeBitmap_marks_push_data [of "[0x61, 0x5b, 0x5b, 0x5b]"] .

text \<open>C19. \<open>validJumpdest\<close> accepts exactly the destinations inside the code that hold a JUMPDEST
  instruction, whether or not an analysis was cached, and it keeps the caches sound.\<close>

theorem validJumpdest_exact:
  assumes "uint256_api X" "analysis_ok c" "length (Code c) < 2 ^ 63"
  shows "\<exists>c'. validJumpdest X dest c = Done (is_jumpdest (Code c) dest, c') \<and> analysis_ok c' \<and>
    c' = c\<lparr>jumpdests := jumpdests c', analysis := analysis c'\<rparr>"
  by (rule validJumpdest_correct [OF assms])

theorem validJumpdest_exact_witness:
  "\<exists>c'. validJumpdest word_ext 2 ((NewContract (AccountRef 1) 2 None 100)\<lparr>Code := [0x60, 0x5b, 0x5b]\<rparr>) =
     Done (is_jumpdest [0x60, 0x5b, 0x5b] 2, c')"
proof -
  let ?c = "(NewContract (AccountRef 1) 2 None 100)\<lparr>Code := [0x60, 0x5b, 0x5b]\<rparr>"
  have "analysis_ok ?c" by (simp add: analysis_ok_def NewContract_def)
  from validJumpdest_exact [OF word.uint256_api_axioms this, of 2] show ?thesis by (simp, blast)
qed

end
