(* ===== verification/Params.thy ===== *)
theory Params
  imports Prelude
begin

text \<open>
  The gas prices and limits of \<open>params/protocol_params.go\<close> that the modelled code reads, one
  abbreviation per Go constant, at its Go type (\<open>MaxCodeSize\<close> is an untyped constant that is
  compared with a slice length).
\<close>

abbreviation (input) GasLimitBoundDivisor :: u64 where "GasLimitBoundDivisor \<equiv> 1024"
abbreviation (input) MinGasLimit :: u64 where "MinGasLimit \<equiv> 5000"
abbreviation (input) GenesisGasLimit :: u64 where "GenesisGasLimit \<equiv> 4712388"
abbreviation (input) MaximumExtraDataSize :: u64 where "MaximumExtraDataSize \<equiv> 32"
abbreviation (input) ExpByteGas :: u64 where "ExpByteGas \<equiv> 10"
abbreviation (input) SloadGas :: u64 where "SloadGas \<equiv> 50"
abbreviation (input) CallValueTransferGas :: u64 where "CallValueTransferGas \<equiv> 9000"
abbreviation (input) CallNewAccountGas :: u64 where "CallNewAccountGas \<equiv> 25000"
abbreviation (input) TxGas :: u64 where "TxGas \<equiv> 21000"
abbreviation (input) TxGasContractCreation :: u64 where "TxGasContractCreation \<equiv> 53000"
abbreviation (input) TxDataZeroGas :: u64 where "TxDataZeroGas \<equiv> 4"
abbreviation (input) QuadCoeffDiv :: u64 where "QuadCoeffDiv \<equiv> 512"
abbreviation (input) LogDataGas :: u64 where "LogDataGas \<equiv> 8"
abbreviation (input) CallStipend :: u64 where "CallStipend \<equiv> 2300"
abbreviation (input) Sha3Gas :: u64 where "Sha3Gas \<equiv> 30"
abbreviation (input) Sha3WordGas :: u64 where "Sha3WordGas \<equiv> 6"
abbreviation (input) SstoreSetGas :: u64 where "SstoreSetGas \<equiv> 20000"
abbreviation (input) SstoreResetGas :: u64 where "SstoreResetGas \<equiv> 5000"
abbreviation (input) SstoreClearGas :: u64 where "SstoreClearGas \<equiv> 5000"
abbreviation (input) SstoreRefundGas :: u64 where "SstoreRefundGas \<equiv> 15000"
abbreviation (input) NetSstoreNoopGas :: u64 where "NetSstoreNoopGas \<equiv> 200"
abbreviation (input) NetSstoreInitGas :: u64 where "NetSstoreInitGas \<equiv> 20000"
abbreviation (input) NetSstoreCleanGas :: u64 where "NetSstoreCleanGas \<equiv> 5000"
abbreviation (input) NetSstoreDirtyGas :: u64 where "NetSstoreDirtyGas \<equiv> 200"
abbreviation (input) NetSstoreClearRefund :: u64 where "NetSstoreClearRefund \<equiv> 15000"
abbreviation (input) NetSstoreResetRefund :: u64 where "NetSstoreResetRefund \<equiv> 4800"
abbreviation (input) NetSstoreResetClearRefund :: u64 where "NetSstoreResetClearRefund \<equiv> 19800"
abbreviation (input) SstoreSentryGasEIP2200 :: u64 where "SstoreSentryGasEIP2200 \<equiv> 2300"
abbreviation (input) SstoreSetGasEIP2200 :: u64 where "SstoreSetGasEIP2200 \<equiv> 20000"
abbreviation (input) SstoreResetGasEIP2200 :: u64 where "SstoreResetGasEIP2200 \<equiv> 5000"
abbreviation (input) SstoreClearsScheduleRefundEIP2200 :: u64 where "SstoreClearsScheduleRefundEIP2200 \<equiv> 15000"
abbreviation (input) JumpdestGas :: u64 where "JumpdestGas \<equiv> 1"
abbreviation (input) EpochDuration :: u64 where "EpochDuration \<equiv> 30000"
abbreviation (input) CreateDataGas :: u64 where "CreateDataGas \<equiv> 200"
abbreviation (input) CallCreateDepth :: u64 where "CallCreateDepth \<equiv> 1024"
abbreviation (input) ExpGas :: u64 where "ExpGas \<equiv> 10"
abbreviation (input) LogGas :: u64 where "LogGas \<equiv> 375"
abbreviation (input) CopyGas :: u64 where "CopyGas \<equiv> 3"
abbreviation (input) StackLimit :: u64 where "StackLimit \<equiv> 1024"
abbreviation (input) TierStepGas :: u64 where "TierStepGas \<equiv> 0"
abbreviation (input) LogTopicGas :: u64 where "LogTopicGas \<equiv> 375"
abbreviation (input) CreateGas :: u64 where "CreateGas \<equiv> 32000"
abbreviation (input) Create2Gas :: u64 where "Create2Gas \<equiv> 32000"
abbreviation (input) SelfdestructRefundGas :: u64 where "SelfdestructRefundGas \<equiv> 24000"
abbreviation (input) MemoryGas :: u64 where "MemoryGas \<equiv> 3"
abbreviation (input) TxDataNonZeroGasFrontier :: u64 where "TxDataNonZeroGasFrontier \<equiv> 68"
abbreviation (input) TxDataNonZeroGasEIP2028 :: u64 where "TxDataNonZeroGasEIP2028 \<equiv> 16"
abbreviation (input) CallGasFrontier :: u64 where "CallGasFrontier \<equiv> 40"
abbreviation (input) CallGasEIP150 :: u64 where "CallGasEIP150 \<equiv> 700"
abbreviation (input) BalanceGasFrontier :: u64 where "BalanceGasFrontier \<equiv> 20"
abbreviation (input) BalanceGasEIP150 :: u64 where "BalanceGasEIP150 \<equiv> 400"
abbreviation (input) BalanceGasEIP1884 :: u64 where "BalanceGasEIP1884 \<equiv> 700"
abbreviation (input) ExtcodeSizeGasFrontier :: u64 where "ExtcodeSizeGasFrontier \<equiv> 20"
abbreviation (input) ExtcodeSizeGasEIP150 :: u64 where "ExtcodeSizeGasEIP150 \<equiv> 700"
abbreviation (input) SloadGasFrontier :: u64 where "SloadGasFrontier \<equiv> 50"
abbreviation (input) SloadGasEIP150 :: u64 where "SloadGasEIP150 \<equiv> 200"
abbreviation (input) SloadGasEIP1884 :: u64 where "SloadGasEIP1884 \<equiv> 800"
abbreviation (input) SloadGasEIP2200 :: u64 where "SloadGasEIP2200 \<equiv> 800"
abbreviation (input) ExtcodeHashGasConstantinople :: u64 where "ExtcodeHashGasConstantinople \<equiv> 400"
abbreviation (input) ExtcodeHashGasEIP1884 :: u64 where "ExtcodeHashGasEIP1884 \<equiv> 700"
abbreviation (input) SelfdestructGasEIP150 :: u64 where "SelfdestructGasEIP150 \<equiv> 5000"
abbreviation (input) ExpByteFrontier :: u64 where "ExpByteFrontier \<equiv> 10"
abbreviation (input) ExpByteEIP158 :: u64 where "ExpByteEIP158 \<equiv> 50"
abbreviation (input) ExtcodeCopyBaseFrontier :: u64 where "ExtcodeCopyBaseFrontier \<equiv> 20"
abbreviation (input) ExtcodeCopyBaseEIP150 :: u64 where "ExtcodeCopyBaseEIP150 \<equiv> 700"
abbreviation (input) CreateBySelfdestructGas :: u64 where "CreateBySelfdestructGas \<equiv> 25000"
abbreviation (input) MaxCodeSize :: nat where "MaxCodeSize \<equiv> 24576"
abbreviation (input) EcrecoverGas :: u64 where "EcrecoverGas \<equiv> 3000"
abbreviation (input) Sha256BaseGas :: u64 where "Sha256BaseGas \<equiv> 60"
abbreviation (input) Sha256PerWordGas :: u64 where "Sha256PerWordGas \<equiv> 12"
abbreviation (input) Ripemd160BaseGas :: u64 where "Ripemd160BaseGas \<equiv> 600"
abbreviation (input) Ripemd160PerWordGas :: u64 where "Ripemd160PerWordGas \<equiv> 120"
abbreviation (input) IdentityBaseGas :: u64 where "IdentityBaseGas \<equiv> 15"
abbreviation (input) IdentityPerWordGas :: u64 where "IdentityPerWordGas \<equiv> 3"
abbreviation (input) ModExpQuadCoeffDiv :: u64 where "ModExpQuadCoeffDiv \<equiv> 20"
abbreviation (input) Bn256AddGasByzantium :: u64 where "Bn256AddGasByzantium \<equiv> 500"
abbreviation (input) Bn256AddGasIstanbul :: u64 where "Bn256AddGasIstanbul \<equiv> 150"
abbreviation (input) Bn256ScalarMulGasByzantium :: u64 where "Bn256ScalarMulGasByzantium \<equiv> 40000"
abbreviation (input) Bn256ScalarMulGasIstanbul :: u64 where "Bn256ScalarMulGasIstanbul \<equiv> 6000"
abbreviation (input) Bn256PairingBaseGasByzantium :: u64 where "Bn256PairingBaseGasByzantium \<equiv> 100000"
abbreviation (input) Bn256PairingBaseGasIstanbul :: u64 where "Bn256PairingBaseGasIstanbul \<equiv> 45000"
abbreviation (input) Bn256PairingPerPointGasByzantium :: u64 where "Bn256PairingPerPointGasByzantium \<equiv> 80000"
abbreviation (input) Bn256PairingPerPointGasIstanbul :: u64 where "Bn256PairingPerPointGasIstanbul \<equiv> 34000"
abbreviation (input) Bls12381G1AddGas :: u64 where "Bls12381G1AddGas \<equiv> 600"
abbreviation (input) Bls12381G1MulGas :: u64 where "Bls12381G1MulGas \<equiv> 12000"
abbreviation (input) Bls12381G2AddGas :: u64 where "Bls12381G2AddGas \<equiv> 4500"
abbreviation (input) Bls12381G2MulGas :: u64 where "Bls12381G2MulGas \<equiv> 55000"
abbreviation (input) Bls12381PairingBaseGas :: u64 where "Bls12381PairingBaseGas \<equiv> 115000"
abbreviation (input) Bls12381PairingPerPairGas :: u64 where "Bls12381PairingPerPairGas \<equiv> 23000"
abbreviation (input) Bls12381MapG1Gas :: u64 where "Bls12381MapG1Gas \<equiv> 5500"
abbreviation (input) Bls12381MapG2Gas :: u64 where "Bls12381MapG2Gas \<equiv> 110000"

end
