(* ===== verification/Vm_Stack.thy ===== *)
theory Vm_Stack
  imports Prelude Params
begin

text \<open>
  \<open>core/vm/stack.go\<close> and \<open>core/vm/stack_table.go\<close>. A \<open>Stack\<close> is its slice of items. The Go
  slice grows at its end; the model keeps the same items with the top first, so
  \<open>st.data[len-1-n]\<close> is the list element \<open>n\<close> (\<open>go_data\<close> reads a model stack as the Go slice).
  An index below the bottom of the stack is the index panic of the Go runtime. The pools
  that recycle the slices (\<open>stackPool\<close>, \<open>rStackPool\<close>) hand out empty stacks.
\<close>

section \<open>Stack\<close>

type_synonym stack = "u256 list"

definition go_data :: "stack \<Rightarrow> u256 list" where
  "go_data st = rev st"

definition newstack :: stack where
  "newstack = []"

definition stack_push :: "u256 \<Rightarrow> stack \<Rightarrow> stack" where
  "stack_push d st = d # st"

definition stack_pushN :: "u256 list \<Rightarrow> stack \<Rightarrow> stack" where
  "stack_pushN ds st = rev ds @ st"

definition stack_pop :: "stack \<Rightarrow> (u256 \<times> stack) outcome" where
  "stack_pop st = (case st of [] \<Rightarrow> Panicked StackIndex | x # xs \<Rightarrow> Done (x, xs))"

definition stack_len :: "stack \<Rightarrow> nat" where
  "stack_len st = length st"

definition stack_swap :: "nat \<Rightarrow> stack \<Rightarrow> stack outcome" where
  "stack_swap n st =
     (if 1 \<le> n \<and> n \<le> length st then Done (st[n - 1 := st ! 0, 0 := st ! (n - 1)])
      else Panicked StackIndex)"

definition stack_dup :: "nat \<Rightarrow> stack \<Rightarrow> stack outcome" where
  "stack_dup n st =
     (if 1 \<le> n \<and> n \<le> length st then Done (stack_push (st ! (n - 1)) st)
      else Panicked StackIndex)"

definition stack_peek :: "stack \<Rightarrow> u256 outcome" where
  "stack_peek st = (case st of [] \<Rightarrow> Panicked StackIndex | x # _ \<Rightarrow> Done x)"

text \<open>\<open>peek\<close> and \<open>Back\<close> return pointers into the slice; writing through the pointer \<open>peek\<close>
  returned is \<open>stack_poke\<close>.\<close>

definition stack_poke :: "u256 \<Rightarrow> stack \<Rightarrow> stack" where
  "stack_poke v st = v # tl st"

definition stack_Back :: "nat \<Rightarrow> stack \<Rightarrow> u256 outcome" where
  "stack_Back n st = (if n < length st then Done (st ! n) else Panicked StackIndex)"

section \<open>ReturnStack\<close>

type_synonym rstack = "u32 list"

definition newReturnStack :: rstack where
  "newReturnStack = []"

definition rstack_push :: "u32 \<Rightarrow> rstack \<Rightarrow> rstack" where
  "rstack_push d st = d # st"

definition rstack_pop :: "rstack \<Rightarrow> (u32 \<times> rstack) outcome" where
  "rstack_pop st = (case st of [] \<Rightarrow> Panicked StackIndex | x # xs \<Rightarrow> Done (x, xs))"

section \<open>stack\_table.go\<close>

definition maxStack :: "nat \<Rightarrow> nat \<Rightarrow> nat" where
  "maxStack pops push = unat StackLimit + pops - push"

definition minStack :: "nat \<Rightarrow> nat \<Rightarrow> nat" where
  "minStack pops push = pops"

definition minSwapStack :: "nat \<Rightarrow> nat" where
  "minSwapStack n = minStack n n"

definition maxSwapStack :: "nat \<Rightarrow> nat" where
  "maxSwapStack n = maxStack n n"

definition minDupStack :: "nat \<Rightarrow> nat" where
  "minDupStack n = minStack n (n + 1)"

definition maxDupStack :: "nat \<Rightarrow> nat" where
  "maxDupStack n = maxStack n (n + 1)"

section \<open>Facts\<close>

lemmas stack_simps [simp] =
  stack_push_def stack_len_def stack_poke_def newstack_def newReturnStack_def rstack_push_def

lemma stack_pop_Cons [simp]: "stack_pop (x # st) = Done (x, st)"
  by (simp add: stack_pop_def)

lemma stack_peek_Cons [simp]: "stack_peek (x # st) = Done x"
  by (simp add: stack_peek_def)

lemma stack_Back_less [simp]: "n < length st \<Longrightarrow> stack_Back n st = Done (st ! n)"
  by (simp add: stack_Back_def)

lemma stack_limits [simp]:
  "minStack a b = a" "maxStack a b = 1024 + a - b"
  "minSwapStack n = n" "maxSwapStack n = 1024"
  "minDupStack n = n" "maxDupStack n = 1023"
  by (simp_all add: minStack_def maxStack_def minSwapStack_def maxSwapStack_def
      minDupStack_def maxDupStack_def)

lemma length_le_Cons2:
  "2 \<le> length st \<Longrightarrow> \<exists>x y r. st = x # y # r"
  by (cases st; cases "tl st") auto

lemma stack_swap_involution:
  "stack_swap n st = Done st' \<Longrightarrow> stack_swap n st' = Done st"
  by (cases st; cases n; cases "n - 1") (auto simp: stack_swap_def split: if_splits)

lemma stack_swap_length: "stack_swap n st = Done st' \<Longrightarrow> length st' = length st"
  by (auto simp: stack_swap_def split: if_splits)

lemma stack_dup_length: "stack_dup n st = Done st' \<Longrightarrow> length st' = Suc (length st)"
  by (auto simp: stack_dup_def split: if_splits)

end
