(* ===== verification/Vm_Memory.thy ===== *)
theory Vm_Memory
  imports External
begin

text \<open>
  \<open>core/vm/memory.go\<close> and the size arithmetic of \<open>core/vm/common.go\<close>. A \<open>Memory\<close> is its byte
  store and the fee charged for its current size. \<open>int64\<close> arguments are integers, and the sum
  of an offset and a size wraps at the width of the Go type. A slice bound above the length
  of the store is a panic here; Go would accept it up to the slice's capacity.
\<close>

section \<open>memory.go\<close>

record Memory =
  store :: bytes
  lastGasCost :: u64

definition NewMemory :: Memory where
  "NewMemory = \<lparr> store = [], lastGasCost = 0 \<rparr>"

definition Memory_Len :: "Memory \<Rightarrow> nat" where
  "Memory_Len m = length (store m)"

definition Memory_Set :: "u64 \<Rightarrow> u64 \<Rightarrow> bytes \<Rightarrow> Memory \<Rightarrow> Memory outcome" where
  "Memory_Set off sz v m =
     (if 0 < sz then
        (if length (store m) < unat (off + sz) then Panicked MemoryStore
         else if unat (off + sz) < unat off then Panicked SliceBounds
         else Done (m\<lparr>store := copy_slice (store m) (unat off) (unat (off + sz)) v\<rparr>))
      else Done m)"

definition Memory_Set32 :: "ext \<Rightarrow> u64 \<Rightarrow> u256 \<Rightarrow> Memory \<Rightarrow> Memory outcome" where
  "Memory_Set32 X off v m =
     (if length (store m) < unat (off + 32) then Panicked MemoryStore
      else if unat (off + 32) < unat off then Panicked SliceBounds
      else
        (let zeroed = copy_slice (store m) (unat off) (unat (off + 32)) (replicate 32 0)
         in Done (m\<lparr>store := take (unat off) zeroed @ u_WriteToSlice X v (drop (unat off) zeroed)\<rparr>)))"

definition Memory_Resize :: "u64 \<Rightarrow> Memory \<Rightarrow> Memory" where
  "Memory_Resize sz m =
     (if Memory_Len m < unat sz
      then m\<lparr>store := store m @ replicate (unat (sz - of_nat (Memory_Len m))) 0\<rparr>
      else m)"

text \<open>\<open>m.store[offset : offset+size]\<close> with \<open>int64\<close> bounds.\<close>

definition int64_slice :: "bytes \<Rightarrow> int \<Rightarrow> int \<Rightarrow> bytes outcome" where
  "int64_slice b off sz =
     (let hi = sint (word_of_int (off + sz) :: u64)
      in if 0 \<le> off \<and> off \<le> hi \<and> hi \<le> int (length b) then Done (slice b (nat off) (nat hi))
         else Panicked SliceBounds)"

definition Memory_GetCopy :: "int \<Rightarrow> int \<Rightarrow> Memory \<Rightarrow> bytes outcome" where
  "Memory_GetCopy off sz m =
     (if sz = 0 then Done []
      else if int (length (store m)) > off then
        (if sz < 0 then Panicked SliceBounds
         else and_then (int64_slice (store m) off sz)
           (\<lambda>s. Done (copy_slice (replicate (nat sz) 0) 0 (nat sz) s)))
      else Done [])"

definition Memory_GetPtr :: "int \<Rightarrow> int \<Rightarrow> Memory \<Rightarrow> bytes outcome" where
  "Memory_GetPtr off sz m =
     (if sz = 0 then Done []
      else if int (length (store m)) > off then int64_slice (store m) off sz
      else Done [])"

section \<open>common.go\<close>

definition calcMemSize64WithUint :: "ext \<Rightarrow> u256 \<Rightarrow> u64 \<Rightarrow> u64 \<times> bool" where
  "calcMemSize64WithUint X off length64 =
     (if length64 = 0 then (0, False)
      else
        (let (offset64, overflow) = u_Uint64WithOverflow X off
         in if overflow then (0, True)
            else (let val = offset64 + length64 in (val, val < offset64))))"

definition calcMemSize64 :: "ext \<Rightarrow> u256 \<Rightarrow> u256 \<Rightarrow> u64 \<times> bool" where
  "calcMemSize64 X off l =
     (if \<not> u_IsUint64 X l then (0, True) else calcMemSize64WithUint X off (u_Uint64 X l))"

text \<open>\<open>start + size\<close> may wrap; a wrapped \<open>end\<close> below \<open>start\<close> is a slice panic. The length to pad
  to is \<open>int(size)\<close>; a negative one pads nothing.\<close>

definition getData :: "bytes \<Rightarrow> u64 \<Rightarrow> u64 \<Rightarrow> bytes outcome" where
  "getData d start sz =
     (let len = (of_nat (length d) :: u64);
          start' = (if start > len then len else start);
          e = start' + sz;
          e' = (if e > len then len else e)
      in if unat e' < unat start' then Panicked SliceBounds
         else Done (RightPadBytes (slice d (unat start') (unat e')) (nat (sint sz))))"

definition toWordSize :: "u64 \<Rightarrow> u64" where
  "toWordSize sz =
     (if sz > MaxUint64 - 31 then MaxUint64 div 32 + 1 else (sz + 31) div 32)"

fun allZero :: "bytes \<Rightarrow> bool" where
  "allZero [] = True"
| "allZero (b # bs) = (if b \<noteq> 0 then False else allZero bs)"

section \<open>Facts\<close>

lemma Memory_Set_in_range:
  assumes "unat off + unat sz \<le> length (store m)" "length (store m) < 2 ^ 64"
  shows "Memory_Set off sz v m =
    Done (if sz = 0 then m
          else m\<lparr>store := copy_slice (store m) (unat off) (unat off + unat sz) v\<rparr>)"
proof -
  from assms have "unat (off + sz) = unat off + unat sz" by (simp add: gas_arith)
  with assms show ?thesis by (auto simp: Memory_Set_def word_greater_zero_iff)
qed

lemma Memory_Set_length:
  "Memory_Set off sz v m = Done m' \<Longrightarrow>
    length (store m') = length (store m) \<and> lastGasCost m' = lastGasCost m"
  by (auto simp: Memory_Set_def split: if_splits)

lemma Memory_Resize_length:
  assumes "length (store m) < 2 ^ 64"
  shows "length (store (Memory_Resize sz m)) = max (length (store m)) (unat sz)"
proof (cases "length (store m) < unat sz")
  case True
  then have "unat (sz - of_nat (length (store m))) = unat sz - length (store m)"
    using assms by (simp add: gas_arith word_le_nat_alt unat_of_nat)
  with True show ?thesis by (simp add: Memory_Resize_def Memory_Len_def)
next
  case False
  then show ?thesis by (simp add: Memory_Resize_def Memory_Len_def)
qed

lemma Memory_Resize_keeps:
  "i < length (store m) \<Longrightarrow> store (Memory_Resize sz m) ! i = store m ! i"
  by (simp add: Memory_Resize_def nth_append)

lemma lastGasCost_Resize [simp]: "lastGasCost (Memory_Resize sz m) = lastGasCost m"
  by (simp add: Memory_Resize_def)

lemma sint_word_of_int_u64:
  "0 \<le> k \<Longrightarrow> k < 2 ^ 63 \<Longrightarrow> sint (word_of_int k :: u64) = k"
  by (simp add: signed_of_int signed_take_bit_int_eq_self)

lemma int64_slice_in_range:
  assumes "0 \<le> off" "0 \<le> sz" "off + sz \<le> int (length b)" "length b < 2 ^ 63"
  shows "int64_slice b off sz = Done (slice b (nat off) (nat off + nat sz))"
proof -
  have "sint (word_of_int (off + sz) :: u64) = off + sz"
    using assms by (intro sint_word_of_int_u64) simp_all
  then show ?thesis using assms by (simp add: int64_slice_def Let_def nat_add_distrib)
qed

lemma allZero_iff: "allZero bs \<longleftrightarrow> (\<forall>b \<in> set bs. b = 0)"
  by (induction bs) auto

lemma toWordSize_unat:
  "unat (toWordSize sz) = (unat sz + 31) div 32"
proof (cases "sz > MaxUint64 - 31")
  case True
  then have "unat sz > 2 ^ 64 - 1 - 31" by (simp add: word_less_nat_alt)
  moreover have "unat sz < 2 ^ 64" using u64_less [of sz] by simp
  ultimately have "(unat sz + 31) div 32 = 576460752303423488" by simp
  with True show ?thesis by (simp add: toWordSize_def)
next
  case False
  then have "unat sz \<le> 2 ^ 64 - 1 - 31" by (simp add: word_less_nat_alt)
  then have "unat (sz + 31) = unat sz + 31" by (simp add: gas_arith)
  with False show ?thesis by (simp add: toWordSize_def unat_div)
qed

end
