(* ===== verification/Vm_Env.thy ===== *)
theory Vm_Env
  imports State_Spec Vm_Contract Vm_Stack Vm_Memory
begin

text \<open>
  The environment of the virtual machine: the block and message context, the chain rules and the
  configuration (\<open>params.Rules\<close>, \<open>vm.Config\<close>, \<open>vm.Context\<close> and the \<open>EVM\<close> struct of
  \<open>core/vm/evm.go\<close>).

  The fields that no call writes form the record \<open>env\<close>, with the external functions and the
  database; the fields that calls write form the record \<open>EVM\<close>, together with the two mutable
  fields of the single \<open>EVMInterpreter\<close>. \<open>abort\<close> is set by another goroutine: \<open>abort_load E n\<close>
  is what the n-th atomic load of it returns. Tracing (\<open>Config.Debug\<close>) is left out.
\<close>

record Rules =
  IsHomestead :: bool
  IsEIP150 :: bool
  IsEIP155 :: bool
  IsEIP158 :: bool
  IsByzantium :: bool
  IsConstantinople :: bool
  IsPetersburg :: bool
  IsIstanbul :: bool
  IsYoloV1 :: bool

record Config =
  NoRecursion :: bool
  EnablePreimageRecording :: bool
  ExtraEips :: "int list"

record 't Context =
  ctx_CanTransfer :: "'t StateDB \<Rightarrow> address \<Rightarrow> int \<Rightarrow> bool \<times> 't StateDB"
  ctx_Transfer :: "'t StateDB \<Rightarrow> address \<Rightarrow> address \<Rightarrow> int \<Rightarrow> 't StateDB"
  GetHash :: "u64 \<Rightarrow> hash"
  Origin :: address
  GasPrice :: int
  Coinbase :: address
  GasLimit :: u64
  BlockNumber :: int
  Time :: int
  Difficulty :: int

record 't env = "'t Context" +
  env_X :: ext
  env_D :: "'t Database"
  chainRules :: Rules
  chainID :: int
  vmConfig :: Config
  abort_load :: "nat \<Rightarrow> bool"

record 't EVM =
  evm_StateDB :: "'t StateDB"
  depth :: nat
  callGasTemp :: u64
  readOnly :: bool
  returnData :: bytes
  abort_loads :: nat

text \<open>What a run of a contract returns: the return slice (\<open>[]\<close> for nil), the error, the EVM and
  the contract with its remaining gas. The calls of \<open>evm.go\<close> take the interpreter's \<open>Run\<close> as an
  argument of type \<open>runner\<close>; their last argument is \<open>readOnly\<close>.\<close>

type_synonym 't ran = "bytes \<times> evm_error option \<times> 't EVM \<times> Contract"
type_synonym 't runner = "'t EVM \<Rightarrow> Contract \<Rightarrow> bytes \<Rightarrow> bool \<Rightarrow> 't ran outcome"

text \<open>Errors as values: sequencing of steps that may return early with an error.\<close>

fun or_fail :: "'e + 'a \<Rightarrow> ('a \<Rightarrow> 'e + 'b) \<Rightarrow> 'e + 'b" where
  "or_fail (Inl e) f = Inl e"
| "or_fail (Inr x) f = f x"

lemma or_fail_Inr_iff: "or_fail r f = Inr y \<longleftrightarrow> (\<exists>x. r = Inr x \<and> f x = Inr y)"
  by (cases r) auto

text \<open>The pattern \<open>if x, overflow = ...; overflow { return 0, ErrGasUintOverflow }\<close>.\<close>

definition no_overflow :: "u64 \<times> bool \<Rightarrow> evm_error + u64" where
  "no_overflow r = (if snd r then Inl ErrGasUintOverflow else Inr (fst r))"

lemma no_overflow_Inr_iff: "no_overflow r = Inr x \<longleftrightarrow> r = (x, False)"
  by (cases r) (auto simp: no_overflow_def)

definition lift_state :: "('t StateDB \<Rightarrow> 'a \<times> 't StateDB) \<Rightarrow> 't EVM \<Rightarrow> 'a \<times> 't EVM" where
  "lift_state f evm = (let (r, s) = f (evm_StateDB evm) in (r, evm\<lparr>evm_StateDB := s\<rparr>))"

definition on_state :: "('t StateDB \<Rightarrow> 't StateDB) \<Rightarrow> 't EVM \<Rightarrow> 't EVM" where
  "on_state f evm = evm\<lparr>evm_StateDB := f (evm_StateDB evm)\<rparr>"

end
