(* ===== verification/Vm_Gas.thy ===== *)
theory Vm_Gas
  imports Vm_Env
begin

text \<open>
  \<open>core/vm/gas.go\<close>, \<open>core/vm/gas_table.go\<close> and \<open>core/vm/memory_table.go\<close>: how much memory an
  instruction touches and how much gas it costs beyond its constant price. A gas function reads
  the stack, may read the state (which fills its caches), may add to the refund counter, sets
  \<open>callGasTemp\<close> for the calls, and records the fee paid for memory in the memory itself.
\<close>

section \<open>gas.go\<close>

abbreviation (input) GasQuickStep :: u64 where "GasQuickStep \<equiv> 2"
abbreviation (input) GasFastestStep :: u64 where "GasFastestStep \<equiv> 3"
abbreviation (input) GasFastStep :: u64 where "GasFastStep \<equiv> 5"
abbreviation (input) GasMidStep :: u64 where "GasMidStep \<equiv> 8"
abbreviation (input) GasSlowStep :: u64 where "GasSlowStep \<equiv> 10"
abbreviation (input) GasExtStep :: u64 where "GasExtStep \<equiv> 20"

definition callGas :: "ext \<Rightarrow> bool \<Rightarrow> u64 \<Rightarrow> u64 \<Rightarrow> u256 \<Rightarrow> evm_error + u64" where
  "callGas X isEip150 availableGas base callCost =
     (let available = availableGas - base; gas = available - available div 64
      in if isEip150 \<and> (\<not> u_IsUint64 X callCost \<or> gas < u_Uint64 X callCost) then Inr gas
         else if \<not> u_IsUint64 X callCost then Inl ErrGasUintOverflow
         else Inr (u_Uint64 X callCost))"

section \<open>memory\_table.go\<close>

type_synonym memorySizeFunc = "ext \<Rightarrow> stack \<Rightarrow> (u64 \<times> bool) outcome"

definition mem_at :: "nat \<Rightarrow> nat \<Rightarrow> memorySizeFunc" where
  "mem_at i j X st =
     and_then (stack_Back i st) (\<lambda>off. and_then (stack_Back j st) (\<lambda>l. Done (calcMemSize64 X off l)))"

definition mem_fixed :: "nat \<Rightarrow> u64 \<Rightarrow> memorySizeFunc" where
  "mem_fixed i n X st = and_then (stack_Back i st) (\<lambda>off. Done (calcMemSize64WithUint X off n))"

definition memorySha3 :: memorySizeFunc where "memorySha3 = mem_at 0 1"
definition memoryCallDataCopy :: memorySizeFunc where "memoryCallDataCopy = mem_at 0 2"
definition memoryReturnDataCopy :: memorySizeFunc where "memoryReturnDataCopy = mem_at 0 2"
definition memoryCodeCopy :: memorySizeFunc where "memoryCodeCopy = mem_at 0 2"
definition memoryExtCodeCopy :: memorySizeFunc where "memoryExtCodeCopy = mem_at 1 3"
definition memoryMLoad :: memorySizeFunc where "memoryMLoad = mem_fixed 0 32"
definition memoryMStore8 :: memorySizeFunc where "memoryMStore8 = mem_fixed 0 1"
definition memoryMStore :: memorySizeFunc where "memoryMStore = mem_fixed 0 32"
definition memoryCreate :: memorySizeFunc where "memoryCreate = mem_at 1 2"
definition memoryCreate2 :: memorySizeFunc where "memoryCreate2 = mem_at 1 2"

text \<open>The larger of two regions: the arguments and the results of a call.\<close>

definition mem_larger :: "memorySizeFunc \<Rightarrow> memorySizeFunc \<Rightarrow> memorySizeFunc" where
  "mem_larger f g X st =
     and_then (f X st) (\<lambda>(x, overflow).
       if overflow then Done (0, True)
       else and_then (g X st) (\<lambda>(y, overflow).
         if overflow then Done (0, True)
         else if x > y then Done (x, False) else Done (y, False)))"

definition memoryCall :: memorySizeFunc where "memoryCall = mem_larger (mem_at 5 6) (mem_at 3 4)"
definition memoryDelegateCall :: memorySizeFunc where
  "memoryDelegateCall = mem_larger (mem_at 4 5) (mem_at 2 3)"
definition memoryStaticCall :: memorySizeFunc where
  "memoryStaticCall = mem_larger (mem_at 4 5) (mem_at 2 3)"
definition memoryReturn :: memorySizeFunc where "memoryReturn = mem_at 0 1"
definition memoryRevert :: memorySizeFunc where "memoryRevert = mem_at 0 1"
definition memoryLog :: memorySizeFunc where "memoryLog = mem_at 0 1"

section \<open>gas\_table.go: memory\<close>

definition memoryGasCost :: "Memory \<Rightarrow> u64 \<Rightarrow> (evm_error + u64) \<times> Memory" where
  "memoryGasCost mem newMemSize =
     (if newMemSize = 0 then (Inr 0, mem)
      else if newMemSize > 0x1FFFFFFFE0 then (Inl ErrGasUintOverflow, mem)
      else
        (let newMemSizeWords = toWordSize newMemSize;
             newMemSize = newMemSizeWords * 32
         in if newMemSize > of_nat (Memory_Len mem) then
              (let square = newMemSizeWords * newMemSizeWords;
                   linCoef = newMemSizeWords * MemoryGas;
                   quadCoef = square div QuadCoeffDiv;
                   newTotalFee = linCoef + quadCoef;
                   fee = newTotalFee - lastGasCost mem
               in (Inr fee, mem\<lparr>lastGasCost := newTotalFee\<rparr>))
            else (Inr 0, mem)))"

type_synonym 't gasFunc =
  "'t env \<Rightarrow> 't EVM \<Rightarrow> Contract \<Rightarrow> stack \<Rightarrow> Memory \<Rightarrow> u64 \<Rightarrow>
   ((evm_error + u64) \<times> 't EVM \<times> Memory) outcome"

text \<open>The gas for expanding the memory, then the gas for the words of the region whose length is
  the stack item \<open>stackpos\<close>.\<close>

definition word_gas :: "nat \<Rightarrow> u64 \<Rightarrow> 't gasFunc" where
  "word_gas stackpos price E evm c st mem memorySize =
     (case memoryGasCost mem memorySize of
        (Inl err, mem1) \<Rightarrow> Done (Inl err, evm, mem1)
      | (Inr gas, mem1) \<Rightarrow>
          and_then (stack_Back stackpos st) (\<lambda>l. Done (
            or_fail (no_overflow (u_Uint64WithOverflow (env_X E) l)) (\<lambda>words.
            or_fail (no_overflow (SafeMul (toWordSize words) price)) (\<lambda>words.
            no_overflow (SafeAdd gas words))), evm, mem1)))"

definition memoryCopierGas :: "nat \<Rightarrow> 't gasFunc" where
  "memoryCopierGas stackpos = word_gas stackpos CopyGas"

definition gasCallDataCopy :: "'t gasFunc" where "gasCallDataCopy = memoryCopierGas 2"
definition gasCodeCopy :: "'t gasFunc" where "gasCodeCopy = memoryCopierGas 2"
definition gasExtCodeCopy :: "'t gasFunc" where "gasExtCodeCopy = memoryCopierGas 3"
definition gasReturnDataCopy :: "'t gasFunc" where "gasReturnDataCopy = memoryCopierGas 2"
definition gasSha3 :: "'t gasFunc" where "gasSha3 = word_gas 1 Sha3WordGas"
definition gasCreate2 :: "'t gasFunc" where "gasCreate2 = word_gas 2 Sha3WordGas"

definition pureMemoryGascost :: "'t gasFunc" where
  "pureMemoryGascost E evm c st mem memorySize =
     (let (r, mem1) = memoryGasCost mem memorySize in Done (r, evm, mem1))"

definition gasReturn :: "'t gasFunc" where "gasReturn = pureMemoryGascost"
definition gasRevert :: "'t gasFunc" where "gasRevert = pureMemoryGascost"
definition gasMLoad :: "'t gasFunc" where "gasMLoad = pureMemoryGascost"
definition gasMStore8 :: "'t gasFunc" where "gasMStore8 = pureMemoryGascost"
definition gasMStore :: "'t gasFunc" where "gasMStore = pureMemoryGascost"
definition gasCreate :: "'t gasFunc" where "gasCreate = pureMemoryGascost"

definition makeGasLog :: "u64 \<Rightarrow> 't gasFunc" where
  "makeGasLog n E evm c st mem memorySize =
     and_then (stack_Back 1 st) (\<lambda>l.
       case no_overflow (u_Uint64WithOverflow (env_X E) l) of
         Inl err \<Rightarrow> Done (Inl err, evm, mem)
       | Inr requestedSize \<Rightarrow>
           (let (r, mem1) = memoryGasCost mem memorySize
            in Done (
              or_fail r (\<lambda>gas.
              or_fail (no_overflow (SafeAdd gas LogGas)) (\<lambda>gas.
              or_fail (no_overflow (SafeAdd gas (n * LogTopicGas))) (\<lambda>gas.
              or_fail (no_overflow (SafeMul requestedSize LogDataGas)) (\<lambda>memorySizeGas.
              no_overflow (SafeAdd gas memorySizeGas))))), evm, mem1)))"

definition gas_exp :: "u64 \<Rightarrow> 't gasFunc" where
  "gas_exp expByte E evm c st mem memorySize =
     and_then (stack_Back 1 st) (\<lambda>e.
       (let expByteLen = of_nat ((u_BitLen (env_X E) e + 7) div 8) :: u64
        in Done (no_overflow (SafeAdd (expByteLen * expByte) ExpGas), evm, mem)))"

definition gasExpFrontier :: "'t gasFunc" where "gasExpFrontier = gas_exp ExpByteFrontier"
definition gasExpEIP158 :: "'t gasFunc" where "gasExpEIP158 = gas_exp ExpByteEIP158"

section \<open>gas\_table.go: storage\<close>

text \<open>What \<open>gasSStore\<close> and \<open>gasSStoreEIP2200\<close> share: the refunds of a write to a slot that was
  already written in this transaction.\<close>

definition dirty_slot_refund ::
    "u64 \<Rightarrow> u64 \<Rightarrow> u64 \<Rightarrow> hash \<Rightarrow> hash \<Rightarrow> hash \<Rightarrow> 't StateDB \<Rightarrow> 't StateDB outcome" where
  "dirty_slot_refund clear resetClear reset original current val s =
     and_then
       (if original \<noteq> 0 then
          (if current = 0 then SubRefund clear s
           else if val = 0 then Done (AddRefund clear s) else Done s)
        else Done s)
       (\<lambda>s1. Done (
          if original = val then
            (if original = 0 then AddRefund resetClear s1 else AddRefund reset s1)
          else s1))"

definition gasSStore :: "'t gasFunc" where
  "gasSStore E evm c st mem memorySize =
     (let X = env_X E; D = env_D E; rules = chainRules E
      in and_then (stack_Back 1 st) (\<lambda>y. and_then (stack_Back 0 st) (\<lambda>x.
         and_then (GetState X D (self c) (u_Bytes32 X x) (evm_StateDB evm)) (\<lambda>(current, s1).
           if IsPetersburg rules \<or> \<not> IsConstantinople rules then
             (if current = 0 \<and> u_Sign X y \<noteq> 0 then
                Done (Inr SstoreSetGas, evm\<lparr>evm_StateDB := s1\<rparr>, mem)
              else if current \<noteq> 0 \<and> u_Sign X y = 0 then
                Done (Inr SstoreClearGas, evm\<lparr>evm_StateDB := AddRefund SstoreRefundGas s1\<rparr>, mem)
              else Done (Inr SstoreResetGas, evm\<lparr>evm_StateDB := s1\<rparr>, mem))
           else
             (let val = u_Bytes32 X y
              in if current = val then Done (Inr NetSstoreNoopGas, evm\<lparr>evm_StateDB := s1\<rparr>, mem)
                 else and_then (GetCommittedState X D (self c) (u_Bytes32 X x) s1) (\<lambda>(original, s2).
                   if original = current then
                     (if original = 0 then Done (Inr NetSstoreInitGas, evm\<lparr>evm_StateDB := s2\<rparr>, mem)
                      else Done (Inr NetSstoreCleanGas,
                        evm\<lparr>evm_StateDB := (if val = 0 then AddRefund NetSstoreClearRefund s2 else s2)\<rparr>, mem))
                   else
                     and_then (dirty_slot_refund NetSstoreClearRefund NetSstoreResetClearRefund
                         NetSstoreResetRefund original current val s2) (\<lambda>s3.
                       Done (Inr NetSstoreDirtyGas, evm\<lparr>evm_StateDB := s3\<rparr>, mem))))))))"

definition gasSStoreEIP2200 :: "'t gasFunc" where
  "gasSStoreEIP2200 E evm c st mem memorySize =
     (let X = env_X E; D = env_D E
      in if Gas c \<le> SstoreSentryGasEIP2200 then
           Done (Inl (ErrOther ''not enough gas for reentrancy sentry''), evm, mem)
         else and_then (stack_Back 1 st) (\<lambda>y. and_then (stack_Back 0 st) (\<lambda>x.
           and_then (GetState X D (self c) (u_Bytes32 X x) (evm_StateDB evm)) (\<lambda>(current, s1).
             (let val = u_Bytes32 X y
              in if current = val then Done (Inr SloadGasEIP2200, evm\<lparr>evm_StateDB := s1\<rparr>, mem)
                 else and_then (GetCommittedState X D (self c) (u_Bytes32 X x) s1) (\<lambda>(original, s2).
                   if original = current then
                     (if original = 0 then Done (Inr SstoreSetGasEIP2200, evm\<lparr>evm_StateDB := s2\<rparr>, mem)
                      else Done (Inr SstoreResetGasEIP2200,
                        evm\<lparr>evm_StateDB :=
                          (if val = 0 then AddRefund SstoreClearsScheduleRefundEIP2200 s2 else s2)\<rparr>, mem))
                   else
                     and_then (dirty_slot_refund SstoreClearsScheduleRefundEIP2200
                         (SstoreSetGasEIP2200 - SloadGasEIP2200) (SstoreResetGasEIP2200 - SloadGasEIP2200)
                         original current val s2) (\<lambda>s3.
                       Done (Inr SloadGasEIP2200, evm\<lparr>evm_StateDB := s3\<rparr>, mem))))))))"

section \<open>gas\_table.go: calls\<close>

text \<open>The end of the call gas functions: the gas handed to the callee goes to \<open>callGasTemp\<close> and is
  charged with the rest.\<close>

definition finish_call_gas ::
    "'t env \<Rightarrow> 't EVM \<Rightarrow> Contract \<Rightarrow> u256 \<Rightarrow> Memory \<Rightarrow> u64 \<Rightarrow> (evm_error + u64) \<times> 't EVM \<times> Memory" where
  "finish_call_gas E evm c requested mem gas =
     (case callGas (env_X E) (IsEIP150 (chainRules E)) (Gas c) gas requested of
        Inl err \<Rightarrow> (Inl err, evm\<lparr>callGasTemp := 0\<rparr>, mem)
      | Inr temp \<Rightarrow> (no_overflow (SafeAdd gas temp), evm\<lparr>callGasTemp := temp\<rparr>, mem))"

definition gasCall :: "'t gasFunc" where
  "gasCall E evm c st mem memorySize =
     (let X = env_X E; D = env_D E
      in and_then (stack_Back 2 st) (\<lambda>v. and_then (stack_Back 1 st) (\<lambda>a.
         (let transfersValue = (\<not> u_IsZero X v);
              addr = u_Bytes20 X a;
              (gas1, evm1) =
                (if IsEIP158 (chainRules E) then
                   (if transfersValue then
                      (let (e, evm1) = lift_state (Empty X D addr) evm
                       in (if e then CallNewAccountGas else 0, evm1))
                    else (0, evm))
                 else
                   (let (e, evm1) = lift_state (Exist X D addr) evm
                    in (if \<not> e then CallNewAccountGas else 0, evm1)));
              gas2 = (if transfersValue then gas1 + CallValueTransferGas else gas1);
              (r, mem1) = memoryGasCost mem memorySize
          in case or_fail r (\<lambda>memoryGas. no_overflow (SafeAdd gas2 memoryGas)) of
               Inl err \<Rightarrow> Done (Inl err, evm1, mem1)
             | Inr gas \<Rightarrow> and_then (stack_Back 0 st) (\<lambda>req. Done (finish_call_gas E evm1 c req mem1 gas))))))"

definition gasCallCode :: "'t gasFunc" where
  "gasCallCode E evm c st mem memorySize =
     (let X = env_X E; (r, mem1) = memoryGasCost mem memorySize
      in case r of
           Inl err \<Rightarrow> Done (Inl err, evm, mem1)
         | Inr memoryGas \<Rightarrow>
             and_then (stack_Back 2 st) (\<lambda>v.
               case no_overflow (SafeAdd (if u_Sign X v \<noteq> 0 then CallValueTransferGas else 0) memoryGas) of
                 Inl err \<Rightarrow> Done (Inl err, evm, mem1)
               | Inr gas \<Rightarrow> and_then (stack_Back 0 st) (\<lambda>req. Done (finish_call_gas E evm c req mem1 gas))))"

definition gasDelegateCall :: "'t gasFunc" where
  "gasDelegateCall E evm c st mem memorySize =
     (let (r, mem1) = memoryGasCost mem memorySize
      in case r of
           Inl err \<Rightarrow> Done (Inl err, evm, mem1)
         | Inr gas \<Rightarrow> and_then (stack_Back 0 st) (\<lambda>req. Done (finish_call_gas E evm c req mem1 gas)))"

definition gasStaticCall :: "'t gasFunc" where
  "gasStaticCall E evm c st mem memorySize =
     (let (r, mem1) = memoryGasCost mem memorySize
      in case r of
           Inl err \<Rightarrow> Done (Inl err, evm, mem1)
         | Inr gas \<Rightarrow> and_then (stack_Back 0 st) (\<lambda>req. Done (finish_call_gas E evm c req mem1 gas)))"

definition gasSelfdestruct :: "'t gasFunc" where
  "gasSelfdestruct E evm c st mem memorySize =
     (let X = env_X E; D = env_D E; rules = chainRules E
      in and_then
           (if IsEIP150 rules then
              and_then (stack_Back 0 st) (\<lambda>a.
                (let addr = u_Bytes20 X a
                 in if IsEIP158 rules then
                      (let (e, evm1) = lift_state (Empty X D addr) evm
                       in if e then
                            (let (b, evm2) = lift_state (GetBalance X D (self c)) evm1
                             in Done (if sgn b \<noteq> 0 then SelfdestructGasEIP150 + CreateBySelfdestructGas
                                      else SelfdestructGasEIP150, evm2))
                          else Done (SelfdestructGasEIP150, evm1))
                    else
                      (let (e, evm1) = lift_state (Exist X D addr) evm
                       in Done (if \<not> e then SelfdestructGasEIP150 + CreateBySelfdestructGas
                                else SelfdestructGasEIP150, evm1))))
            else Done (0, evm))
           (\<lambda>(gas, evm1).
              (let (suicided, evm2) = lift_state (HasSuicided X D (self c)) evm1
               in Done (Inr gas,
                    if \<not> suicided then on_state (AddRefund SelfdestructRefundGas) evm2 else evm2, mem))))"

end
