(* ===== verification/Crypto.thy ===== *)
theory Crypto
  imports External Rlp_Encode
begin

text \<open>
  The functions of \<open>crypto/crypto.go\<close> that consensus code relies on: the addresses of created
  contracts and the range check of signature values. Keccak-256 is the parameter \<open>keccak256\<close>.
\<close>

definition Keccak256 :: "ext \<Rightarrow> bytes list \<Rightarrow> bytes" where
  "Keccak256 X parts = Hash_Bytes (keccak256 X (concat parts))"

definition CreateAddress :: "ext \<Rightarrow> address \<Rightarrow> u64 \<Rightarrow> address outcome" where
  "CreateAddress X b nonce =
     and_then (EncodeToBytes (VSlice [VByteArray (Address_Bytes b), VUint nonce])) (\<lambda>r.
       (let d = (case r of Inr d \<Rightarrow> d | Inl _ \<Rightarrow> [])
        in Done (BytesToAddress (drop 12 (Keccak256 X [d])))))"

definition CreateAddress2 :: "ext \<Rightarrow> address \<Rightarrow> hash \<Rightarrow> bytes \<Rightarrow> address" where
  "CreateAddress2 X b salt inithash =
     BytesToAddress (drop 12 (Keccak256 X [[0xff], Address_Bytes b, Hash_Bytes salt, inithash]))"

definition secp256k1N :: int where
  "secp256k1N = 0xfffffffffffffffffffffffffffffffebaaedce6af48a03bbfd25e8cd0364141"

definition secp256k1halfN :: int where
  "secp256k1halfN = secp256k1N div 2"

definition ValidateSignatureValues :: "u8 \<Rightarrow> int \<Rightarrow> int \<Rightarrow> bool \<Rightarrow> bool" where
  "ValidateSignatureValues v r s homestead =
     (if r < 1 \<or> s < 1 then False
      else if homestead \<and> s > secp256k1halfN then False
      else r < secp256k1N \<and> s < secp256k1N \<and> (v = 0 \<or> v = 1))"

section \<open>Facts\<close>

text \<open>The low 20 bytes of the hash of the RLP list of the creator and its nonce.\<close>

lemma CreateAddress_formula:
  "CreateAddress X b nonce =
     Done (BytesToAddress (drop 12 (Hash_Bytes
       (keccak256 X (rlp_list (rlp_string (Address_Bytes b) @ rlp_ref (VUint nonce)))))))"
proof -
  let ?v = "VSlice [VByteArray (Address_Bytes b), VUint nonce]"
  have short: "length (rlp_string s) \<le> length s + 1" "length (rlp_list s) \<le> length s + 1" if "length s < 56" for s
    using that by (simp_all add: rlp_string_def rlp_list_def rlp_head_def)
  let ?c = "rlp_string (Address_Bytes b) @ rlp_string (min_be (unat nonce))"
  have "length ?c \<le> 30" using length_min_be_unat [of nonce] short(1) [of "min_be (unat nonce)"]
      short(1) [of "Address_Bytes b"] by simp
  then have "length (rlp_list ?c) < 2 ^ 64" using short(2) [of ?c] by simp
  then have "EncodeToBytes ?v = Done (Inr (rlp_ref ?v))" by (intro EncodeToBytes_ref) simp_all
  then show ?thesis by (simp add: CreateAddress_def Keccak256_def)
qed

text \<open>Of a signature and its mirror image \<open>N - s\<close>, the homestead rule accepts exactly one.\<close>

lemma homestead_rejects_mirror:
  assumes "ValidateSignatureValues v r s False"
  shows "ValidateSignatureValues v r s True \<longleftrightarrow> \<not> ValidateSignatureValues v r (secp256k1N - s) True"
  using assms by (auto simp: ValidateSignatureValues_def secp256k1halfN_def secp256k1N_def split: if_splits)

end
