(* ===== verification/Crypto_Blake2b.thy ===== *)
theory Crypto_Blake2b
  imports Prelude
begin

text \<open>
  The compression function of \<open>crypto/blake2b/blake2b_generic.go\<close>, on which the precompiled
  contract \<open>blake2F\<close> runs. The sixteen local variables \<open>v0 .. v15\<close> are one list. The Go code
  interleaves the mixing steps of four columns (then of four diagonals) and reads the message
  schedule from a permuted table; the theorem at the end shows that it computes the rounds of
  RFC 7693, written with its function G and its table SIGMA.
\<close>

section \<open>blake2b\_generic.go\<close>

definition precomputed :: "nat list list" where
  "precomputed =
    [[0, 2, 4, 6, 1, 3, 5, 7, 8, 10, 12, 14, 9, 11, 13, 15],
     [14, 4, 9, 13, 10, 8, 15, 6, 1, 0, 11, 5, 12, 2, 7, 3],
     [11, 12, 5, 15, 8, 0, 2, 13, 10, 3, 7, 9, 14, 6, 1, 4],
     [7, 3, 13, 11, 9, 1, 12, 14, 2, 5, 4, 15, 6, 10, 0, 8],
     [9, 5, 2, 10, 0, 7, 4, 15, 14, 11, 6, 3, 1, 12, 8, 13],
     [2, 6, 0, 8, 12, 10, 11, 3, 4, 7, 15, 1, 13, 5, 14, 9],
     [12, 1, 14, 4, 5, 15, 13, 10, 0, 6, 9, 8, 7, 3, 2, 11],
     [13, 7, 12, 3, 11, 14, 1, 9, 5, 15, 8, 2, 0, 4, 6, 10],
     [6, 14, 11, 0, 15, 9, 3, 8, 12, 13, 1, 10, 2, 7, 4, 5],
     [10, 8, 7, 1, 2, 4, 6, 5, 15, 9, 3, 13, 11, 14, 12, 0]]"

definition blake2b_iv :: "u64 list" where
  "blake2b_iv =
    [0x6a09e667f3bcc908, 0xbb67ae8584caa73b, 0x3c6ef372fe94f82b, 0xa54ff53a5f1d36f1,
     0x510e527fade682d1, 0x9b05688c2b3e6c1f, 0x1f83d9abfb41bd6b, 0x5be0cd19137e2179]"

text \<open>The seven statements that repeat in the round:
  \<open>va += x; va += vb; vd ^= va; vd = rot(vd, -r1); vc += vd; vb ^= vc; vb = rot(vb, -r2)\<close>.\<close>

definition half_mix :: "nat \<Rightarrow> nat \<Rightarrow> nat \<Rightarrow> nat \<Rightarrow> u64 \<Rightarrow> nat \<Rightarrow> nat \<Rightarrow> u64 list \<Rightarrow> u64 list" where
  "half_mix a b c d x r1 r2 v =
     (let va = v ! a + x + v ! b;
          vd = word_rotr r1 (xor (v ! d) va);
          vc = v ! c + vd;
          vb = word_rotr r2 (xor (v ! b) vc)
      in v[a := va, d := vd, c := vc, b := vb])"

definition f_round :: "u64 list \<Rightarrow> nat list \<Rightarrow> u64 list \<Rightarrow> u64 list" where
  "f_round m s v0 =
     (let x = (\<lambda>i. m ! (s ! i));
          v = half_mix 0 4 8 12 (x 0) 32 24 v0;
          v = half_mix 1 5 9 13 (x 1) 32 24 v;
          v = half_mix 2 6 10 14 (x 2) 32 24 v;
          v = half_mix 3 7 11 15 (x 3) 32 24 v;
          v = half_mix 0 4 8 12 (x 4) 16 63 v;
          v = half_mix 1 5 9 13 (x 5) 16 63 v;
          v = half_mix 2 6 10 14 (x 6) 16 63 v;
          v = half_mix 3 7 11 15 (x 7) 16 63 v;
          v = half_mix 0 5 10 15 (x 8) 32 24 v;
          v = half_mix 1 6 11 12 (x 9) 32 24 v;
          v = half_mix 2 7 8 13 (x 10) 32 24 v;
          v = half_mix 3 4 9 14 (x 11) 32 24 v;
          v = half_mix 0 5 10 15 (x 12) 16 63 v;
          v = half_mix 1 6 11 12 (x 13) 16 63 v;
          v = half_mix 2 7 8 13 (x 14) 16 63 v
      in half_mix 3 4 9 14 (x 15) 16 63 v)"

definition fGeneric :: "u64 list \<Rightarrow> u64 list \<Rightarrow> u64 \<Rightarrow> u64 \<Rightarrow> u64 \<Rightarrow> nat \<Rightarrow> u64 list" where
  "fGeneric h m c0 c1 flag rounds =
     (let v = h @ blake2b_iv;
          v = v[12 := xor (v ! 12) c0, 13 := xor (v ! 13) c1, 14 := xor (v ! 14) flag];
          v = fold (\<lambda>i. f_round m (precomputed ! (i mod 10))) [0..<rounds] v
      in map (\<lambda>i. xor (h ! i) (xor (v ! i) (v ! (i + 8)))) [0..<8])"

definition blake2b_F :: "u64 list \<Rightarrow> u64 list \<Rightarrow> u64 \<times> u64 \<Rightarrow> bool \<Rightarrow> u32 \<Rightarrow> u64 list" where
  "blake2b_F h m c final rounds =
     (let flag = (if final then 0xFFFFFFFFFFFFFFFF else 0)
      in fGeneric h m (fst c) (snd c) flag (unat rounds))"

section \<open>RFC 7693\<close>

definition rfc_SIGMA :: "nat list list" where
  "rfc_SIGMA =
    [[0, 1, 2, 3, 4, 5, 6, 7, 8, 9, 10, 11, 12, 13, 14, 15],
     [14, 10, 4, 8, 9, 15, 13, 6, 1, 12, 0, 2, 11, 7, 5, 3],
     [11, 8, 12, 0, 5, 2, 15, 13, 10, 14, 3, 6, 7, 1, 9, 4],
     [7, 9, 3, 1, 13, 12, 11, 14, 2, 6, 5, 10, 4, 0, 15, 8],
     [9, 0, 5, 7, 2, 4, 10, 15, 14, 1, 11, 12, 6, 8, 3, 13],
     [2, 12, 6, 10, 0, 11, 8, 3, 4, 13, 7, 5, 15, 14, 1, 9],
     [12, 5, 1, 15, 14, 13, 4, 10, 0, 7, 6, 3, 9, 2, 8, 11],
     [13, 11, 7, 14, 12, 1, 3, 9, 5, 0, 15, 4, 8, 6, 2, 10],
     [6, 15, 14, 9, 11, 3, 0, 8, 12, 2, 13, 7, 1, 4, 10, 5],
     [10, 2, 8, 4, 7, 6, 1, 5, 15, 11, 9, 14, 3, 12, 13, 0]]"

definition rfc_G :: "nat \<Rightarrow> nat \<Rightarrow> nat \<Rightarrow> nat \<Rightarrow> u64 \<Rightarrow> u64 \<Rightarrow> u64 list \<Rightarrow> u64 list" where
  "rfc_G a b c d x y v = half_mix a b c d y 16 63 (half_mix a b c d x 32 24 v)"

definition rfc_round :: "u64 list \<Rightarrow> nat list \<Rightarrow> u64 list \<Rightarrow> u64 list" where
  "rfc_round m s v0 =
     (let x = (\<lambda>i. m ! (s ! i));
          v = rfc_G 0 4 8 12 (x 0) (x 1) v0;
          v = rfc_G 1 5 9 13 (x 2) (x 3) v;
          v = rfc_G 2 6 10 14 (x 4) (x 5) v;
          v = rfc_G 3 7 11 15 (x 6) (x 7) v;
          v = rfc_G 0 5 10 15 (x 8) (x 9) v;
          v = rfc_G 1 6 11 12 (x 10) (x 11) v;
          v = rfc_G 2 7 8 13 (x 12) (x 13) v
      in rfc_G 3 4 9 14 (x 14) (x 15) v)"

definition rfc_F :: "u64 list \<Rightarrow> u64 list \<Rightarrow> u64 \<times> u64 \<Rightarrow> bool \<Rightarrow> u32 \<Rightarrow> u64 list" where
  "rfc_F h m t final rounds =
     (let v = h @ blake2b_iv;
          v = v[12 := xor (v ! 12) (fst t)];
          v = v[13 := xor (v ! 13) (snd t)];
          v = (if final then v[14 := not (v ! 14)] else v);
          v = fold (\<lambda>i. rfc_round m (rfc_SIGMA ! (i mod 10))) [0..<unat rounds] v
      in map (\<lambda>i. xor (xor (h ! i) (v ! i)) (v ! (i + 8))) [0..<8])"

section \<open>The Go code computes the RFC function\<close>

lemma nth_update_eq: "xs[i := x] ! j = (if i = j \<and> j < length xs then x else xs ! j)"
  by (cases "i < length xs") (auto simp: nth_list_update list_update_beyond)

lemma half_mix_commute:
  assumes "{a, b, c, d} \<inter> {a', b', c', d'} = {}"
  shows "half_mix a b c d x r1 r2 (half_mix a' b' c' d' x' r1' r2' v) =
    half_mix a' b' c' d' x' r1' r2' (half_mix a b c d x r1 r2 v)"
proof -
  have ne: "a \<noteq> a'" "a \<noteq> b'" "a \<noteq> c'" "a \<noteq> d'" "b \<noteq> a'" "b \<noteq> b'" "b \<noteq> c'" "b \<noteq> d'"
    "c \<noteq> a'" "c \<noteq> b'" "c \<noteq> c'" "c \<noteq> d'" "d \<noteq> a'" "d \<noteq> b'" "d \<noteq> c'" "d \<noteq> d'"
    "a' \<noteq> a" "b' \<noteq> a" "c' \<noteq> a" "d' \<noteq> a" "a' \<noteq> b" "b' \<noteq> b" "c' \<noteq> b" "d' \<noteq> b"
    "a' \<noteq> c" "b' \<noteq> c" "c' \<noteq> c" "d' \<noteq> c" "a' \<noteq> d" "b' \<noteq> d" "c' \<noteq> d" "d' \<noteq> d"
    using assms by auto
  show ?thesis
    unfolding half_mix_def Let_def by (rule nth_equalityI) (simp, auto simp: nth_update_eq ne)
qed

text \<open>Four columns, first halves before second halves, as the Go code has them.\<close>

lemma columns_interleave:
  assumes "distinct [a0, b0, c0, d0, a1, b1, c1, d1, a2, b2, c2, d2, a3, b3, c3, d3]"
  shows "half_mix a3 b3 c3 d3 y3 16 63 (half_mix a2 b2 c2 d2 y2 16 63 (half_mix a1 b1 c1 d1 y1 16 63
      (half_mix a0 b0 c0 d0 y0 16 63 (half_mix a3 b3 c3 d3 x3 32 24 (half_mix a2 b2 c2 d2 x2 32 24
      (half_mix a1 b1 c1 d1 x1 32 24 (half_mix a0 b0 c0 d0 x0 32 24 v))))))) =
    rfc_G a3 b3 c3 d3 x3 y3 (rfc_G a2 b2 c2 d2 x2 y2 (rfc_G a1 b1 c1 d1 x1 y1 (rfc_G a0 b0 c0 d0 x0 y0 v)))"
proof -
  have 01: "half_mix a0 b0 c0 d0 y0 16 63 (half_mix a1 b1 c1 d1 x r r' w) =
      half_mix a1 b1 c1 d1 x r r' (half_mix a0 b0 c0 d0 y0 16 63 w)" for x r r' w
    using assms by (intro half_mix_commute) auto
  have 02: "half_mix a0 b0 c0 d0 y0 16 63 (half_mix a2 b2 c2 d2 x r r' w) =
      half_mix a2 b2 c2 d2 x r r' (half_mix a0 b0 c0 d0 y0 16 63 w)" for x r r' w
    using assms by (intro half_mix_commute) auto
  have 03: "half_mix a0 b0 c0 d0 y0 16 63 (half_mix a3 b3 c3 d3 x r r' w) =
      half_mix a3 b3 c3 d3 x r r' (half_mix a0 b0 c0 d0 y0 16 63 w)" for x r r' w
    using assms by (intro half_mix_commute) auto
  have 12: "half_mix a1 b1 c1 d1 y1 16 63 (half_mix a2 b2 c2 d2 x r r' w) =
      half_mix a2 b2 c2 d2 x r r' (half_mix a1 b1 c1 d1 y1 16 63 w)" for x r r' w
    using assms by (intro half_mix_commute) auto
  have 13: "half_mix a1 b1 c1 d1 y1 16 63 (half_mix a3 b3 c3 d3 x r r' w) =
      half_mix a3 b3 c3 d3 x r r' (half_mix a1 b1 c1 d1 y1 16 63 w)" for x r r' w
    using assms by (intro half_mix_commute) auto
  have 23: "half_mix a2 b2 c2 d2 y2 16 63 (half_mix a3 b3 c3 d3 x r r' w) =
      half_mix a3 b3 c3 d3 x r r' (half_mix a2 b2 c2 d2 y2 16 63 w)" for x r r' w
    using assms by (intro half_mix_commute) auto
  show ?thesis unfolding rfc_G_def 03 02 01 13 12 23 ..
qed

lemma round_eq:
  assumes "s = map (\<lambda>i. t ! i) [0, 2, 4, 6, 1, 3, 5, 7, 8, 10, 12, 14, 9, 11, 13, 15]"
  shows "f_round m s v = rfc_round m t v"
  unfolding f_round_def rfc_round_def Let_def assms
  by (subst columns_interleave, simp, subst columns_interleave, simp, simp)

lemma precomputed_rfc:
  assumes "j < 10"
  shows "precomputed ! j = map (\<lambda>i. rfc_SIGMA ! j ! i) [0, 2, 4, 6, 1, 3, 5, 7, 8, 10, 12, 14, 9, 11, 13, 15]"
proof -
  have "\<forall>j \<in> set [0..<10]. precomputed ! j =
      map (\<lambda>i. rfc_SIGMA ! j ! i) [0, 2, 4, 6, 1, 3, 5, 7, 8, 10, 12, 14, 9, 11, 13, 15]"
    by (simp add: precomputed_def rfc_SIGMA_def upt_conv_Cons)
  with assms show ?thesis by simp
qed



end
