(* ===== verification/Vm_Precompiles.thy ===== *)
theory Vm_Precompiles
  imports Crypto Crypto_Blake2b Vm_Contract Vm_Memory Params
begin

text \<open>
  \<open>core/vm/contracts.go\<close>: the precompiled contracts, one constructor per Go type, with their
  gas functions, the parsing of their inputs and the tables that select them. The curve
  arithmetic (packages \<open>bn256\<close>, \<open>bls12381\<close>, \<open>secp256k1\<close>) and the SHA-256 and RIPEMD-160
  functions are the parameters \<open>curve_run\<close>, \<open>Ecrecover\<close>, \<open>sha256_Sum256\<close> and \<open>ripemd160_Sum\<close>.
  An empty list stands for a nil slice.
\<close>

section \<open>Contracts and tables\<close>

datatype PrecompiledContract =
    ecrecover | sha256hash | ripemd160hash | dataCopy | bigModExp
  | bn256AddByzantium | bn256ScalarMulByzantium | bn256PairingByzantium
  | bn256AddIstanbul | bn256ScalarMulIstanbul | bn256PairingIstanbul | blake2F
  | bls12381G1Add | bls12381G1Mul | bls12381G1MultiExp
  | bls12381G2Add | bls12381G2Mul | bls12381G2MultiExp
  | bls12381Pairing | bls12381MapG1 | bls12381MapG2

definition PrecompiledContractsHomestead :: "address \<rightharpoonup> PrecompiledContract" where
  "PrecompiledContractsHomestead =
     [1 \<mapsto> ecrecover, 2 \<mapsto> sha256hash, 3 \<mapsto> ripemd160hash, 4 \<mapsto> dataCopy]"

definition PrecompiledContractsByzantium :: "address \<rightharpoonup> PrecompiledContract" where
  "PrecompiledContractsByzantium =
     [1 \<mapsto> ecrecover, 2 \<mapsto> sha256hash, 3 \<mapsto> ripemd160hash, 4 \<mapsto> dataCopy, 5 \<mapsto> bigModExp,
      6 \<mapsto> bn256AddByzantium, 7 \<mapsto> bn256ScalarMulByzantium, 8 \<mapsto> bn256PairingByzantium]"

definition PrecompiledContractsIstanbul :: "address \<rightharpoonup> PrecompiledContract" where
  "PrecompiledContractsIstanbul =
     [1 \<mapsto> ecrecover, 2 \<mapsto> sha256hash, 3 \<mapsto> ripemd160hash, 4 \<mapsto> dataCopy, 5 \<mapsto> bigModExp,
      6 \<mapsto> bn256AddIstanbul, 7 \<mapsto> bn256ScalarMulIstanbul, 8 \<mapsto> bn256PairingIstanbul, 9 \<mapsto> blake2F]"

definition PrecompiledContractsYoloV1 :: "address \<rightharpoonup> PrecompiledContract" where
  "PrecompiledContractsYoloV1 =
     [1 \<mapsto> ecrecover, 2 \<mapsto> sha256hash, 3 \<mapsto> ripemd160hash, 4 \<mapsto> dataCopy, 5 \<mapsto> bigModExp,
      6 \<mapsto> bn256AddIstanbul, 7 \<mapsto> bn256ScalarMulIstanbul, 8 \<mapsto> bn256PairingIstanbul, 9 \<mapsto> blake2F,
      10 \<mapsto> bls12381G1Add, 11 \<mapsto> bls12381G1Mul, 12 \<mapsto> bls12381G1MultiExp,
      13 \<mapsto> bls12381G2Add, 14 \<mapsto> bls12381G2Mul, 15 \<mapsto> bls12381G2MultiExp,
      16 \<mapsto> bls12381Pairing, 17 \<mapsto> bls12381MapG1, 18 \<mapsto> bls12381MapG2]"

section \<open>Gas\<close>

definition Bls12381MultiExpDiscountTable :: "u64 list" where
  "Bls12381MultiExpDiscountTable = [
     1200, 888, 764, 641, 594, 547, 500, 453, 438, 423, 408, 394, 379, 364, 349, 334,
     330, 326, 322, 318, 314, 310, 306, 302, 298, 294, 289, 285, 281, 277, 273, 269,
     268, 266, 265, 263, 262, 260, 259, 257, 256, 254, 253, 251, 250, 248, 247, 245,
     244, 242, 241, 239, 238, 236, 235, 233, 232, 231, 229, 228, 226, 225, 223, 222,
     221, 220, 219, 219, 218, 217, 216, 216, 215, 214, 213, 213, 212, 211, 211, 210,
     209, 208, 208, 207, 206, 205, 205, 204, 203, 202, 202, 201, 200, 199, 199, 198,
     197, 196, 196, 195, 194, 193, 193, 192, 191, 191, 190, 189, 188, 188, 187, 186,
     185, 185, 184, 183, 182, 182, 181, 180, 179, 179, 178, 177, 176, 176, 175, 174]"

definition multi_exp_gas :: "nat \<Rightarrow> u64 \<Rightarrow> bytes \<Rightarrow> u64" where
  "multi_exp_gas pair mulGas input =
     (let k = length input div pair
      in if k = 0 then 0
         else
           (let dLen = length Bls12381MultiExpDiscountTable;
                discount = (if k < dLen then Bls12381MultiExpDiscountTable ! (k - 1)
                            else Bls12381MultiExpDiscountTable ! (dLen - 1))
            in (of_nat k * mulGas * discount) div 1000))"

text \<open>\<open>new(big.Int).SetBytes(getData(input, start, size))\<close>.\<close>

definition big_data :: "bytes \<Rightarrow> u64 \<Rightarrow> u64 \<Rightarrow> nat outcome" where
  "big_data input start sz = and_then (getData input start sz) (\<lambda>d. Done (be_nat d))"

definition bigModExp_gas :: "nat \<Rightarrow> nat \<Rightarrow> nat \<Rightarrow> nat \<Rightarrow> u64" where
  "bigModExp_gas baseLen expLen modLen expHead =
     (let msb = big_BitLen expHead - 1;
          adjExpLen = (if expLen > 32 then 8 * (expLen - 32) else 0) + msb;
          gas = max modLen baseLen;
          gas = (if gas \<le> 64 then gas * gas
                 else if gas \<le> 1024 then gas * gas div 4 + (96 * gas - 3072)
                 else gas * gas div 16 + (480 * gas - 199680));
          gas = gas * max adjExpLen 1 div unat ModExpQuadCoeffDiv
      in if gas \<ge> 2 ^ 64 then MaxUint64 else of_nat gas)"

definition bigModExp_RequiredGas :: "bytes \<Rightarrow> u64 outcome" where
  "bigModExp_RequiredGas input0 =
     and_then (big_data input0 0 32) (\<lambda>baseLen. and_then (big_data input0 32 32) (\<lambda>expLen.
     and_then (big_data input0 64 32) (\<lambda>modLen.
       (let input = drop 96 input0
        in and_then
             (if length input \<le> baseLen then Done 0
              else if expLen > 32 then big_data input (of_nat baseLen) 32
              else big_data input (of_nat baseLen) (of_nat expLen))
             (\<lambda>expHead. Done (bigModExp_gas baseLen expLen modLen expHead))))))"

fun RequiredGas :: "PrecompiledContract \<Rightarrow> bytes \<Rightarrow> u64 outcome" where
  "RequiredGas ecrecover input = Done EcrecoverGas"
| "RequiredGas sha256hash input = Done (of_nat (length input + 31) div 32 * Sha256PerWordGas + Sha256BaseGas)"
| "RequiredGas ripemd160hash input = Done (of_nat (length input + 31) div 32 * Ripemd160PerWordGas + Ripemd160BaseGas)"
| "RequiredGas dataCopy input = Done (of_nat (length input + 31) div 32 * IdentityPerWordGas + IdentityBaseGas)"
| "RequiredGas bigModExp input = bigModExp_RequiredGas input"
| "RequiredGas bn256AddByzantium input = Done Bn256AddGasByzantium"
| "RequiredGas bn256AddIstanbul input = Done Bn256AddGasIstanbul"
| "RequiredGas bn256ScalarMulByzantium input = Done Bn256ScalarMulGasByzantium"
| "RequiredGas bn256ScalarMulIstanbul input = Done Bn256ScalarMulGasIstanbul"
| "RequiredGas bn256PairingByzantium input =
     Done (Bn256PairingBaseGasByzantium + of_nat (length input div 192) * Bn256PairingPerPointGasByzantium)"
| "RequiredGas bn256PairingIstanbul input =
     Done (Bn256PairingBaseGasIstanbul + of_nat (length input div 192) * Bn256PairingPerPointGasIstanbul)"
| "RequiredGas blake2F input =
     Done (if length input \<noteq> 213 then 0 else of_nat (be_nat (slice input 0 4)))"
| "RequiredGas bls12381G1Add input = Done Bls12381G1AddGas"
| "RequiredGas bls12381G1Mul input = Done Bls12381G1MulGas"
| "RequiredGas bls12381G1MultiExp input = Done (multi_exp_gas 160 Bls12381G1MulGas input)"
| "RequiredGas bls12381G2Add input = Done Bls12381G2AddGas"
| "RequiredGas bls12381G2Mul input = Done Bls12381G2MulGas"
| "RequiredGas bls12381G2MultiExp input = Done (multi_exp_gas 288 Bls12381G2MulGas input)"
| "RequiredGas bls12381Pairing input =
     Done (Bls12381PairingBaseGas + of_nat (length input div 384) * Bls12381PairingPerPairGas)"
| "RequiredGas bls12381MapG1 input = Done Bls12381MapG1Gas"
| "RequiredGas bls12381MapG2 input = Done Bls12381MapG2Gas"

section \<open>Running\<close>

type_synonym precompile_result = "(bytes \<times> evm_error option) outcome"

definition ecrecover_Run :: "ext \<Rightarrow> bytes \<Rightarrow> bytes" where
  "ecrecover_Run X input0 =
     (let input = RightPadBytes input0 128;
          r = int (be_nat (slice input 64 96));
          s = int (be_nat (slice input 96 128));
          v = input ! 63 - 27
      in if \<not> allZero (slice input 32 63) \<or> \<not> ValidateSignatureValues v r s False then []
         else case Ecrecover X (slice input 0 32) (slice input 64 128 @ [v]) of
                None \<Rightarrow> []
              | Some pubKey \<Rightarrow> LeftPadBytes (drop 12 (Keccak256 X [drop 1 pubKey])) 32)"

definition bigModExp_Run :: "bytes \<Rightarrow> bytes outcome" where
  "bigModExp_Run input0 =
     and_then (big_data input0 0 32) (\<lambda>b. and_then (big_data input0 32 32) (\<lambda>e.
     and_then (big_data input0 64 32) (\<lambda>m.
       (let baseLen = of_nat b :: u64; expLen = of_nat e :: u64; modLen = of_nat m :: u64;
            input = drop 96 input0
        in if baseLen = 0 \<and> modLen = 0 then Done []
           else and_then (big_data input 0 baseLen) (\<lambda>base.
                and_then (big_data input baseLen expLen) (\<lambda>ex.
                and_then (big_data input (baseLen + expLen) modLen) (\<lambda>md.
                  Done (if md = 0 then LeftPadBytes [] (nat (sint modLen))
                        else LeftPadBytes (min_be (base ^ ex mod md)) (nat (sint modLen))))))))))"

definition curve_result :: "string + bytes \<Rightarrow> bytes \<times> evm_error option" where
  "curve_result r = (case r of Inl e \<Rightarrow> ([], Some (ErrOther e)) | Inr b \<Rightarrow> (b, None))"

definition runBn256Add :: "ext \<Rightarrow> bytes \<Rightarrow> precompile_result" where
  "runBn256Add X input =
     and_then (getData input 0 64) (\<lambda>x. and_then (getData input 64 64) (\<lambda>y.
       Done (curve_result (curve_run X Bn256Add [x, y]))))"

definition runBn256ScalarMul :: "ext \<Rightarrow> bytes \<Rightarrow> precompile_result" where
  "runBn256ScalarMul X input =
     and_then (getData input 0 64) (\<lambda>p. and_then (getData input 64 32) (\<lambda>k.
       Done (curve_result (curve_run X Bn256ScalarMul [p, k]))))"

text \<open>The pieces \<open>input[i:i+n1], input[i+n1:i+n1+n2]\<close> of \<open>k\<close> consecutive pairs.\<close>

definition pair_chunks :: "nat \<Rightarrow> nat \<Rightarrow> nat \<Rightarrow> bytes \<Rightarrow> bytes list" where
  "pair_chunks n1 n2 k input =
     concat (map (\<lambda>i. let off = (n1 + n2) * i
                        in [slice input off (off + n1), slice input (off + n1) (off + n1 + n2)]) [0..<k])"

definition runBn256Pairing :: "ext \<Rightarrow> bytes \<Rightarrow> bytes \<times> evm_error option" where
  "runBn256Pairing X input =
     (if length input mod 192 > 0 then ([], Some (ErrOther ''bad elliptic curve pairing size''))
      else curve_result (curve_run X Bn256Pairing (pair_chunks 64 128 (length input div 192) input)))"

definition le_u64 :: "bytes \<Rightarrow> u64" where
  "le_u64 b = of_nat (be_nat (rev b))"

definition put_le_u64 :: "u64 \<Rightarrow> bytes" where
  "put_le_u64 w = rev (be_bytes 8 w)"

definition blake2F_Run :: "bytes \<Rightarrow> bytes \<times> evm_error option" where
  "blake2F_Run input =
     (if length input \<noteq> 213 then ([], Some (ErrOther ''invalid input length''))
      else if input ! 212 \<noteq> 0 \<and> input ! 212 \<noteq> 1 then ([], Some (ErrOther ''invalid final flag''))
      else
        (let rounds = of_nat (be_nat (slice input 0 4)) :: u32;
             final = (input ! 212 = 1);
             word = (\<lambda>offset. le_u64 (slice input offset (offset + 8)));
             h = map (\<lambda>i. word (4 + i * 8)) [0..<8];
             m = map (\<lambda>i. word (68 + i * 8)) [0..<16];
             h' = blake2b_F h m (word 196, word 204) final rounds
         in (concat (map put_le_u64 h'), None)))"

definition bls_sized :: "nat \<Rightarrow> bytes \<Rightarrow> bytes \<times> evm_error option \<Rightarrow> bytes \<times> evm_error option" where
  "bls_sized n input r =
     (if length input \<noteq> n then ([], Some (ErrOther ''invalid input length'')) else r)"

definition bls_multi :: "nat \<Rightarrow> bytes \<Rightarrow> bytes \<times> evm_error option \<Rightarrow> bytes \<times> evm_error option" where
  "bls_multi n input r =
     (if length input = 0 \<or> length input mod n \<noteq> 0
      then ([], Some (ErrOther ''invalid input length'')) else r)"

definition decodeBLS12381FieldElement :: "bytes \<Rightarrow> string + bytes" where
  "decodeBLS12381FieldElement inp =
     (if length inp \<noteq> 64 then Inl ''invalid field element length''
      else if \<exists>b \<in> set (take 16 inp). b \<noteq> 0 then Inl ''invalid field element top bytes''
      else Inr (drop 16 inp))"

definition bls12381MapG1_Run :: "ext \<Rightarrow> bytes \<Rightarrow> bytes \<times> evm_error option" where
  "bls12381MapG1_Run X input =
     bls_sized 64 input
       (case decodeBLS12381FieldElement input of
          Inl e \<Rightarrow> ([], Some (ErrOther e))
        | Inr fe \<Rightarrow> curve_result (curve_run X BlsMapG1 [fe]))"

definition bls12381MapG2_Run :: "ext \<Rightarrow> bytes \<Rightarrow> bytes \<times> evm_error option" where
  "bls12381MapG2_Run X input =
     bls_sized 128 input
       (case decodeBLS12381FieldElement (take 64 input) of
          Inl e \<Rightarrow> ([], Some (ErrOther e))
        | Inr c0 \<Rightarrow>
            (case decodeBLS12381FieldElement (drop 64 input) of
               Inl e \<Rightarrow> ([], Some (ErrOther e))
             | Inr c1 \<Rightarrow> curve_result (curve_run X BlsMapG2 [c1 @ c0])))"

fun precompile_Run :: "ext \<Rightarrow> PrecompiledContract \<Rightarrow> bytes \<Rightarrow> precompile_result" where
  "precompile_Run X ecrecover input = Done (ecrecover_Run X input, None)"
| "precompile_Run X sha256hash input = Done (sha256_Sum256 X input, None)"
| "precompile_Run X ripemd160hash input = Done (LeftPadBytes (ripemd160_Sum X input) 32, None)"
| "precompile_Run X dataCopy input = Done (input, None)"
| "precompile_Run X bigModExp input = and_then (bigModExp_Run input) (\<lambda>b. Done (b, None))"
| "precompile_Run X bn256AddByzantium input = runBn256Add X input"
| "precompile_Run X bn256AddIstanbul input = runBn256Add X input"
| "precompile_Run X bn256ScalarMulByzantium input = runBn256ScalarMul X input"
| "precompile_Run X bn256ScalarMulIstanbul input = runBn256ScalarMul X input"
| "precompile_Run X bn256PairingByzantium input = Done (runBn256Pairing X input)"
| "precompile_Run X bn256PairingIstanbul input = Done (runBn256Pairing X input)"
| "precompile_Run X blake2F input = Done (blake2F_Run input)"
| "precompile_Run X bls12381G1Add input =
     Done (bls_sized 256 input (curve_result (curve_run X BlsG1Add [take 128 input, drop 128 input])))"
| "precompile_Run X bls12381G1Mul input =
     Done (bls_sized 160 input (curve_result (curve_run X BlsG1Mul [take 128 input, drop 128 input])))"
| "precompile_Run X bls12381G1MultiExp input =
     Done (bls_multi 160 input
       (curve_result (curve_run X BlsG1MultiExp (pair_chunks 128 32 (length input div 160) input))))"
| "precompile_Run X bls12381G2Add input =
     Done (bls_sized 512 input (curve_result (curve_run X BlsG2Add [take 256 input, drop 256 input])))"
| "precompile_Run X bls12381G2Mul input =
     Done (bls_sized 288 input (curve_result (curve_run X BlsG2Mul [take 256 input, drop 256 input])))"
| "precompile_Run X bls12381G2MultiExp input =
     Done (bls_multi 288 input
       (curve_result (curve_run X BlsG2MultiExp (pair_chunks 256 32 (length input div 288) input))))"
| "precompile_Run X bls12381Pairing input =
     Done (bls_multi 384 input
       (curve_result (curve_run X BlsPairing (pair_chunks 128 256 (length input div 384) input))))"
| "precompile_Run X bls12381MapG1 input = Done (bls12381MapG1_Run X input)"
| "precompile_Run X bls12381MapG2 input = Done (bls12381MapG2_Run X input)"

text \<open>\<open>RunPrecompiledContract\<close> returns the output, the remaining gas and the error.\<close>

definition RunPrecompiledContract ::
    "ext \<Rightarrow> PrecompiledContract \<Rightarrow> bytes \<Rightarrow> u64 \<Rightarrow> (bytes \<times> u64 \<times> evm_error option) outcome" where
  "RunPrecompiledContract X p input suppliedGas =
     and_then (RequiredGas p input) (\<lambda>gasCost.
       if suppliedGas < gasCost then Done ([], 0, Some ErrOutOfGas)
       else and_then (precompile_Run X p input) (\<lambda>(output, err). Done (output, suppliedGas - gasCost, err)))"

section \<open>Facts\<close>

lemma RunPrecompiledContract_gas:
  "RunPrecompiledContract X p input g = Done (out, g', err) \<Longrightarrow> g' \<le> g"
  by (auto simp: RunPrecompiledContract_def and_then_iffs word_sub_le not_less split: if_splits)

lemma precompile_NoFuel [simp]:
  "getData d a n \<noteq> NoFuel" "big_data d a n \<noteq> NoFuel" "RequiredGas p input \<noteq> NoFuel"
  "precompile_Run X p input \<noteq> NoFuel" "RunPrecompiledContract X p input g \<noteq> NoFuel"
proof -
  show gd: "getData d a n \<noteq> NoFuel" for d a n by (simp add: getData_def Let_def)
  show bd: "big_data d a n \<noteq> NoFuel" for d a n by (simp add: big_data_def and_then_iffs gd)
  show rg: "RequiredGas p input \<noteq> NoFuel"
    by (cases p) (simp_all add: bigModExp_RequiredGas_def and_then_iffs bd Let_def)
  show run: "precompile_Run X p input \<noteq> NoFuel"
    by (cases p) (simp_all add: bigModExp_Run_def runBn256Add_def runBn256ScalarMul_def and_then_iffs bd gd Let_def)
  show "RunPrecompiledContract X p input g \<noteq> NoFuel"
    using rg run by (auto simp: RunPrecompiledContract_def and_then_iffs split: if_splits)
qed

end
