(* ===== verification/Vm_Evm.thy ===== *)
theory Vm_Evm
  imports Vm_Gas Vm_Precompiles
begin

text \<open>
  \<open>core/vm/evm.go\<close>: the message calls and contract creation, and the transfer functions of
  \<open>core/evm.go\<close>. Every call takes the interpreter's \<open>Run\<close> as the argument \<open>run\<close>; the
  interpreter ties the knot. A call returns the return slice, the remaining gas, the error, the
  EVM, and the shared map of jump destination analyses.
\<close>

section \<open>core/evm.go\<close>

definition CanTransfer :: "ext \<Rightarrow> 't Database \<Rightarrow> 't StateDB \<Rightarrow> address \<Rightarrow> int \<Rightarrow> bool \<times> 't StateDB" where
  "CanTransfer X D s addr amount = (let (b, s1) = GetBalance X D addr s in (b \<ge> amount, s1))"

definition Transfer :: "ext \<Rightarrow> 't Database \<Rightarrow> 't StateDB \<Rightarrow> address \<Rightarrow> address \<Rightarrow> int \<Rightarrow> 't StateDB" where
  "Transfer X D s sender recipient amount =
     AddBalance X D recipient amount (SubBalance X D sender amount s)"

section \<open>Calls\<close>

type_synonym jumpdest_map = "hash \<rightharpoonup> bitvec"
type_synonym 't called = "bytes \<times> u64 \<times> evm_error option \<times> 't EVM \<times> jumpdest_map"

fun ref_map :: "ContractRef \<Rightarrow> jumpdest_map" where
  "ref_map (ContractPtr _ _ _ jd) = jd"
| "ref_map (AccountRef _) = Map.empty"

definition precompile :: "'t env \<Rightarrow> address \<Rightarrow> PrecompiledContract option" where
  "precompile E addr =
     (let rules = chainRules E
      in (if IsYoloV1 rules then PrecompiledContractsYoloV1
          else if IsIstanbul rules then PrecompiledContractsIstanbul
          else if IsByzantium rules then PrecompiledContractsByzantium
          else PrecompiledContractsHomestead) addr)"

text \<open>\<open>run(evm, contract, input, readOnly)\<close> followed by \<open>gas = contract.Gas\<close>, and the same for a
  precompiled contract.\<close>

definition run_contract ::
    "'t runner \<Rightarrow> 't EVM \<Rightarrow> Contract \<Rightarrow> bytes \<Rightarrow> bool \<Rightarrow> 't called outcome" where
  "run_contract run evm contract input ro =
     and_then (run evm contract input ro) (\<lambda>(ret, err, evm1, c1). Done (ret, Gas c1, err, evm1, jumpdests c1))"

definition run_precompile ::
    "'t env \<Rightarrow> PrecompiledContract \<Rightarrow> 't EVM \<Rightarrow> jumpdest_map \<Rightarrow> bytes \<Rightarrow> u64 \<Rightarrow> 't called outcome" where
  "run_precompile E p evm jd input gas =
     and_then (RunPrecompiledContract (env_X E) p input gas) (\<lambda>(ret, gas1, err). Done (ret, gas1, err, evm, jd))"

text \<open>The end of every call: on an error the state reverts to the snapshot, and all gas is consumed
  unless the contract itself reverted.\<close>

definition end_call :: "'t env \<Rightarrow> nat \<Rightarrow> 't called \<Rightarrow> 't called outcome" where
  "end_call E snapshot = (\<lambda>(ret, gas, err, evm, jd).
     if err \<noteq> None then
       and_then (RevertToSnapshot (env_X E) (env_D E) snapshot (evm_StateDB evm)) (\<lambda>s.
         Done (ret, if err \<noteq> Some ErrExecutionReverted then 0 else gas, err, evm\<lparr>evm_StateDB := s\<rparr>, jd))
     else Done (ret, gas, err, evm, jd))"

definition code_bytes :: "bytes option \<Rightarrow> bytes" where
  "code_bytes code = (case code of None \<Rightarrow> [] | Some c \<Rightarrow> c)"

definition evm_Call ::
    "'t env \<Rightarrow> 't runner \<Rightarrow> 't EVM \<Rightarrow> ContractRef \<Rightarrow> address \<Rightarrow> bytes \<Rightarrow> u64 \<Rightarrow> int \<Rightarrow> 't called outcome" where
  "evm_Call E run evm clr addr input gas val =
     (let X = env_X E; D = env_D E; jd = ref_map clr
      in if NoRecursion (vmConfig E) \<and> depth evm > 0 then Done ([], gas, None, evm, jd)
         else if depth evm > unat CallCreateDepth then Done ([], gas, Some ErrDepth, evm, jd)
         else
           (let (able, evm1) =
              (if val \<noteq> 0 then lift_state (\<lambda>s. ctx_CanTransfer E s (ref_Address clr) val) evm else (True, evm))
            in if \<not> able then Done ([], gas, Some ErrInsufficientBalance, evm1, jd)
               else
                 (let (snapshot, evm2) = lift_state Snapshot_op evm1;
                      p = precompile E addr;
                      (exists, evm3) = lift_state (Exist X D addr) evm2
                  in if \<not> exists \<and> p = None \<and> IsEIP158 (chainRules E) \<and> val = 0 then
                       Done ([], gas, None, evm3, jd)
                     else
                       (let evm4 = (if \<not> exists then on_state (CreateAccount X D addr) evm3 else evm3);
                            evm5 = on_state (\<lambda>s. ctx_Transfer E s (ref_Address clr) addr val) evm4
                        in and_then
                             (case p of
                                Some q \<Rightarrow> run_precompile E q evm5 jd input gas
                              | None \<Rightarrow>
                                  (let (code, evm6) = lift_state (GetCode X D addr) evm5
                                   in if length (code_bytes code) = 0 then Done ([], gas, None, evm6, jd)
                                      else
                                        (let (h, evm7) = lift_state (GetCodeHash X D addr) evm6;
                                             contract = SetCallCode (Some addr) h (code_bytes code)
                                               (NewContract clr addr (Some val) gas)
                                         in run_contract run evm7 contract input False)))
                             (end_call E snapshot)))))"

text \<open>What the other calls share: a precompiled contract runs natively; otherwise the code at the
  address runs in a contract that each call prepares.\<close>

definition call_code_at ::
    "'t env \<Rightarrow> 't runner \<Rightarrow> 't EVM \<Rightarrow> ContractRef \<Rightarrow> address \<Rightarrow> bytes \<Rightarrow> u64 \<Rightarrow> bool \<Rightarrow> Contract outcome \<Rightarrow> 't called outcome" where
  "call_code_at E run evm clr addr input gas ro prepared =
     (case precompile E addr of
        Some p \<Rightarrow> run_precompile E p evm (ref_map clr) input gas
      | None \<Rightarrow>
          and_then prepared (\<lambda>contract.
            (let (h, evm1) = lift_state (GetCodeHash (env_X E) (env_D E) addr) evm;
                 (code, evm2) = lift_state (GetCode (env_X E) (env_D E) addr) evm1
             in run_contract run evm2 (SetCallCode (Some addr) h (code_bytes code) contract) input ro)))"

definition evm_CallCode ::
    "'t env \<Rightarrow> 't runner \<Rightarrow> 't EVM \<Rightarrow> ContractRef \<Rightarrow> address \<Rightarrow> bytes \<Rightarrow> u64 \<Rightarrow> int \<Rightarrow> 't called outcome" where
  "evm_CallCode E run evm clr addr input gas val =
     (if NoRecursion (vmConfig E) \<and> depth evm > 0 then Done ([], gas, None, evm, ref_map clr)
      else if depth evm > unat CallCreateDepth then Done ([], gas, Some ErrDepth, evm, ref_map clr)
      else
        (let (able, evm1) = lift_state (\<lambda>s. ctx_CanTransfer E s (ref_Address clr) val) evm
         in if \<not> able then Done ([], gas, Some ErrInsufficientBalance, evm1, ref_map clr)
            else
              (let (snapshot, evm2) = lift_state Snapshot_op evm1
               in and_then
                    (call_code_at E run evm2 clr addr input gas False
                       (Done (NewContract clr (ref_Address clr) (Some val) gas)))
                    (end_call E snapshot))))"

definition evm_DelegateCall ::
    "'t env \<Rightarrow> 't runner \<Rightarrow> 't EVM \<Rightarrow> ContractRef \<Rightarrow> address \<Rightarrow> bytes \<Rightarrow> u64 \<Rightarrow> 't called outcome" where
  "evm_DelegateCall E run evm clr addr input gas =
     (if NoRecursion (vmConfig E) \<and> depth evm > 0 then Done ([], gas, None, evm, ref_map clr)
      else if depth evm > unat CallCreateDepth then Done ([], gas, Some ErrDepth, evm, ref_map clr)
      else
        (let (snapshot, evm1) = lift_state Snapshot_op evm
         in and_then
              (call_code_at E run evm1 clr addr input gas False
                 (AsDelegate (NewContract clr (ref_Address clr) None gas)))
              (end_call E snapshot)))"

definition evm_StaticCall ::
    "'t env \<Rightarrow> 't runner \<Rightarrow> 't EVM \<Rightarrow> ContractRef \<Rightarrow> address \<Rightarrow> bytes \<Rightarrow> u64 \<Rightarrow> 't called outcome" where
  "evm_StaticCall E run evm clr addr input gas =
     (if NoRecursion (vmConfig E) \<and> depth evm > 0 then Done ([], gas, None, evm, ref_map clr)
      else if depth evm > unat CallCreateDepth then Done ([], gas, Some ErrDepth, evm, ref_map clr)
      else
        (let (snapshot, evm1) = lift_state Snapshot_op evm;
             evm2 = on_state (AddBalance (env_X E) (env_D E) addr 0) evm1
         in and_then
              (call_code_at E run evm2 clr addr input gas True (Done (NewContract clr addr (Some 0) gas)))
              (end_call E snapshot)))"

section \<open>Contract creation\<close>

definition codeAndHash_Hash :: "ext \<Rightarrow> codeAndHash \<Rightarrow> hash \<times> codeAndHash" where
  "codeAndHash_Hash X c =
     (let c1 = (if cah_hash c = 0 then c\<lparr>cah_hash := keccak256 X (cah_code c)\<rparr> else c) in (cah_hash c1, c1))"

type_synonym 't created = "bytes \<times> address \<times> u64 \<times> evm_error option \<times> 't EVM \<times> jumpdest_map"

text \<open>The code a creation returns is stored, if its size is allowed and paid for.\<close>

definition store_code ::
    "'t env \<Rightarrow> address \<Rightarrow> bytes \<Rightarrow> evm_error option \<Rightarrow> 't EVM \<Rightarrow> Contract \<Rightarrow> bool \<Rightarrow> evm_error option \<times> 't EVM \<times> Contract" where
  "store_code E addr ret err evm c maxCodeSizeExceeded =
     (if err = None \<and> \<not> maxCodeSizeExceeded then
        (let createDataGas = of_nat (length ret) * CreateDataGas;
             (paid, c1) = UseGas createDataGas c
         in if paid then
              (None, on_state (SetCode (env_X E) (env_D E) addr (if ret = [] then None else Some ret)) evm, c1)
            else (Some ErrCodeStoreOutOfGas, evm, c1))
      else (err, evm, c))"

definition end_create ::
    "'t env \<Rightarrow> nat \<Rightarrow> address \<Rightarrow> 't ran \<Rightarrow> 't created outcome" where
  "end_create E snapshot addr = (\<lambda>(ret, err, evm, c).
     (let maxCodeSizeExceeded = IsEIP158 (chainRules E) \<and> length ret > MaxCodeSize;
          (err1, evm1, c1) = store_code E addr ret err evm c maxCodeSizeExceeded
      in and_then
           (if maxCodeSizeExceeded \<or>
               (err1 \<noteq> None \<and> (IsHomestead (chainRules E) \<or> err1 \<noteq> Some ErrCodeStoreOutOfGas)) then
              and_then (RevertToSnapshot (env_X E) (env_D E) snapshot (evm_StateDB evm1)) (\<lambda>s.
                Done (evm1\<lparr>evm_StateDB := s\<rparr>,
                      if err1 \<noteq> Some ErrExecutionReverted then snd (UseGas (Gas c1) c1) else c1))
            else Done (evm1, c1))
           (\<lambda>(evm2, c2).
              Done (ret, addr, Gas c2,
                if maxCodeSizeExceeded \<and> err1 = None then Some ErrMaxCodeSizeExceeded else err1,
                evm2, jumpdests c2))))"

definition evm_create ::
    "'t env \<Rightarrow> 't runner \<Rightarrow> 't EVM \<Rightarrow> ContractRef \<Rightarrow> codeAndHash \<Rightarrow> u64 \<Rightarrow> int \<Rightarrow> address \<Rightarrow> 't created outcome" where
  "evm_create E run evm clr cah gas val addr =
     (let X = env_X E; D = env_D E; jd = ref_map clr
      in if depth evm > unat CallCreateDepth then Done ([], 0, gas, Some ErrDepth, evm, jd)
         else
           (let (able, evm1) = lift_state (\<lambda>s. ctx_CanTransfer E s (ref_Address clr) val) evm
            in if \<not> able then Done ([], 0, gas, Some ErrInsufficientBalance, evm1, jd)
               else
                 (let (nonce, evm2) = lift_state (GetNonce X D (ref_Address clr)) evm1;
                      evm3 = on_state (SetNonce X D (ref_Address clr) (nonce + 1)) evm2;
                      (contractHash, evm4) = lift_state (GetCodeHash X D addr) evm3;
                      (n, evm5) = lift_state (GetNonce X D addr) evm4
                  in if n \<noteq> 0 \<or> (contractHash \<noteq> 0 \<and> contractHash \<noteq> keccak256 X []) then
                       Done ([], 0, 0, Some ErrContractAddressCollision, evm5, jd)
                     else
                       (let (snapshot, evm6) = lift_state Snapshot_op evm5;
                            evm7 = on_state (CreateAccount X D addr) evm6;
                            evm8 = (if IsEIP158 (chainRules E) then on_state (SetNonce X D addr 1) evm7 else evm7);
                            evm9 = on_state (\<lambda>s. ctx_Transfer E s (ref_Address clr) addr val) evm8;
                            contract = SetCodeOptionalHash (Some addr) cah (NewContract clr addr (Some val) gas)
                        in if NoRecursion (vmConfig E) \<and> depth evm9 > 0 then Done ([], addr, gas, None, evm9, jd)
                           else and_then (run evm9 contract [] False) (end_create E snapshot addr)))))"

definition evm_Create ::
    "'t env \<Rightarrow> 't runner \<Rightarrow> 't EVM \<Rightarrow> ContractRef \<Rightarrow> bytes \<Rightarrow> u64 \<Rightarrow> int \<Rightarrow> 't created outcome" where
  "evm_Create E run evm clr code gas val =
     (let (nonce, evm1) = lift_state (GetNonce (env_X E) (env_D E) (ref_Address clr)) evm
      in and_then (CreateAddress (env_X E) (ref_Address clr) nonce) (\<lambda>contractAddr.
           evm_create E run evm1 clr \<lparr> cah_code = code, cah_hash = 0 \<rparr> gas val contractAddr))"

definition evm_Create2 ::
    "'t env \<Rightarrow> 't runner \<Rightarrow> 't EVM \<Rightarrow> ContractRef \<Rightarrow> bytes \<Rightarrow> u64 \<Rightarrow> int \<Rightarrow> u256 \<Rightarrow> 't created outcome" where
  "evm_Create2 E run evm clr code gas endowment salt =
     (let X = env_X E;
          (h, cah) = codeAndHash_Hash X \<lparr> cah_code = code, cah_hash = 0 \<rparr>;
          contractAddr = CreateAddress2 X (ref_Address clr) (u_Bytes32 X salt) (Hash_Bytes h)
      in evm_create E run evm clr cah gas endowment contractAddr)"

end
