(* ===== verification/Vm_Instructions.thy ===== *)
theory Vm_Instructions
  imports Vm_Evm
begin

text \<open>
  \<open>core/vm/instructions.go\<close> (and the two instructions of \<open>core/vm/eips.go\<close>): one definition per
  instruction. An instruction works on the record \<open>machine\<close>, which holds the program counter, the
  \<open>callCtx\<close> of the call (memory, stacks, contract) and the EVM; it returns the result slice and
  the error beside the new machine. The shared Keccak state (\<open>hasher\<close>, \<open>hasherBuf\<close>) carries no
  information between instructions.
\<close>

record 't machine =
  m_pc :: u64
  m_evm :: "'t EVM"
  m_memory :: Memory
  m_stack :: stack
  m_rstack :: rstack
  m_contract :: Contract

type_synonym 't executed = "bytes \<times> evm_error option \<times> 't machine"
type_synonym 't executionFunc = "'t env \<Rightarrow> 't runner \<Rightarrow> 't machine \<Rightarrow> 't executed outcome"

text \<open>\<open>return nil, nil\<close> and \<open>return nil, err\<close>.\<close>

definition continue :: "'t machine \<Rightarrow> 't executed outcome" where
  "continue m = Done ([], None, m)"

definition fail :: "evm_error \<Rightarrow> 't machine \<Rightarrow> 't executed outcome" where
  "fail err m = Done ([], Some err, m)"

text \<open>The shapes of the simple instructions: \<open>x, y := pop(), peek()\<close> and a write to \<open>y\<close>; a write to
  the top item; a push.\<close>

definition binop :: "(ext \<Rightarrow> u256 \<Rightarrow> u256 \<Rightarrow> u256) \<Rightarrow> 't executionFunc" where
  "binop f E run m =
     and_then (stack_pop (m_stack m)) (\<lambda>(x, st). and_then (stack_peek st) (\<lambda>y.
       continue (m\<lparr>m_stack := stack_poke (f (env_X E) x y) st\<rparr>)))"

definition unop :: "(ext \<Rightarrow> u256 \<Rightarrow> u256) \<Rightarrow> 't executionFunc" where
  "unop f E run m =
     and_then (stack_peek (m_stack m)) (\<lambda>x.
       continue (m\<lparr>m_stack := stack_poke (f (env_X E) x) (m_stack m)\<rparr>))"

definition pushop :: "('t env \<Rightarrow> 't machine \<Rightarrow> u256) \<Rightarrow> 't executionFunc" where
  "pushop f E run m = continue (m\<lparr>m_stack := stack_push (f E m) (m_stack m)\<rparr>)"

definition bool_word :: "ext \<Rightarrow> bool \<Rightarrow> u256" where
  "bool_word X b = (if b then u_SetOne X else u_Clear X)"

section \<open>Arithmetic and logic\<close>

definition opAdd :: "'t executionFunc" where "opAdd = binop (\<lambda>X x y. u_Add X x y)"
definition opSub :: "'t executionFunc" where "opSub = binop (\<lambda>X x y. u_Sub X x y)"
definition opMul :: "'t executionFunc" where "opMul = binop (\<lambda>X x y. u_Mul X x y)"
definition opDiv :: "'t executionFunc" where "opDiv = binop (\<lambda>X x y. u_Div X x y)"
definition opSdiv :: "'t executionFunc" where "opSdiv = binop (\<lambda>X x y. u_SDiv X x y)"
definition opMod :: "'t executionFunc" where "opMod = binop (\<lambda>X x y. u_Mod X x y)"
definition opSmod :: "'t executionFunc" where "opSmod = binop (\<lambda>X x y. u_SMod X x y)"
definition opExp :: "'t executionFunc" where "opExp = binop (\<lambda>X base exponent. u_Exp X base exponent)"
definition opSignExtend :: "'t executionFunc" where "opSignExtend = binop (\<lambda>X back num. u_ExtendSign X num back)"
definition opNot :: "'t executionFunc" where "opNot = unop (\<lambda>X x. u_Not X x)"
definition opLt :: "'t executionFunc" where "opLt = binop (\<lambda>X x y. bool_word X (u_Lt X x y))"
definition opGt :: "'t executionFunc" where "opGt = binop (\<lambda>X x y. bool_word X (u_Gt X x y))"
definition opSlt :: "'t executionFunc" where "opSlt = binop (\<lambda>X x y. bool_word X (u_Slt X x y))"
definition opSgt :: "'t executionFunc" where "opSgt = binop (\<lambda>X x y. bool_word X (u_Sgt X x y))"
definition opEq :: "'t executionFunc" where "opEq = binop (\<lambda>X x y. bool_word X (u_Eq X x y))"
definition opIszero :: "'t executionFunc" where "opIszero = unop (\<lambda>X x. bool_word X (u_IsZero X x))"
definition opAnd :: "'t executionFunc" where "opAnd = binop (\<lambda>X x y. u_And X x y)"
definition opOr :: "'t executionFunc" where "opOr = binop (\<lambda>X x y. u_Or X x y)"
definition opXor :: "'t executionFunc" where "opXor = binop (\<lambda>X x y. u_Xor X x y)"
definition opByte :: "'t executionFunc" where "opByte = binop (\<lambda>X th val. u_Byte X val th)"

definition opAddmod :: "'t executionFunc" where
  "opAddmod E run m =
     and_then (stack_pop (m_stack m)) (\<lambda>(x, st1). and_then (stack_pop st1) (\<lambda>(y, st2).
     and_then (stack_peek st2) (\<lambda>z.
       (let X = env_X E
        in continue (m\<lparr>m_stack :=
             stack_poke (if u_IsZero X z then u_Clear X else u_AddMod X x y z) st2\<rparr>)))))"

definition opMulmod :: "'t executionFunc" where
  "opMulmod E run m =
     and_then (stack_pop (m_stack m)) (\<lambda>(x, st1). and_then (stack_pop st1) (\<lambda>(y, st2).
     and_then (stack_peek st2) (\<lambda>z.
       continue (m\<lparr>m_stack := stack_poke (u_MulMod (env_X E) x y z) st2\<rparr>))))"

definition opSHL :: "'t executionFunc" where
  "opSHL = binop (\<lambda>X shift val.
     if u_LtUint64 X shift 256 then u_Lsh X val (u_Uint64 X shift) else u_Clear X)"

definition opSHR :: "'t executionFunc" where
  "opSHR = binop (\<lambda>X shift val.
     if u_LtUint64 X shift 256 then u_Rsh X val (u_Uint64 X shift) else u_Clear X)"

definition opSAR :: "'t executionFunc" where
  "opSAR = binop (\<lambda>X shift val.
     if u_GtUint64 X shift 256 then (if u_Sign X val \<ge> 0 then u_Clear X else u_SetAllOne X)
     else u_SRsh X val (u_Uint64 X shift))"

text \<open>\<open>int64(x.Uint64())\<close>.\<close>

definition to_int64 :: "ext \<Rightarrow> u256 \<Rightarrow> int" where
  "to_int64 X x = sint (u_Uint64 X x)"

definition opSha3 :: "'t executionFunc" where
  "opSha3 E run m =
     (let X = env_X E
      in and_then (stack_pop (m_stack m)) (\<lambda>(offset, st). and_then (stack_peek st) (\<lambda>sz.
         and_then (Memory_GetPtr (to_int64 X offset) (to_int64 X sz) (m_memory m)) (\<lambda>d.
           (let h = keccak256 X d;
                evm = (if EnablePreimageRecording (vmConfig E) then on_state (AddPreimage h d) (m_evm m)
                       else m_evm m)
            in continue (m\<lparr>m_evm := evm, m_stack := stack_poke (u_SetBytes X (Hash_Bytes h)) st\<rparr>))))))"

section \<open>Environment and block information\<close>

definition opAddress :: "'t executionFunc" where
  "opAddress = pushop (\<lambda>E m. u_SetBytes (env_X E) (Address_Bytes (self (m_contract m))))"

text \<open>Reading the state through \<open>evm.StateDB\<close>.\<close>

definition read_state :: "('t StateDB \<Rightarrow> 'a \<times> 't StateDB) \<Rightarrow> 't machine \<Rightarrow> 'a \<times> 't machine" where
  "read_state f m = (let (r, evm) = lift_state f (m_evm m) in (r, m\<lparr>m_evm := evm\<rparr>))"

definition opBalance :: "'t executionFunc" where
  "opBalance E run m =
     (let X = env_X E
      in and_then (stack_peek (m_stack m)) (\<lambda>slot.
         (let (b, m1) = read_state (GetBalance X (env_D E) (u_Bytes20 X slot)) m
          in continue (m1\<lparr>m_stack := stack_poke (u_FromBig X b) (m_stack m1)\<rparr>))))"

definition opOrigin :: "'t executionFunc" where
  "opOrigin = pushop (\<lambda>E m. u_SetBytes (env_X E) (Address_Bytes (Origin E)))"

definition opCaller :: "'t executionFunc" where
  "opCaller = pushop (\<lambda>E m. u_SetBytes (env_X E) (Address_Bytes (CallerAddress (m_contract m))))"

definition opCallValue :: "'t executionFunc" where
  "opCallValue E run m =
     (case c_value (m_contract m) of
        None \<Rightarrow> Panicked NilDeref
      | Some v \<Rightarrow> continue (m\<lparr>m_stack := stack_push (u_FromBig (env_X E) v) (m_stack m)\<rparr>))"

definition opCallDataLoad :: "'t executionFunc" where
  "opCallDataLoad E run m =
     (let X = env_X E
      in and_then (stack_peek (m_stack m)) (\<lambda>x.
         (let (offset, overflow) = u_Uint64WithOverflow X x
          in if \<not> overflow then
               and_then (getData (Input (m_contract m)) offset 32) (\<lambda>d.
                 continue (m\<lparr>m_stack := stack_poke (u_SetBytes X d) (m_stack m)\<rparr>))
             else continue (m\<lparr>m_stack := stack_poke (u_Clear X) (m_stack m)\<rparr>))))"

definition opCallDataSize :: "'t executionFunc" where
  "opCallDataSize = pushop (\<lambda>E m. u_SetUint64 (env_X E) (of_nat (length (Input (m_contract m)))))"

text \<open>The three copying instructions end alike: the bytes of a slice from an offset that is at most
  the largest \<open>uint64\<close>, padded with zeros, go to the memory.\<close>

definition copy_data :: "'t env \<Rightarrow> bytes \<Rightarrow> u256 \<Rightarrow> u256 \<Rightarrow> u256 \<Rightarrow> 't machine \<Rightarrow> 't executed outcome" where
  "copy_data E src memOffset dataOffset len m =
     (let X = env_X E;
          (off, overflow) = u_Uint64WithOverflow X dataOffset;
          off64 = (if overflow then 0xffffffffffffffff else off)
      in and_then (getData src off64 (u_Uint64 X len)) (\<lambda>d.
         and_then (Memory_Set (u_Uint64 X memOffset) (u_Uint64 X len) d (m_memory m)) (\<lambda>mem.
           continue (m\<lparr>m_memory := mem\<rparr>))))"

definition opCallDataCopy :: "'t executionFunc" where
  "opCallDataCopy E run m =
     and_then (stack_pop (m_stack m)) (\<lambda>(memOffset, st1). and_then (stack_pop st1) (\<lambda>(dataOffset, st2).
     and_then (stack_pop st2) (\<lambda>(len, st3).
       copy_data E (Input (m_contract m)) memOffset dataOffset len (m\<lparr>m_stack := st3\<rparr>))))"

definition opReturnDataSize :: "'t executionFunc" where
  "opReturnDataSize = pushop (\<lambda>E m. u_SetUint64 (env_X E) (of_nat (length (returnData (m_evm m)))))"

definition opReturnDataCopy :: "'t executionFunc" where
  "opReturnDataCopy E run m =
     (let X = env_X E; rd = returnData (m_evm m)
      in and_then (stack_pop (m_stack m)) (\<lambda>(memOffset, st1). and_then (stack_pop st1) (\<lambda>(dataOffset, st2).
         and_then (stack_pop st2) (\<lambda>(len, st3).
           (let m1 = m\<lparr>m_stack := st3\<rparr>;
                (offset64, overflow) = u_Uint64WithOverflow X dataOffset
            in if overflow then fail ErrReturnDataOutOfBounds m1
               else
                 (let (end64, overflow) = u_Uint64WithOverflow X (u_Add X dataOffset len)
                  in if overflow \<or> of_nat (length rd) < end64 then fail ErrReturnDataOutOfBounds m1
                     else if end64 < offset64 then Panicked SliceBounds
                     else and_then (Memory_Set (u_Uint64 X memOffset) (u_Uint64 X len)
                              (slice rd (unat offset64) (unat end64)) (m_memory m1)) (\<lambda>mem.
                            continue (m1\<lparr>m_memory := mem\<rparr>))))))))"

definition opExtCodeSize :: "'t executionFunc" where
  "opExtCodeSize E run m =
     (let X = env_X E
      in and_then (stack_peek (m_stack m)) (\<lambda>slot.
         (let (n, m1) = read_state (GetCodeSize X (env_D E) (u_Bytes20 X slot)) m
          in continue (m1\<lparr>m_stack := stack_poke (u_SetUint64 X (of_nat n)) (m_stack m1)\<rparr>))))"

definition opCodeSize :: "'t executionFunc" where
  "opCodeSize = pushop (\<lambda>E m. u_SetUint64 (env_X E) (of_nat (length (Code (m_contract m)))))"

definition opCodeCopy :: "'t executionFunc" where
  "opCodeCopy E run m =
     and_then (stack_pop (m_stack m)) (\<lambda>(memOffset, st1). and_then (stack_pop st1) (\<lambda>(codeOffset, st2).
     and_then (stack_pop st2) (\<lambda>(len, st3).
       copy_data E (Code (m_contract m)) memOffset codeOffset len (m\<lparr>m_stack := st3\<rparr>))))"

definition opExtCodeCopy :: "'t executionFunc" where
  "opExtCodeCopy E run m =
     (let X = env_X E
      in and_then (stack_pop (m_stack m)) (\<lambda>(a, st1). and_then (stack_pop st1) (\<lambda>(memOffset, st2).
         and_then (stack_pop st2) (\<lambda>(codeOffset, st3). and_then (stack_pop st3) (\<lambda>(len, st4).
           (let (code, m1) = read_state (GetCode X (env_D E) (u_Bytes20 X a)) m
            in copy_data E (code_bytes code) memOffset codeOffset len (m1\<lparr>m_stack := st4\<rparr>)))))))"

definition opExtCodeHash :: "'t executionFunc" where
  "opExtCodeHash E run m =
     (let X = env_X E
      in and_then (stack_peek (m_stack m)) (\<lambda>slot.
         (let addr = u_Bytes20 X slot;
              (e, m1) = read_state (Empty X (env_D E) addr) m
          in if e then continue (m1\<lparr>m_stack := stack_poke (u_Clear X) (m_stack m1)\<rparr>)
             else
               (let (h, m2) = read_state (GetCodeHash X (env_D E) addr) m1
                in continue (m2\<lparr>m_stack := stack_poke (u_SetBytes X (Hash_Bytes h)) (m_stack m2)\<rparr>)))))"

definition opGasprice :: "'t executionFunc" where
  "opGasprice = pushop (\<lambda>E m. u_FromBig (env_X E) (GasPrice E))"

definition opBlockhash :: "'t executionFunc" where
  "opBlockhash E run m =
     (let X = env_X E
      in and_then (stack_peek (m_stack m)) (\<lambda>num.
         (let (num64, overflow) = u_Uint64WithOverflow X num
          in if overflow then continue (m\<lparr>m_stack := stack_poke (u_Clear X) (m_stack m)\<rparr>)
             else
               (let upper = of_int (BlockNumber E) :: u64;
                    lower = (if upper < 257 then 0 else upper - 256)
                in if num64 \<ge> lower \<and> num64 < upper
                   then continue (m\<lparr>m_stack := stack_poke (u_SetBytes X (Hash_Bytes (GetHash E num64))) (m_stack m)\<rparr>)
                   else continue (m\<lparr>m_stack := stack_poke (u_Clear X) (m_stack m)\<rparr>)))))"

definition opCoinbase :: "'t executionFunc" where
  "opCoinbase = pushop (\<lambda>E m. u_SetBytes (env_X E) (Address_Bytes (Coinbase E)))"
definition opTimestamp :: "'t executionFunc" where "opTimestamp = pushop (\<lambda>E m. u_FromBig (env_X E) (Time E))"
definition opNumber :: "'t executionFunc" where "opNumber = pushop (\<lambda>E m. u_FromBig (env_X E) (BlockNumber E))"
definition opDifficulty :: "'t executionFunc" where "opDifficulty = pushop (\<lambda>E m. u_FromBig (env_X E) (Difficulty E))"
definition opGasLimit :: "'t executionFunc" where "opGasLimit = pushop (\<lambda>E m. u_SetUint64 (env_X E) (GasLimit E))"
definition opChainID :: "'t executionFunc" where "opChainID = pushop (\<lambda>E m. u_FromBig (env_X E) (chainID E))"

definition opSelfBalance :: "'t executionFunc" where
  "opSelfBalance E run m =
     (let (b, m1) = read_state (GetBalance (env_X E) (env_D E) (self (m_contract m))) m
      in continue (m1\<lparr>m_stack := stack_push (u_FromBig (env_X E) b) (m_stack m1)\<rparr>))"

section \<open>Stack, memory and storage\<close>

definition opPop :: "'t executionFunc" where
  "opPop E run m = and_then (stack_pop (m_stack m)) (\<lambda>(_, st). continue (m\<lparr>m_stack := st\<rparr>))"

definition opMload :: "'t executionFunc" where
  "opMload E run m =
     (let X = env_X E
      in and_then (stack_peek (m_stack m)) (\<lambda>v.
         and_then (Memory_GetPtr (to_int64 X v) 32 (m_memory m)) (\<lambda>d.
           continue (m\<lparr>m_stack := stack_poke (u_SetBytes X d) (m_stack m)\<rparr>))))"

definition opMstore :: "'t executionFunc" where
  "opMstore E run m =
     and_then (stack_pop (m_stack m)) (\<lambda>(mStart, st1). and_then (stack_pop st1) (\<lambda>(val, st2).
     and_then (Memory_Set32 (env_X E) (u_Uint64 (env_X E) mStart) val (m_memory m)) (\<lambda>mem.
       continue (m\<lparr>m_stack := st2, m_memory := mem\<rparr>))))"

definition opMstore8 :: "'t executionFunc" where
  "opMstore8 E run m =
     and_then (stack_pop (m_stack m)) (\<lambda>(off, st1). and_then (stack_pop st1) (\<lambda>(val, st2).
       (let i = unat (u_Uint64 (env_X E) off); mem = m_memory m
        in if length (store mem) \<le> i then Panicked SliceBounds
           else continue (m\<lparr>m_stack := st2,
                  m_memory := mem\<lparr>store := (store mem)[i := ucast (u_Uint64 (env_X E) val)]\<rparr>\<rparr>))))"

definition opSload :: "'t executionFunc" where
  "opSload E run m =
     (let X = env_X E
      in and_then (stack_peek (m_stack m)) (\<lambda>loc.
         and_then (GetState X (env_D E) (self (m_contract m)) (u_Bytes32 X loc) (evm_StateDB (m_evm m))) (\<lambda>(v, s).
           continue (m\<lparr>m_evm := (m_evm m)\<lparr>evm_StateDB := s\<rparr>,
             m_stack := stack_poke (u_SetBytes X (Hash_Bytes v)) (m_stack m)\<rparr>))))"

definition opSstore :: "'t executionFunc" where
  "opSstore E run m =
     (let X = env_X E
      in and_then (stack_pop (m_stack m)) (\<lambda>(loc, st1). and_then (stack_pop st1) (\<lambda>(val, st2).
         and_then (SetState X (env_D E) (self (m_contract m)) (u_Bytes32 X loc) (u_Bytes32 X val)
             (evm_StateDB (m_evm m))) (\<lambda>s.
           continue (m\<lparr>m_evm := (m_evm m)\<lparr>evm_StateDB := s\<rparr>, m_stack := st2\<rparr>)))))"

section \<open>Control flow\<close>

definition opJump :: "'t executionFunc" where
  "opJump E run m =
     and_then (stack_pop (m_stack m)) (\<lambda>(pos, st).
     and_then (validJumpdest (env_X E) pos (m_contract m)) (\<lambda>(valid, c).
       (let m1 = m\<lparr>m_stack := st, m_contract := c\<rparr>
        in if \<not> valid then fail ErrInvalidJump m1
           else continue (m1\<lparr>m_pc := u_Uint64 (env_X E) pos\<rparr>))))"

definition opJumpi :: "'t executionFunc" where
  "opJumpi E run m =
     and_then (stack_pop (m_stack m)) (\<lambda>(pos, st1). and_then (stack_pop st1) (\<lambda>(cond, st2).
       if \<not> u_IsZero (env_X E) cond then
         and_then (validJumpdest (env_X E) pos (m_contract m)) (\<lambda>(valid, c).
           (let m1 = m\<lparr>m_stack := st2, m_contract := c\<rparr>
            in if \<not> valid then fail ErrInvalidJump m1
               else continue (m1\<lparr>m_pc := u_Uint64 (env_X E) pos\<rparr>)))
       else continue (m\<lparr>m_stack := st2, m_pc := m_pc m + 1\<rparr>)))"

definition opJumpdest :: "'t executionFunc" where "opJumpdest E run m = continue m"

definition opBeginSub :: "'t executionFunc" where "opBeginSub E run m = fail ErrInvalidSubroutineEntry m"

definition opJumpSub :: "'t executionFunc" where
  "opJumpSub E run m =
     (if length (m_rstack m) \<ge> 1023 then fail ErrReturnStackExceeded m
      else and_then (stack_pop (m_stack m)) (\<lambda>(pos, st).
        (let m1 = m\<lparr>m_stack := st\<rparr>
         in if \<not> u_IsUint64 (env_X E) pos then fail ErrInvalidJump m1
            else
              (let posU64 = u_Uint64 (env_X E) pos
               in and_then (validJumpSubdest posU64 (m_contract m)) (\<lambda>(valid, c).
                    (let m2 = m1\<lparr>m_contract := c\<rparr>
                     in if \<not> valid then fail ErrInvalidJump m2
                        else continue (m2\<lparr>m_rstack := rstack_push (ucast (m_pc m)) (m_rstack m),
                               m_pc := posU64 + 1\<rparr>)))))))"

definition opReturnSub :: "'t executionFunc" where
  "opReturnSub E run m =
     (if length (m_rstack m) = 0 then fail ErrInvalidRetsub m
      else and_then (rstack_pop (m_rstack m)) (\<lambda>(ret, rst).
        continue (m\<lparr>m_rstack := rst, m_pc := ucast ret + 1\<rparr>)))"

definition opPc :: "'t executionFunc" where "opPc = pushop (\<lambda>E m. u_SetUint64 (env_X E) (m_pc m))"
definition opMsize :: "'t executionFunc" where
  "opMsize = pushop (\<lambda>E m. u_SetUint64 (env_X E) (of_nat (Memory_Len (m_memory m))))"
definition opGas :: "'t executionFunc" where
  "opGas = pushop (\<lambda>E m. u_SetUint64 (env_X E) (Gas (m_contract m)))"

section \<open>Creating and calling contracts\<close>

text \<open>Go code passes the contract itself as the caller; it shares its map of analyses.\<close>

definition resume :: "u64 \<Rightarrow> 't EVM \<Rightarrow> jumpdest_map \<Rightarrow> 't machine \<Rightarrow> 't machine" where
  "resume returnGas evm jd m =
     m\<lparr>m_evm := evm, m_contract := (m_contract m)\<lparr>Gas := Gas (m_contract m) + returnGas, jumpdests := jd\<rparr>\<rparr>"

definition big_value :: "ext \<Rightarrow> u256 \<Rightarrow> int" where
  "big_value X v = (if \<not> u_IsZero X v then u_ToBig X v else 0)"

definition opCreate :: "'t executionFunc" where
  "opCreate E run m =
     (let X = env_X E; rules = chainRules E
      in and_then (stack_pop (m_stack m)) (\<lambda>(val, st1). and_then (stack_pop st1) (\<lambda>(offset, st2).
         and_then (stack_pop st2) (\<lambda>(sz, st3).
         and_then (Memory_GetCopy (to_int64 X offset) (to_int64 X sz) (m_memory m)) (\<lambda>input.
           (let gas0 = Gas (m_contract m);
                gas = (if IsEIP150 rules then gas0 - gas0 div 64 else gas0);
                c1 = snd (UseGas gas (m_contract m))
            in and_then (evm_Create E run (m_evm m) (contract_ref c1) input gas (big_value X val))
                 (\<lambda>(res, addr, returnGas, suberr, evm, jd).
                   (let stackvalue =
                      (if IsHomestead rules \<and> suberr = Some ErrCodeStoreOutOfGas then u_Clear X
                       else if suberr \<noteq> None \<and> suberr \<noteq> Some ErrCodeStoreOutOfGas then u_Clear X
                       else u_SetBytes X (Address_Bytes addr));
                        m1 = resume returnGas evm jd (m\<lparr>m_stack := stack_push stackvalue st3, m_contract := c1\<rparr>)
                    in if suberr = Some ErrExecutionReverted then Done (res, None, m1)
                       else continue m1))))))))"

definition opCreate2 :: "'t executionFunc" where
  "opCreate2 E run m =
     (let X = env_X E
      in and_then (stack_pop (m_stack m)) (\<lambda>(endowment, st1). and_then (stack_pop st1) (\<lambda>(offset, st2).
         and_then (stack_pop st2) (\<lambda>(sz, st3). and_then (stack_pop st3) (\<lambda>(salt, st4).
         and_then (Memory_GetCopy (to_int64 X offset) (to_int64 X sz) (m_memory m)) (\<lambda>input.
           (let gas0 = Gas (m_contract m);
                gas = gas0 - gas0 div 64;
                c1 = snd (UseGas gas (m_contract m))
            in and_then (evm_Create2 E run (m_evm m) (contract_ref c1) input gas (big_value X endowment) salt)
                 (\<lambda>(res, addr, returnGas, suberr, evm, jd).
                   (let stackvalue = (if suberr \<noteq> None then u_Clear X else u_SetBytes X (Address_Bytes addr));
                        m1 = resume returnGas evm jd (m\<lparr>m_stack := stack_push stackvalue st4, m_contract := c1\<rparr>)
                    in if suberr = Some ErrExecutionReverted then Done (res, None, m1)
                       else continue m1)))))))))"

text \<open>The end of the four call instructions. The precompiled contract \<open>dataCopy\<close> returns its input,
  which is a slice of the caller's memory: what the instruction returns is then what this slice
  holds after the output was written.\<close>

definition finish_call ::
    "'t env \<Rightarrow> address \<Rightarrow> u256 \<Rightarrow> u256 \<Rightarrow> u256 \<Rightarrow> u256 \<Rightarrow> 't machine \<Rightarrow> 't called \<Rightarrow> 't executed outcome" where
  "finish_call E toAddr inOffset inSize retOffset retSize m = (\<lambda>(ret, returnGas, err, evm, jd).
     (let X = env_X E
      in and_then
           (if err = None \<or> err = Some ErrExecutionReverted
            then Memory_Set (u_Uint64 X retOffset) (u_Uint64 X retSize) ret (m_memory m)
            else Done (m_memory m))
           (\<lambda>mem.
              and_then
                (if err = None \<and> ret \<noteq> [] \<and> precompile E toAddr = Some dataCopy
                 then Memory_GetPtr (to_int64 X inOffset) (to_int64 X inSize) mem else Done ret)
                (\<lambda>res.
                   Done (res, None,
                     resume returnGas evm jd
                       (m\<lparr>m_memory := mem, m_stack := stack_push (bool_word X (err = None)) (m_stack m)\<rparr>))))))"

definition opCall :: "'t executionFunc" where
  "opCall E run m =
     (let X = env_X E
      in and_then (stack_pop (m_stack m)) (\<lambda>(_, st1). and_then (stack_pop st1) (\<lambda>(addr, st2).
         and_then (stack_pop st2) (\<lambda>(val, st3). and_then (stack_pop st3) (\<lambda>(inOffset, st4).
         and_then (stack_pop st4) (\<lambda>(inSize, st5). and_then (stack_pop st5) (\<lambda>(retOffset, st6).
         and_then (stack_pop st6) (\<lambda>(retSize, st7).
         and_then (Memory_GetPtr (to_int64 X inOffset) (to_int64 X inSize) (m_memory m)) (\<lambda>args.
           (let toAddr = u_Bytes20 X addr;
                gas0 = callGasTemp (m_evm m);
                gas = (if \<not> u_IsZero X val then gas0 + CallStipend else gas0)
            in and_then (evm_Call E run (m_evm m) (contract_ref (m_contract m)) toAddr args gas (big_value X val))
                 (finish_call E toAddr inOffset inSize retOffset retSize (m\<lparr>m_stack := st7\<rparr>))))))))))))"

definition opCallCode :: "'t executionFunc" where
  "opCallCode E run m =
     (let X = env_X E
      in and_then (stack_pop (m_stack m)) (\<lambda>(_, st1). and_then (stack_pop st1) (\<lambda>(addr, st2).
         and_then (stack_pop st2) (\<lambda>(val, st3). and_then (stack_pop st3) (\<lambda>(inOffset, st4).
         and_then (stack_pop st4) (\<lambda>(inSize, st5). and_then (stack_pop st5) (\<lambda>(retOffset, st6).
         and_then (stack_pop st6) (\<lambda>(retSize, st7).
         and_then (Memory_GetPtr (to_int64 X inOffset) (to_int64 X inSize) (m_memory m)) (\<lambda>args.
           (let toAddr = u_Bytes20 X addr;
                gas0 = callGasTemp (m_evm m);
                gas = (if \<not> u_IsZero X val then gas0 + CallStipend else gas0)
            in and_then (evm_CallCode E run (m_evm m) (contract_ref (m_contract m)) toAddr args gas (big_value X val))
                 (finish_call E toAddr inOffset inSize retOffset retSize (m\<lparr>m_stack := st7\<rparr>))))))))))))"

definition opDelegateCall :: "'t executionFunc" where
  "opDelegateCall E run m =
     (let X = env_X E
      in and_then (stack_pop (m_stack m)) (\<lambda>(_, st1). and_then (stack_pop st1) (\<lambda>(addr, st2).
         and_then (stack_pop st2) (\<lambda>(inOffset, st3). and_then (stack_pop st3) (\<lambda>(inSize, st4).
         and_then (stack_pop st4) (\<lambda>(retOffset, st5). and_then (stack_pop st5) (\<lambda>(retSize, st6).
         and_then (Memory_GetPtr (to_int64 X inOffset) (to_int64 X inSize) (m_memory m)) (\<lambda>args.
           (let toAddr = u_Bytes20 X addr; gas = callGasTemp (m_evm m)
            in and_then (evm_DelegateCall E run (m_evm m) (contract_ref (m_contract m)) toAddr args gas)
                 (finish_call E toAddr inOffset inSize retOffset retSize (m\<lparr>m_stack := st6\<rparr>)))))))))))"

definition opStaticCall :: "'t executionFunc" where
  "opStaticCall E run m =
     (let X = env_X E
      in and_then (stack_pop (m_stack m)) (\<lambda>(_, st1). and_then (stack_pop st1) (\<lambda>(addr, st2).
         and_then (stack_pop st2) (\<lambda>(inOffset, st3). and_then (stack_pop st3) (\<lambda>(inSize, st4).
         and_then (stack_pop st4) (\<lambda>(retOffset, st5). and_then (stack_pop st5) (\<lambda>(retSize, st6).
         and_then (Memory_GetPtr (to_int64 X inOffset) (to_int64 X inSize) (m_memory m)) (\<lambda>args.
           (let toAddr = u_Bytes20 X addr; gas = callGasTemp (m_evm m)
            in and_then (evm_StaticCall E run (m_evm m) (contract_ref (m_contract m)) toAddr args gas)
                 (finish_call E toAddr inOffset inSize retOffset retSize (m\<lparr>m_stack := st6\<rparr>)))))))))))"

section \<open>Halting\<close>

definition return_memory :: "'t executionFunc" where
  "return_memory E run m =
     (let X = env_X E
      in and_then (stack_pop (m_stack m)) (\<lambda>(offset, st1). and_then (stack_pop st1) (\<lambda>(sz, st2).
         and_then (Memory_GetPtr (to_int64 X offset) (to_int64 X sz) (m_memory m)) (\<lambda>ret.
           Done (ret, None, m\<lparr>m_stack := st2\<rparr>)))))"

definition opReturn :: "'t executionFunc" where "opReturn = return_memory"
definition opRevert :: "'t executionFunc" where "opRevert = return_memory"
definition opStop :: "'t executionFunc" where "opStop E run m = continue m"

definition opSuicide :: "'t executionFunc" where
  "opSuicide E run m =
     (let X = env_X E; D = env_D E; a = self (m_contract m)
      in and_then (stack_pop (m_stack m)) (\<lambda>(beneficiary, st).
         (let (balance, m1) = read_state (GetBalance X D a) m;
              evm1 = on_state (AddBalance X D (u_Bytes20 X beneficiary) balance) (m_evm m1);
              evm2 = on_state (\<lambda>s. snd (Suicide X D a s)) evm1
          in continue (m1\<lparr>m_evm := evm2, m_stack := st\<rparr>))))"

section \<open>Instruction makers\<close>

primrec pop_topics :: "ext \<Rightarrow> nat \<Rightarrow> stack \<Rightarrow> (hash list \<times> stack) outcome" where
  "pop_topics X 0 st = Done ([], st)"
| "pop_topics X (Suc n) st =
     and_then (stack_pop st) (\<lambda>(t, st1). and_then (pop_topics X n st1) (\<lambda>(ts, st2).
       Done (u_Bytes32 X t # ts, st2)))"

definition makeLog :: "nat \<Rightarrow> 't executionFunc" where
  "makeLog n E run m =
     (let X = env_X E
      in and_then (stack_pop (m_stack m)) (\<lambda>(mStart, st1). and_then (stack_pop st1) (\<lambda>(mSize, st2).
         and_then (pop_topics X n st2) (\<lambda>(topics, st3).
         and_then (Memory_GetCopy (to_int64 X mStart) (to_int64 X mSize) (m_memory m)) (\<lambda>d.
           (let l = \<lparr> log_Address = self (m_contract m), log_Topics = topics, log_Data = d,
                      log_BlockNumber = of_int (BlockNumber E), log_TxHash = 0, log_TxIndex = 0,
                      log_BlockHash = 0, log_Index = 0 \<rparr>
            in continue (m\<lparr>m_evm := on_state (AddLog l) (m_evm m), m_stack := st3\<rparr>)))))))"

definition opPush1 :: "'t executionFunc" where
  "opPush1 E run m =
     (let X = env_X E; code = Code (m_contract m); pc = m_pc m + 1
      in continue (m\<lparr>m_pc := pc, m_stack :=
           stack_push (if unat pc < length code then u_SetUint64 X (ucast (code ! unat pc)) else u_Clear X)
             (m_stack m)\<rparr>))"

definition makePush :: "u64 \<Rightarrow> nat \<Rightarrow> 't executionFunc" where
  "makePush sz pushByteSize E run m =
     (let code = Code (m_contract m);
          codeLen = int (length code);
          startMin = min codeLen (sint (m_pc m + 1));
          endMin = min codeLen (startMin + int pushByteSize)
      in if startMin < 0 then Panicked SliceBounds
         else continue (m\<lparr>m_stack :=
                stack_push (u_SetBytes (env_X E)
                  (RightPadBytes (slice code (nat startMin) (nat endMin)) pushByteSize)) (m_stack m),
                m_pc := m_pc m + sz\<rparr>))"

definition makeDup :: "nat \<Rightarrow> 't executionFunc" where
  "makeDup n E run m = and_then (stack_dup n (m_stack m)) (\<lambda>st. continue (m\<lparr>m_stack := st\<rparr>))"

definition makeSwap :: "nat \<Rightarrow> 't executionFunc" where
  "makeSwap n E run m = and_then (stack_swap (n + 1) (m_stack m)) (\<lambda>st. continue (m\<lparr>m_stack := st\<rparr>))"

end
