(* ===== verification/Vm_Jump_Table.thy ===== *)
theory Vm_Jump_Table
  imports Vm_Instructions
begin

text \<open>
  \<open>core/vm/jump_table.go\<close> and \<open>core/vm/eips.go\<close>: the instruction sets of the forks. A
  \<open>JumpTable\<close> maps an opcode to what its pointer in the Go array points to. The functions that
  build the tables change them by statements of three kinds, which the datatype \<open>patch\<close> lists; a
  statement that writes a field of a missing entry dereferences a nil pointer.
\<close>

section \<open>Operations\<close>

record 't operation =
  execute :: "'t executionFunc"
  constantGas :: u64
  dynamicGas :: "'t gasFunc option"
  op_minStack :: nat
  op_maxStack :: nat
  memorySize :: "memorySizeFunc option"
  op_halts :: bool
  op_jumps :: bool
  op_writes :: bool
  op_reverts :: bool
  op_returns :: bool

type_synonym 't JumpTable = "u8 \<rightharpoonup> 't operation"

text \<open>An operation literal with \<open>minStack(pops, push)\<close> and \<open>maxStack(pops, push)\<close>; the fields
  that a literal leaves out are nil or false.\<close>

definition make_op :: "'t executionFunc \<Rightarrow> u64 \<Rightarrow> nat \<Rightarrow> nat \<Rightarrow> 't operation" where
  "make_op f gas pops push =
     \<lparr> execute = f, constantGas = gas, dynamicGas = None, op_minStack = minStack pops push,
       op_maxStack = maxStack pops push, memorySize = None, op_halts = False, op_jumps = False,
       op_writes = False, op_reverts = False, op_returns = False \<rparr>"

section \<open>The frontier instruction set\<close>

definition frontier_arithmetic :: "(u8 \<times> 't operation) list" where
  "frontier_arithmetic =
    [(STOP, (make_op opStop 0 0 0)
        \<lparr>op_halts := True\<rparr>),
     (ADD, make_op opAdd GasFastestStep 2 1),
     (MUL, make_op opMul GasFastStep 2 1),
     (SUB, make_op opSub GasFastestStep 2 1),
     (DIV, make_op opDiv GasFastStep 2 1),
     (SDIV, make_op opSdiv GasFastStep 2 1),
     (MOD, make_op opMod GasFastStep 2 1),
     (SMOD, make_op opSmod GasFastStep 2 1),
     (ADDMOD, make_op opAddmod GasMidStep 3 1),
     (MULMOD, make_op opMulmod GasMidStep 3 1),
     (EXP, (make_op opExp 0 2 1)
        \<lparr>dynamicGas := Some gasExpFrontier\<rparr>),
     (SIGNEXTEND, make_op opSignExtend GasFastStep 2 1),
     (LT, make_op opLt GasFastestStep 2 1),
     (GT, make_op opGt GasFastestStep 2 1),
     (SLT, make_op opSlt GasFastestStep 2 1),
     (SGT, make_op opSgt GasFastestStep 2 1),
     (EQ, make_op opEq GasFastestStep 2 1),
     (ISZERO, make_op opIszero GasFastestStep 1 1),
     (AND, make_op opAnd GasFastestStep 2 1),
     (XOR, make_op opXor GasFastestStep 2 1),
     (OR, make_op opOr GasFastestStep 2 1),
     (NOT, make_op opNot GasFastestStep 1 1),
     (BYTE, make_op opByte GasFastestStep 2 1)]"

definition frontier_environment :: "(u8 \<times> 't operation) list" where
  "frontier_environment =
    [(SHA3, (make_op opSha3 Sha3Gas 2 1)
        \<lparr>dynamicGas := Some gasSha3, memorySize := Some memorySha3\<rparr>),
     (ADDRESS, make_op opAddress GasQuickStep 0 1),
     (BALANCE, make_op opBalance BalanceGasFrontier 1 1),
     (ORIGIN, make_op opOrigin GasQuickStep 0 1),
     (CALLER, make_op opCaller GasQuickStep 0 1),
     (CALLVALUE, make_op opCallValue GasQuickStep 0 1),
     (CALLDATALOAD, make_op opCallDataLoad GasFastestStep 1 1),
     (CALLDATASIZE, make_op opCallDataSize GasQuickStep 0 1),
     (CALLDATACOPY, (make_op opCallDataCopy GasFastestStep 3 0)
        \<lparr>dynamicGas := Some gasCallDataCopy, memorySize := Some memoryCallDataCopy\<rparr>),
     (CODESIZE, make_op opCodeSize GasQuickStep 0 1),
     (CODECOPY, (make_op opCodeCopy GasFastestStep 3 0)
        \<lparr>dynamicGas := Some gasCodeCopy, memorySize := Some memoryCodeCopy\<rparr>),
     (GASPRICE, make_op opGasprice GasQuickStep 0 1),
     (EXTCODESIZE, make_op opExtCodeSize ExtcodeSizeGasFrontier 1 1),
     (EXTCODECOPY, (make_op opExtCodeCopy ExtcodeCopyBaseFrontier 4 0)
        \<lparr>dynamicGas := Some gasExtCodeCopy, memorySize := Some memoryExtCodeCopy\<rparr>),
     (BLOCKHASH, make_op opBlockhash GasExtStep 1 1),
     (COINBASE, make_op opCoinbase GasQuickStep 0 1),
     (TIMESTAMP, make_op opTimestamp GasQuickStep 0 1),
     (NUMBER, make_op opNumber GasQuickStep 0 1),
     (DIFFICULTY, make_op opDifficulty GasQuickStep 0 1),
     (GASLIMIT, make_op opGasLimit GasQuickStep 0 1)]"

definition frontier_stack :: "(u8 \<times> 't operation) list" where
  "frontier_stack =
    [(POP, make_op opPop GasQuickStep 1 0),
     (MLOAD, (make_op opMload GasFastestStep 1 1)
        \<lparr>dynamicGas := Some gasMLoad, memorySize := Some memoryMLoad\<rparr>),
     (MSTORE, (make_op opMstore GasFastestStep 2 0)
        \<lparr>dynamicGas := Some gasMStore, memorySize := Some memoryMStore\<rparr>),
     (MSTORE8, (make_op opMstore8 GasFastestStep 2 0)
        \<lparr>dynamicGas := Some gasMStore8, memorySize := Some memoryMStore8\<rparr>),
     (SLOAD, make_op opSload SloadGasFrontier 1 1),
     (SSTORE, (make_op opSstore 0 2 0)
        \<lparr>dynamicGas := Some gasSStore, op_writes := True\<rparr>),
     (JUMP, (make_op opJump GasMidStep 1 0)
        \<lparr>op_jumps := True\<rparr>),
     (JUMPI, (make_op opJumpi GasSlowStep 2 0)
        \<lparr>op_jumps := True\<rparr>),
     (PC, make_op opPc GasQuickStep 0 1),
     (MSIZE, make_op opMsize GasQuickStep 0 1),
     (GAS, make_op opGas GasQuickStep 0 1),
     (JUMPDEST, make_op opJumpdest JumpdestGas 0 0)]"

definition frontier_system :: "(u8 \<times> 't operation) list" where
  "frontier_system =
    [(LOG0, (make_op (makeLog 0) 0 2 0)
        \<lparr>dynamicGas := Some (makeGasLog 0), memorySize := Some memoryLog, op_writes := True\<rparr>),
     (LOG1, (make_op (makeLog 1) 0 3 0)
        \<lparr>dynamicGas := Some (makeGasLog 1), memorySize := Some memoryLog, op_writes := True\<rparr>),
     (LOG2, (make_op (makeLog 2) 0 4 0)
        \<lparr>dynamicGas := Some (makeGasLog 2), memorySize := Some memoryLog, op_writes := True\<rparr>),
     (LOG3, (make_op (makeLog 3) 0 5 0)
        \<lparr>dynamicGas := Some (makeGasLog 3), memorySize := Some memoryLog, op_writes := True\<rparr>),
     (LOG4, (make_op (makeLog 4) 0 6 0)
        \<lparr>dynamicGas := Some (makeGasLog 4), memorySize := Some memoryLog, op_writes := True\<rparr>),
     (CREATE, (make_op opCreate CreateGas 3 1)
        \<lparr>dynamicGas := Some gasCreate, memorySize := Some memoryCreate, op_writes := True, op_returns := True\<rparr>),
     (CALL, (make_op opCall CallGasFrontier 7 1)
        \<lparr>dynamicGas := Some gasCall, memorySize := Some memoryCall, op_returns := True\<rparr>),
     (CALLCODE, (make_op opCallCode CallGasFrontier 7 1)
        \<lparr>dynamicGas := Some gasCallCode, memorySize := Some memoryCall, op_returns := True\<rparr>),
     (RETURN, (make_op opReturn 0 2 0)
        \<lparr>dynamicGas := Some gasReturn, memorySize := Some memoryReturn, op_halts := True\<rparr>),
     (SELFDESTRUCT, (make_op opSuicide 0 1 0)
        \<lparr>dynamicGas := Some gasSelfdestruct, op_halts := True, op_writes := True\<rparr>)]"

definition frontier_push_low :: "(u8 \<times> 't operation) list" where
  "frontier_push_low =
    (PUSH1, make_op opPush1 GasFastestStep 0 1) #
    map (\<lambda>n. (PUSH1 + of_nat (n - 1), make_op (makePush (of_nat n) n) GasFastestStep 0 1)) [2..<17]"

definition frontier_push_high :: "(u8 \<times> 't operation) list" where
  "frontier_push_high =
    map (\<lambda>n. (PUSH1 + of_nat (n - 1), make_op (makePush (of_nat n) n) GasFastestStep 0 1)) [17..<33]"

definition frontier_dup :: "(u8 \<times> 't operation) list" where
  "frontier_dup =
    map (\<lambda>n. (DUP1 + of_nat (n - 1), (make_op (makeDup n) GasFastestStep 0 0)
      \<lparr>op_minStack := minDupStack n, op_maxStack := maxDupStack n\<rparr>)) [1..<17]"

definition frontier_swap :: "(u8 \<times> 't operation) list" where
  "frontier_swap =
    map (\<lambda>n. (SWAP1 + of_nat (n - 1), (make_op (makeSwap n) GasFastestStep 0 0)
      \<lparr>op_minStack := minSwapStack (n + 1), op_maxStack := maxSwapStack (n + 1)\<rparr>)) [1..<17]"

definition frontier_entries :: "(u8 \<times> 't operation) list" where
  "frontier_entries = frontier_arithmetic @ frontier_environment @ frontier_stack @ frontier_push_low @
     frontier_push_high @ frontier_dup @ frontier_swap @ frontier_system"

definition newFrontierInstructionSet :: "'t JumpTable" where
  "newFrontierInstructionSet = map_of frontier_entries"

section \<open>Statements on tables\<close>

datatype 't patch =
    NewOp u8 "'t operation"
  | SetConstantGas u8 u64
  | SetDynamicGas u8 "'t gasFunc"

fun apply_patch :: "'t patch \<Rightarrow> 't JumpTable \<Rightarrow> 't JumpTable outcome" where
  "apply_patch (NewOp op opn) jt = Done (jt(op \<mapsto> opn))"
| "apply_patch (SetConstantGas op gas) jt =
     (case jt op of None \<Rightarrow> Panicked NilDeref | Some opn \<Rightarrow> Done (jt(op \<mapsto> opn\<lparr>constantGas := gas\<rparr>)))"
| "apply_patch (SetDynamicGas op f) jt =
     (case jt op of None \<Rightarrow> Panicked NilDeref | Some opn \<Rightarrow> Done (jt(op \<mapsto> opn\<lparr>dynamicGas := Some f\<rparr>)))"

primrec apply_patches :: "'t patch list \<Rightarrow> 't JumpTable \<Rightarrow> 't JumpTable outcome" where
  "apply_patches [] jt = Done jt"
| "apply_patches (p # ps) jt = and_then (apply_patch p jt) (apply_patches ps)"

section \<open>Later instruction sets\<close>

definition newHomesteadInstructionSet :: "'t JumpTable outcome" where
  "newHomesteadInstructionSet =
     apply_patches
       [NewOp DELEGATECALL ((make_op opDelegateCall CallGasFrontier 6 1)
          \<lparr>dynamicGas := Some gasDelegateCall, memorySize := Some memoryDelegateCall, op_returns := True\<rparr>)]
       newFrontierInstructionSet"

definition newTangerineWhistleInstructionSet :: "'t JumpTable outcome" where
  "newTangerineWhistleInstructionSet =
     and_then newHomesteadInstructionSet (apply_patches
       [SetConstantGas BALANCE BalanceGasEIP150,
        SetConstantGas EXTCODESIZE ExtcodeSizeGasEIP150,
        SetConstantGas SLOAD SloadGasEIP150,
        SetConstantGas EXTCODECOPY ExtcodeCopyBaseEIP150,
        SetConstantGas CALL CallGasEIP150,
        SetConstantGas CALLCODE CallGasEIP150,
        SetConstantGas DELEGATECALL CallGasEIP150])"

definition newSpuriousDragonInstructionSet :: "'t JumpTable outcome" where
  "newSpuriousDragonInstructionSet =
     and_then newTangerineWhistleInstructionSet (apply_patches [SetDynamicGas EXP gasExpEIP158])"

definition newByzantiumInstructionSet :: "'t JumpTable outcome" where
  "newByzantiumInstructionSet =
     and_then newSpuriousDragonInstructionSet (apply_patches
       [NewOp STATICCALL ((make_op opStaticCall CallGasEIP150 6 1)
          \<lparr>dynamicGas := Some gasStaticCall, memorySize := Some memoryStaticCall, op_returns := True\<rparr>),
        NewOp RETURNDATASIZE (make_op opReturnDataSize GasQuickStep 0 1),
        NewOp RETURNDATACOPY ((make_op opReturnDataCopy GasFastestStep 3 0)
          \<lparr>dynamicGas := Some gasReturnDataCopy, memorySize := Some memoryReturnDataCopy\<rparr>),
        NewOp REVERT ((make_op opRevert 0 2 0)
          \<lparr>dynamicGas := Some gasRevert, memorySize := Some memoryRevert, op_reverts := True, op_returns := True\<rparr>)])"

definition newConstantinopleInstructionSet :: "'t JumpTable outcome" where
  "newConstantinopleInstructionSet =
     and_then newByzantiumInstructionSet (apply_patches
       [NewOp SHL (make_op opSHL GasFastestStep 2 1),
        NewOp SHR (make_op opSHR GasFastestStep 2 1),
        NewOp SAR (make_op opSAR GasFastestStep 2 1),
        NewOp EXTCODEHASH (make_op opExtCodeHash ExtcodeHashGasConstantinople 1 1),
        NewOp CREATE2 ((make_op opCreate2 Create2Gas 4 1)
          \<lparr>dynamicGas := Some gasCreate2, memorySize := Some memoryCreate2, op_writes := True, op_returns := True\<rparr>)])"

definition enable1344 :: "'t patch list" where
  "enable1344 = [NewOp CHAINID (make_op opChainID GasQuickStep 0 1)]"

definition enable1884 :: "'t patch list" where
  "enable1884 =
     [SetConstantGas SLOAD SloadGasEIP1884,
      SetConstantGas BALANCE BalanceGasEIP1884,
      SetConstantGas EXTCODEHASH ExtcodeHashGasEIP1884,
      NewOp SELFBALANCE (make_op opSelfBalance GasFastStep 0 1)]"

definition enable2200 :: "'t patch list" where
  "enable2200 = [SetConstantGas SLOAD SloadGasEIP2200, SetDynamicGas SSTORE gasSStoreEIP2200]"

definition enable2315 :: "'t patch list" where
  "enable2315 =
     [NewOp BEGINSUB (make_op opBeginSub GasQuickStep 0 0),
      NewOp JUMPSUB ((make_op opJumpSub GasSlowStep 1 0)\<lparr>op_jumps := True\<rparr>),
      NewOp RETURNSUB ((make_op opReturnSub GasFastStep 0 0)\<lparr>op_jumps := True\<rparr>)]"

definition newIstanbulInstructionSet :: "'t JumpTable outcome" where
  "newIstanbulInstructionSet =
     and_then newConstantinopleInstructionSet (apply_patches (enable1344 @ enable1884 @ enable2200))"

definition newYoloV1InstructionSet :: "'t JumpTable outcome" where
  "newYoloV1InstructionSet = and_then newIstanbulInstructionSet (apply_patches enable2315)"

definition activators :: "int \<rightharpoonup> 't patch list" where
  "activators = [2200 \<mapsto> enable2200, 1884 \<mapsto> enable1884, 1344 \<mapsto> enable1344, 2315 \<mapsto> enable2315]"

definition ValidEip :: "int \<Rightarrow> bool" where
  "ValidEip eipNum = ((activators eipNum :: unit patch list option) \<noteq> None)"

section \<open>Extra EIPs and shared tables\<close>

text \<open>\<open>NewEVMInterpreter\<close> copies a package-level table; the copy holds the same pointers. A
  \<open>live_table\<close> is such a copy with the set of entries whose pointer is still the package's, so
  that a write through it reaches the package-level table as well.\<close>

record 't live_table =
  lt_entries :: "'t JumpTable"
  lt_shared :: "u8 set"

definition write_entry ::
    "u8 \<Rightarrow> ('t operation \<Rightarrow> 't operation) \<Rightarrow> 't JumpTable \<times> 't live_table \<Rightarrow> ('t JumpTable \<times> 't live_table) outcome" where
  "write_entry op f = (\<lambda>(pkg, lt).
     case lt_entries lt op of
       None \<Rightarrow> Panicked NilDeref
     | Some opn \<Rightarrow>
         Done (if op \<in> lt_shared lt then pkg(op \<mapsto> f opn) else pkg,
               lt\<lparr>lt_entries := (lt_entries lt)(op \<mapsto> f opn)\<rparr>))"

fun apply_live :: "'t patch \<Rightarrow> 't JumpTable \<times> 't live_table \<Rightarrow> ('t JumpTable \<times> 't live_table) outcome" where
  "apply_live (NewOp op opn) (pkg, lt) =
     Done (pkg, lt\<lparr>lt_entries := (lt_entries lt)(op \<mapsto> opn), lt_shared := lt_shared lt - {op}\<rparr>)"
| "apply_live (SetConstantGas op gas) (pkg, lt) = write_entry op (constantGas_update (\<lambda>_. gas)) (pkg, lt)"
| "apply_live (SetDynamicGas op f) (pkg, lt) = write_entry op (dynamicGas_update (\<lambda>_. Some f)) (pkg, lt)"

primrec apply_lives ::
    "'t patch list \<Rightarrow> 't JumpTable \<times> 't live_table \<Rightarrow> ('t JumpTable \<times> 't live_table) outcome" where
  "apply_lives [] st = Done st"
| "apply_lives (p # ps) st = and_then (apply_live p st) (apply_lives ps)"

text \<open>\<open>EnableEIP\<close> returns whether the EIP was known, with the tables.\<close>

definition EnableEIP ::
    "int \<Rightarrow> 't JumpTable \<times> 't live_table \<Rightarrow> (bool \<times> 't JumpTable \<times> 't live_table) outcome" where
  "EnableEIP eipNum st =
     (case activators eipNum of
        None \<Rightarrow> Done (False, st)
      | Some enablerFn \<Rightarrow> and_then (apply_lives enablerFn st) (\<lambda>st1. Done (True, st1)))"

end
