(* ===== verification/Vm_Interpreter.thy ===== *)
theory Vm_Interpreter
  imports Vm_Jump_Table
begin

text \<open>
  \<open>core/vm/interpreter.go\<close>: choosing the instruction set, and the loop of \<open>Run\<close>. The loop takes
  fuel: each iteration uses one unit, and the calls an instruction makes run with what is left.
  \<open>Vm_Gas_Bound\<close> shows that fuel above the gas of the contract is never used up.
\<close>

section \<open>NewEVMInterpreter\<close>

datatype fork = Frontier | Homestead | TangerineWhistle | SpuriousDragon | Byzantium | Constantinople
  | Istanbul | YoloV1

text \<open>The package-level tables, as the package initialises them.\<close>

fun instructionSet :: "fork \<Rightarrow> 't JumpTable outcome" where
  "instructionSet Frontier = Done newFrontierInstructionSet"
| "instructionSet Homestead = newHomesteadInstructionSet"
| "instructionSet TangerineWhistle = newTangerineWhistleInstructionSet"
| "instructionSet SpuriousDragon = newSpuriousDragonInstructionSet"
| "instructionSet Byzantium = newByzantiumInstructionSet"
| "instructionSet Constantinople = newConstantinopleInstructionSet"
| "instructionSet Istanbul = newIstanbulInstructionSet"
| "instructionSet YoloV1 = newYoloV1InstructionSet"

definition select_fork :: "Rules \<Rightarrow> fork" where
  "select_fork rules =
     (if IsYoloV1 rules then YoloV1
      else if IsIstanbul rules then Istanbul
      else if IsConstantinople rules then Constantinople
      else if IsByzantium rules then Byzantium
      else if IsEIP158 rules then SpuriousDragon
      else if IsEIP150 rules then TangerineWhistle
      else if IsHomestead rules then Homestead
      else Frontier)"

text \<open>The loop over \<open>cfg.ExtraEips\<close>. It ranges over the slice as it was at the start, while the body
  removes unknown EIPs from the same backing array \<open>arr\<close>: \<open>n\<close> is the current length of
  \<open>cfg.ExtraEips\<close>, \<open>i\<close> the index, \<open>k\<close> the number of iterations left.\<close>

primrec extra_eips ::
    "nat \<Rightarrow> nat \<Rightarrow> int list \<Rightarrow> nat \<Rightarrow> 't JumpTable \<times> 't live_table \<Rightarrow>
     (int list \<times> 't JumpTable \<times> 't live_table) outcome" where
  "extra_eips 0 i arr n st = Done (take n arr, st)"
| "extra_eips (Suc k) i arr n st =
     and_then (EnableEIP (arr ! i) st) (\<lambda>(known, st1).
       if known then extra_eips k (i + 1) arr n st1
       else if n < i + 1 then Panicked SliceBounds
       else extra_eips k (i + 1) (take i arr @ slice arr (i + 1) n @ drop (n - 1) arr) (n - 1) st1)"

text \<open>It returns the EIPs that stay configured, the package-level tables and the table of the new
  interpreter. \<open>preset\<close> is \<open>cfg.JumpTable\<close>.\<close>

definition NewEVMInterpreter ::
    "(fork \<Rightarrow> 't JumpTable) \<Rightarrow> Rules \<Rightarrow> Config \<Rightarrow> 't JumpTable \<Rightarrow>
     (int list \<times> (fork \<Rightarrow> 't JumpTable) \<times> 't JumpTable) outcome" where
  "NewEVMInterpreter tables rules cfg preset =
     (if preset STOP = None then
        (let f = select_fork rules;
             eips = ExtraEips cfg
         in and_then
              (extra_eips (length eips) 0 eips (length eips)
                 (tables f, \<lparr> lt_entries = tables f, lt_shared = UNIV \<rparr>))
              (\<lambda>(eips1, pkg, lt). Done (eips1, tables(f := pkg), lt_entries lt)))
      else Done (ExtraEips cfg, tables, preset))"

section \<open>One iteration of the loop\<close>

datatype 't stepped = Next "'t machine" | Halt bytes "evm_error option" "'t machine"

definition write_protected ::
    "'t env \<Rightarrow> u8 \<Rightarrow> 't operation \<Rightarrow> 't machine \<Rightarrow> bool outcome" where
  "write_protected E op opn m =
     (if readOnly (m_evm m) \<and> IsByzantium (chainRules E) then
        (if op_writes opn then Done True
         else if op = CALL then and_then (stack_Back 2 (m_stack m)) (\<lambda>v. Done (u_Sign (env_X E) v \<noteq> 0))
         else Done False)
      else Done False)"

text \<open>The memory size an operation needs, in whole words.\<close>

definition memory_needed :: "'t env \<Rightarrow> 't operation \<Rightarrow> stack \<Rightarrow> (evm_error + u64) outcome" where
  "memory_needed E opn st =
     (case memorySize opn of
        None \<Rightarrow> Done (Inr 0)
      | Some f \<Rightarrow>
          and_then (f (env_X E) st) (\<lambda>(memSize, overflow).
            Done (if overflow then Inl ErrGasUintOverflow
                  else no_overflow (SafeMul (toWordSize memSize) 32))))"

text \<open>The dynamic gas is charged, and the memory grows. Any failure is \<open>ErrOutOfGas\<close>.\<close>

definition charge_dynamic ::
    "'t env \<Rightarrow> 't operation \<Rightarrow> u64 \<Rightarrow> 't machine \<Rightarrow> (bool \<times> 't machine) outcome" where
  "charge_dynamic E opn msize m =
     (case dynamicGas opn of
        None \<Rightarrow> Done (True, m)
      | Some f \<Rightarrow>
          and_then (f E (m_evm m) (m_contract m) (m_stack m) (m_memory m) msize) (\<lambda>(r, evm, mem).
            (let m1 = m\<lparr>m_evm := evm, m_memory := mem\<rparr>
             in case r of
                  Inl err \<Rightarrow> Done (False, m1)
                | Inr cost \<Rightarrow>
                    (let (paid, c) = UseGas cost (m_contract m) in Done (paid, m1\<lparr>m_contract := c\<rparr>)))))"

definition grow_memory :: "u64 \<Rightarrow> 't machine \<Rightarrow> 't machine" where
  "grow_memory msize m =
     (if msize > 0 then m\<lparr>m_memory := Memory_Resize msize (m_memory m)\<rparr> else m)"

definition after_execute :: "'t operation \<Rightarrow> 't executed \<Rightarrow> 't stepped" where
  "after_execute opn = (\<lambda>(res, err, m).
     (let m1 = (if op_returns opn then m\<lparr>m_evm := (m_evm m)\<lparr>returnData := res\<rparr>\<rparr> else m)
      in case err of
           Some e \<Rightarrow> Halt [] (Some e) m1
         | None \<Rightarrow>
             if op_reverts opn then Halt res (Some ErrExecutionReverted) m1
             else if op_halts opn then Halt res None m1
             else if \<not> op_jumps opn then Next (m1\<lparr>m_pc := m_pc m1 + 1\<rparr>)
             else Next m1))"

definition interp_step ::
    "'t JumpTable \<Rightarrow> 't env \<Rightarrow> 't runner \<Rightarrow> 't machine \<Rightarrow> 't stepped outcome" where
  "interp_step jt E run m =
     (let op = GetOp (m_pc m) (m_contract m); sLen = stack_len (m_stack m)
      in case jt op of
           None \<Rightarrow> Done (Halt [] (Some (ErrInvalidOpCode op)) m)
         | Some opn \<Rightarrow>
             if sLen < op_minStack opn then Done (Halt [] (Some (ErrStackUnderflow sLen (op_minStack opn))) m)
             else if sLen > op_maxStack opn then Done (Halt [] (Some (ErrStackOverflow sLen (op_maxStack opn))) m)
             else and_then (write_protected E op opn m) (\<lambda>prot.
               if prot then Done (Halt [] (Some ErrWriteProtection) m)
               else
                 (let (paid, c) = UseGas (constantGas opn) (m_contract m); m1 = m\<lparr>m_contract := c\<rparr>
                  in if \<not> paid then Done (Halt [] (Some ErrOutOfGas) m1)
                     else and_then (memory_needed E opn (m_stack m1)) (\<lambda>r.
                       case r of
                         Inl err \<Rightarrow> Done (Halt [] (Some err) m1)
                       | Inr msize \<Rightarrow>
                           and_then (charge_dynamic E opn msize m1) (\<lambda>(paid, m2).
                             if \<not> paid then Done (Halt [] (Some ErrOutOfGas) m2)
                             else and_then (execute opn E run (grow_memory msize m2)) (\<lambda>r.
                               Done (after_execute opn r)))))))"

section \<open>Run\<close>

text \<open>\<open>Run\<close> around its loop: depth, read-only mode and return data, and the deferred resets.\<close>

definition run_with :: "('t machine \<Rightarrow> 't executed outcome) \<Rightarrow> 't runner" where
  "run_with loop evm c input ro =
     (let setRO = ro \<and> \<not> readOnly evm;
          evm1 = evm\<lparr>depth := depth evm + 1, readOnly := (if setRO then True else readOnly evm), returnData := []\<rparr>;
          finish = (\<lambda>(ret, err, evm2, c2).
            (ret, err, evm2\<lparr>depth := depth evm2 - 1, readOnly := (if setRO then False else readOnly evm2)\<rparr>, c2))
      in if length (Code c) = 0 then Done (finish ([], None, evm1, c))
         else and_then
                (loop \<lparr> m_pc = 0, m_evm = evm1, m_memory = NewMemory, m_stack = newstack,
                        m_rstack = newReturnStack, m_contract = c\<lparr>Input := input\<rparr> \<rparr>)
                (\<lambda>(ret, err, m). Done (finish (ret, err, m_evm m, m_contract m))))"

text \<open>Every thousandth iteration loads the \<open>abort\<close> flag.\<close>

definition check_abort :: "'t env \<Rightarrow> nat \<Rightarrow> 't machine \<Rightarrow> bool \<times> 't machine" where
  "check_abort E stepno m =
     (if stepno mod 1000 = 0
      then (abort_load E (abort_loads (m_evm m)), m\<lparr>m_evm := (m_evm m)\<lparr>abort_loads := abort_loads (m_evm m) + 1\<rparr>\<rparr>)
      else (False, m))"

primrec interp_loop ::
    "nat \<Rightarrow> 't JumpTable \<Rightarrow> 't env \<Rightarrow> nat \<Rightarrow> 't machine \<Rightarrow> 't executed outcome" where
  "interp_loop 0 jt E stepno m = NoFuel"
| "interp_loop (Suc fuel) jt E stepno m =
     (let (aborted, m1) = check_abort E (stepno + 1) m
      in if aborted then Done ([], None, m1)
         else and_then (interp_step jt E (run_with (interp_loop fuel jt E 0)) m1) (\<lambda>r.
           case r of
             Next m2 \<Rightarrow> interp_loop fuel jt E (stepno + 1) m2
           | Halt ret err m2 \<Rightarrow> Done (ret, err, m2)))"

definition interp_Run :: "nat \<Rightarrow> 't JumpTable \<Rightarrow> 't env \<Rightarrow> 't runner" where
  "interp_Run fuel jt E = run_with (interp_loop fuel jt E 0)"

section \<open>The EVM with its interpreter\<close>

definition Call :: "nat \<Rightarrow> 't JumpTable \<Rightarrow> 't env \<Rightarrow> 't EVM \<Rightarrow> ContractRef \<Rightarrow> address \<Rightarrow> bytes \<Rightarrow> u64 \<Rightarrow> int \<Rightarrow> 't called outcome" where
  "Call fuel jt E = evm_Call E (interp_Run fuel jt E)"

definition CallCode :: "nat \<Rightarrow> 't JumpTable \<Rightarrow> 't env \<Rightarrow> 't EVM \<Rightarrow> ContractRef \<Rightarrow> address \<Rightarrow> bytes \<Rightarrow> u64 \<Rightarrow> int \<Rightarrow> 't called outcome" where
  "CallCode fuel jt E = evm_CallCode E (interp_Run fuel jt E)"

definition DelegateCall :: "nat \<Rightarrow> 't JumpTable \<Rightarrow> 't env \<Rightarrow> 't EVM \<Rightarrow> ContractRef \<Rightarrow> address \<Rightarrow> bytes \<Rightarrow> u64 \<Rightarrow> 't called outcome" where
  "DelegateCall fuel jt E = evm_DelegateCall E (interp_Run fuel jt E)"

definition StaticCall :: "nat \<Rightarrow> 't JumpTable \<Rightarrow> 't env \<Rightarrow> 't EVM \<Rightarrow> ContractRef \<Rightarrow> address \<Rightarrow> bytes \<Rightarrow> u64 \<Rightarrow> 't called outcome" where
  "StaticCall fuel jt E = evm_StaticCall E (interp_Run fuel jt E)"

definition Create :: "nat \<Rightarrow> 't JumpTable \<Rightarrow> 't env \<Rightarrow> 't EVM \<Rightarrow> ContractRef \<Rightarrow> bytes \<Rightarrow> u64 \<Rightarrow> int \<Rightarrow> 't created outcome" where
  "Create fuel jt E = evm_Create E (interp_Run fuel jt E)"

definition Create2 :: "nat \<Rightarrow> 't JumpTable \<Rightarrow> 't env \<Rightarrow> 't EVM \<Rightarrow> ContractRef \<Rightarrow> bytes \<Rightarrow> u64 \<Rightarrow> int \<Rightarrow> u256 \<Rightarrow> 't created outcome" where
  "Create2 fuel jt E = evm_Create2 E (interp_Run fuel jt E)"

end
