(* ===== verification/Vm_Frame.thy ===== *)
theory Vm_Frame
  imports Vm_Interpreter
begin

text \<open>
  What an instruction leaves alone. \<open>frame\<close> says that an instruction keeps the contract except for
  its cached analyses, the size of the memory and every field of the EVM except the state, that it
  changes the state only by operations the journal records, and how the height of the stack
  changes. The locale \<open>transfers\<close> states what the EVM relies on of the functions of its
  \<open>Context\<close>; it is interpreted on \<open>CanTransfer\<close> and \<open>Transfer\<close> of \<open>core/evm.go\<close>.
\<close>

section \<open>State changes\<close>

text \<open>\<open>grows\<close>: the state went on from where it was, with every snapshot taken before still valid.\<close>

definition grows :: "'t env \<Rightarrow> 't StateDB \<Rightarrow> 't StateDB \<Rightarrow> bool" where
  "grows E s s' \<longleftrightarrow>
     (\<forall>s0. extends (env_X E) (env_D E) s0 s \<longrightarrow> extends (env_X E) (env_D E) s0 s')"

lemma grows_refl [simp]: "grows E s s"
  by (simp add: grows_def)

lemma grows_trans [trans]: "grows E s s' \<Longrightarrow> grows E s' s'' \<Longrightarrow> grows E s s''"
  by (auto simp: grows_def)

locale transfers =
  fixes E :: "'t env"
  assumes inj: "addr_hash_inj (env_X E)"
    and CanTransfer_steps: "steps (env_X E) (env_D E) s (snd (ctx_CanTransfer E s a v))"
    and CanTransfer_sim: "sim (env_X E) (env_D E) s (snd (ctx_CanTransfer E s a v))"
    and Transfer_steps: "steps (env_X E) (env_D E) s (ctx_Transfer E s a b v)"
begin

lemma grows_steps: "steps (env_X E) (env_D E) s s' \<Longrightarrow> grows E s s'"
  using extends_steps [OF inj] by (auto simp: grows_def)

lemma grows_Snapshot: "grows E s (snd (Snapshot_op s))"
  using extends_Snapshot [OF inj] by (auto simp: grows_def)

lemma grows_getters:
  assumes "grows E s0 s"
  shows "grows E s0 (snd (Exist (env_X E) (env_D E) a s))" "grows E s0 (snd (Empty (env_X E) (env_D E) a s))"
    "grows E s0 (snd (GetBalance (env_X E) (env_D E) a s))" "grows E s0 (snd (GetNonce (env_X E) (env_D E) a s))"
    "grows E s0 (snd (GetCodeHash (env_X E) (env_D E) a s))" "grows E s0 (snd (HasSuicided (env_X E) (env_D E) a s))"
    "grows E s0 (snd (GetCode (env_X E) (env_D E) a s))" "grows E s0 (snd (GetCodeSize (env_X E) (env_D E) a s))"
    "grows E s0 (snd (ctx_CanTransfer E s a v))" "grows E s0 (snd (Snapshot_op s))"
  by (rule grows_trans [OF assms], intro grows_steps steps_getters steps_GetCode steps_GetCodeSize
      CanTransfer_steps grows_Snapshot)+

lemma grows_setters:
  assumes "grows E s0 s"
  shows "grows E s0 (AddBalance (env_X E) (env_D E) a v s)" "grows E s0 (SetNonce (env_X E) (env_D E) a n s)"
    "grows E s0 (SetCode (env_X E) (env_D E) a c s)" "grows E s0 (CreateAccount (env_X E) (env_D E) a s)"
    "grows E s0 (snd (Suicide (env_X E) (env_D E) a s))" "grows E s0 (AddLog l s)" "grows E s0 (AddPreimage h p s)"
    "grows E s0 (AddRefund g s)" "grows E s0 (ctx_Transfer E s a b v)"
  by (rule grows_trans [OF assms], intro grows_steps steps_setters steps_CreateAccount steps_Suicide steps_AddLog
      steps_AddPreimage steps_AddRefund Transfer_steps inj)+

lemma grows_partial:
  "GetState (env_X E) (env_D E) a k s = Done (v, s') \<Longrightarrow> grows E s s'"
  "GetCommittedState (env_X E) (env_D E) a k s = Done (v, s') \<Longrightarrow> grows E s s'"
  "SetState (env_X E) (env_D E) a k v s = Done s' \<Longrightarrow> grows E s s'"
  "SubRefund g s = Done s' \<Longrightarrow> grows E s s'"
  by (auto intro!: grows_steps intro: steps_GetState steps_GetCommittedState steps_SetState [OF inj] steps_SubRefund)

end

text \<open>The context that \<open>core.NewEVMContext\<close> builds provides the contract.\<close>

definition core_env :: "ext \<Rightarrow> 't Database \<Rightarrow> 't env \<Rightarrow> 't env" where
  "core_env X D E = E\<lparr>env_X := X, env_D := D, ctx_CanTransfer := CanTransfer X D, ctx_Transfer := Transfer X D\<rparr>"

lemma core_env_simps [simp]:
  "env_X (core_env X D E) = X" "env_D (core_env X D E) = D"
  "ctx_CanTransfer (core_env X D E) = CanTransfer X D" "ctx_Transfer (core_env X D E) = Transfer X D"
  "chainRules (core_env X D E) = chainRules E" "vmConfig (core_env X D E) = vmConfig E"
  by (simp_all add: core_env_def)

lemma core_transfers:
  assumes "addr_hash_inj X"
  shows "transfers (core_env X D E)"
proof (unfold_locales, unfold core_env_simps)
  show "steps X D s (snd (CanTransfer X D s a v))" for s a v
    using steps_getters(3) [of X D s a] by (simp add: CanTransfer_def case_prod_unfold Let_def)
  show "sim X D s (snd (CanTransfer X D s a v))" for s a v
    by (simp add: CanTransfer_def GetBalance_def getStateObject_eq sim_cached)
  show "steps X D s (Transfer X D s a b v)" for s a b v
    unfolding Transfer_def by (rule steps_trans [OF assms steps_setters(2,1) [OF assms]])
qed (rule assms)

interpretation core: transfers "core_env word_ext D E" for D E
  by (rule core_transfers [OF addr_hash_inj_word])

section \<open>Frames\<close>

definition same_contract :: "Contract \<Rightarrow> Contract \<Rightarrow> bool" where
  "same_contract c c' \<longleftrightarrow> (\<exists>jd an. c' = c\<lparr>jumpdests := jd, analysis := an\<rparr>)"

definition same_size :: "Memory \<Rightarrow> Memory \<Rightarrow> bool" where
  "same_size mem mem' \<longleftrightarrow> length (store mem') = length (store mem) \<and> lastGasCost mem' = lastGasCost mem"

definition same_evm :: "'t env \<Rightarrow> 't EVM \<Rightarrow> 't EVM \<Rightarrow> bool" where
  "same_evm E evm evm' \<longleftrightarrow>
     (\<exists>s. evm' = evm\<lparr>evm_StateDB := s\<rparr> \<and> (transfers E \<longrightarrow> grows E (evm_StateDB evm) s))"

definition frame :: "'t env \<Rightarrow> int \<Rightarrow> 't machine \<Rightarrow> 't executed \<Rightarrow> bool" where
  "frame E d m = (\<lambda>(res, err, m').
     same_contract (m_contract m) (m_contract m') \<and>
     (uint256_api (env_X E) \<longrightarrow> same_size (m_memory m) (m_memory m')) \<and> same_evm E (m_evm m) (m_evm m') \<and>
     (err = None \<longrightarrow> int (length (m_stack m')) = int (length (m_stack m)) + d))"

lemma same_contract_refl [simp]: "same_contract c c"
  unfolding same_contract_def by (rule exI [of _ "jumpdests c"], rule exI [of _ "analysis c"]) simp

lemma same_contract_fields:
  assumes "same_contract c c'"
  shows "Gas c' = Gas c" "Code c' = Code c" "self c' = self c" "CodeHash c' = CodeHash c" "Input c' = Input c"
    "c_value c' = c_value c" "CallerAddress c' = CallerAddress c"
  using assms by (auto simp: same_contract_def)

lemma same_size_refl [simp]: "same_size mem mem"
  by (simp add: same_size_def)

lemma same_evm_refl [simp]: "same_evm E evm evm"
  unfolding same_evm_def by (rule exI [of _ "evm_StateDB evm"]) simp

lemma same_evm_trans: "same_evm E evm evm' \<Longrightarrow> same_evm E evm' evm'' \<Longrightarrow> same_evm E evm evm''"
  unfolding same_evm_def using grows_trans [of E "evm_StateDB evm"] by fastforce

lemma same_evm_set: "(transfers E \<Longrightarrow> grows E (evm_StateDB evm) s) \<Longrightarrow> same_evm E evm (evm\<lparr>evm_StateDB := s\<rparr>)"
  by (auto simp: same_evm_def)

lemma same_evm_on_state: "(transfers E \<Longrightarrow> grows E (evm_StateDB evm) (f (evm_StateDB evm))) \<Longrightarrow> same_evm E evm (on_state f evm)"
  by (auto simp: same_evm_def on_state_def)

lemma lift_state_snd: "snd (lift_state f evm) = evm\<lparr>evm_StateDB := snd (f (evm_StateDB evm))\<rparr>"
  by (simp add: lift_state_def case_prod_unfold Let_def)

lemma same_evm_lift_state:
  "(transfers E \<Longrightarrow> grows E (evm_StateDB evm) (snd (f (evm_StateDB evm)))) \<Longrightarrow>
   lift_state f evm = (r, evm') \<Longrightarrow> same_evm E evm evm'"
  using lift_state_snd [of f evm] by (auto simp: same_evm_def)

lemma same_evm_fields:
  assumes "same_evm E evm evm'"
  shows "depth evm' = depth evm" "callGasTemp evm' = callGasTemp evm" "readOnly evm' = readOnly evm"
    "returnData evm' = returnData evm" "abort_loads evm' = abort_loads evm"
  using assms by (auto simp: same_evm_def)

text \<open>Looking up a jump destination only fills the caches.\<close>

lemma isCode_same: "isCode c d = Done (b, c') \<Longrightarrow> same_contract c c'"
proof -
  have 1: "same_contract c (c\<lparr>analysis := a\<rparr>)" for a
    unfolding same_contract_def by (rule exI [of _ "jumpdests c"], rule exI [of _ a]) simp
  have 2: "same_contract c (c\<lparr>jumpdests := jd, analysis := a\<rparr>)" for jd a
    unfolding same_contract_def by blast
  assume "isCode c d = Done (b, c')"
  then show ?thesis using 1 2
    by (auto simp: isCode_def and_then_iffs split: option.splits if_splits)
qed

lemma validJumpdest_same: "validJumpdest X d c = Done (b, c') \<Longrightarrow> same_contract c c'"
  using isCode_same by (auto simp: validJumpdest_def Let_def split: prod.splits if_splits)

lemma validJumpSubdest_same: "validJumpSubdest d c = Done (b, c') \<Longrightarrow> same_contract c c'"
  using isCode_same by (auto simp: validJumpSubdest_def split: if_splits)

lemma Memory_Set_same: "Memory_Set a n v mem = Done mem' \<Longrightarrow> same_size mem mem'"
  using Memory_Set_length by (simp add: same_size_def)

section \<open>The plain instructions\<close>

lemma stack_pop_Done: "stack_pop st = Done r \<longleftrightarrow> st = fst r # snd r"
  by (cases st; cases r) (auto simp: stack_pop_def)

lemma stack_peek_Done: "stack_peek st = Done x \<longleftrightarrow> (\<exists>r. st = x # r)"
  by (cases st) (auto simp: stack_peek_def)

lemmas exec_simps = continue_def fail_def and_then_iffs case_prod_unfold Let_def stack_pop_Done
  stack_peek_Done read_state_def lift_state_def copy_data_def on_state_def frame_def

lemmas frame_intros = same_evm_set transfers.grows_getters transfers.grows_setters

named_theorems frames \<open>frames of the instructions, with the change of the stack height\<close>

lemma binop_frame: "binop f E run m = Done r \<Longrightarrow> frame E (- 1) m r"
  by (auto simp: binop_def exec_simps)

lemma unop_frame: "unop f E run m = Done r \<Longrightarrow> frame E 0 m r"
  by (auto simp: unop_def exec_simps)

lemma pushop_frame: "pushop f E run m = Done r \<Longrightarrow> frame E 1 m r"
  by (auto simp: pushop_def exec_simps)

lemma binop_frames [frames]:
  "opAdd E run m = Done r \<Longrightarrow> frame E (- 1) m r" "opSub E run m = Done r \<Longrightarrow> frame E (- 1) m r"
  "opMul E run m = Done r \<Longrightarrow> frame E (- 1) m r" "opDiv E run m = Done r \<Longrightarrow> frame E (- 1) m r"
  "opSdiv E run m = Done r \<Longrightarrow> frame E (- 1) m r" "opMod E run m = Done r \<Longrightarrow> frame E (- 1) m r"
  "opSmod E run m = Done r \<Longrightarrow> frame E (- 1) m r" "opExp E run m = Done r \<Longrightarrow> frame E (- 1) m r"
  "opSignExtend E run m = Done r \<Longrightarrow> frame E (- 1) m r" "opLt E run m = Done r \<Longrightarrow> frame E (- 1) m r"
  "opGt E run m = Done r \<Longrightarrow> frame E (- 1) m r" "opSlt E run m = Done r \<Longrightarrow> frame E (- 1) m r"
  "opSgt E run m = Done r \<Longrightarrow> frame E (- 1) m r" "opEq E run m = Done r \<Longrightarrow> frame E (- 1) m r"
  "opAnd E run m = Done r \<Longrightarrow> frame E (- 1) m r" "opOr E run m = Done r \<Longrightarrow> frame E (- 1) m r"
  "opXor E run m = Done r \<Longrightarrow> frame E (- 1) m r" "opByte E run m = Done r \<Longrightarrow> frame E (- 1) m r"
  "opSHL E run m = Done r \<Longrightarrow> frame E (- 1) m r" "opSHR E run m = Done r \<Longrightarrow> frame E (- 1) m r"
  "opSAR E run m = Done r \<Longrightarrow> frame E (- 1) m r"
  unfolding opAdd_def opSub_def opMul_def opDiv_def opSdiv_def opMod_def opSmod_def opExp_def opSignExtend_def
    opLt_def opGt_def opSlt_def opSgt_def opEq_def opAnd_def opOr_def opXor_def opByte_def opSHL_def opSHR_def opSAR_def
  by (erule binop_frame)+

lemma unop_frames [frames]:
  "opNot E run m = Done r \<Longrightarrow> frame E 0 m r" "opIszero E run m = Done r \<Longrightarrow> frame E 0 m r"
  unfolding opNot_def opIszero_def by (erule unop_frame)+

lemma pushop_frames [frames]:
  "opAddress E run m = Done r \<Longrightarrow> frame E 1 m r" "opOrigin E run m = Done r \<Longrightarrow> frame E 1 m r"
  "opCaller E run m = Done r \<Longrightarrow> frame E 1 m r" "opCallDataSize E run m = Done r \<Longrightarrow> frame E 1 m r"
  "opReturnDataSize E run m = Done r \<Longrightarrow> frame E 1 m r" "opCodeSize E run m = Done r \<Longrightarrow> frame E 1 m r"
  "opGasprice E run m = Done r \<Longrightarrow> frame E 1 m r" "opCoinbase E run m = Done r \<Longrightarrow> frame E 1 m r"
  "opTimestamp E run m = Done r \<Longrightarrow> frame E 1 m r" "opNumber E run m = Done r \<Longrightarrow> frame E 1 m r"
  "opDifficulty E run m = Done r \<Longrightarrow> frame E 1 m r" "opGasLimit E run m = Done r \<Longrightarrow> frame E 1 m r"
  "opChainID E run m = Done r \<Longrightarrow> frame E 1 m r" "opPc E run m = Done r \<Longrightarrow> frame E 1 m r"
  "opMsize E run m = Done r \<Longrightarrow> frame E 1 m r" "opGas E run m = Done r \<Longrightarrow> frame E 1 m r"
  unfolding opAddress_def opOrigin_def opCaller_def opCallDataSize_def opReturnDataSize_def opCodeSize_def
    opGasprice_def opCoinbase_def opTimestamp_def opNumber_def opDifficulty_def opGasLimit_def opChainID_def
    opPc_def opMsize_def opGas_def
  by (erule pushop_frame)+

lemma opAddmod_frame [frames]: "opAddmod E run m = Done r \<Longrightarrow> frame E (- 2) m r"
  by (auto simp: opAddmod_def exec_simps intro!: frame_intros split: if_splits option.splits)

lemma opMulmod_frame [frames]: "opMulmod E run m = Done r \<Longrightarrow> frame E (- 2) m r"
  by (auto simp: opMulmod_def exec_simps intro!: frame_intros split: if_splits option.splits)

lemma opSha3_frame [frames]: "opSha3 E run m = Done r \<Longrightarrow> frame E (- 1) m r"
  by (auto simp: opSha3_def exec_simps intro!: frame_intros split: if_splits option.splits)

lemma opBalance_frame [frames]: "opBalance E run m = Done r \<Longrightarrow> frame E 0 m r"
  by (auto simp: opBalance_def exec_simps intro!: frame_intros split: if_splits option.splits)

lemma opCallValue_frame [frames]: "opCallValue E run m = Done r \<Longrightarrow> frame E 1 m r"
  by (auto simp: opCallValue_def exec_simps intro!: frame_intros split: if_splits option.splits)

lemma opCallDataLoad_frame [frames]: "opCallDataLoad E run m = Done r \<Longrightarrow> frame E 0 m r"
  by (auto simp: opCallDataLoad_def exec_simps intro!: frame_intros split: if_splits option.splits)

lemma opExtCodeSize_frame [frames]: "opExtCodeSize E run m = Done r \<Longrightarrow> frame E 0 m r"
  by (auto simp: opExtCodeSize_def exec_simps intro!: frame_intros split: if_splits option.splits)

lemma opExtCodeHash_frame [frames]: "opExtCodeHash E run m = Done r \<Longrightarrow> frame E 0 m r"
  by (auto simp: opExtCodeHash_def exec_simps intro!: frame_intros split: if_splits option.splits)

lemma opBlockhash_frame [frames]: "opBlockhash E run m = Done r \<Longrightarrow> frame E 0 m r"
  by (auto simp: opBlockhash_def exec_simps intro!: frame_intros split: if_splits option.splits)

lemma opSelfBalance_frame [frames]: "opSelfBalance E run m = Done r \<Longrightarrow> frame E 1 m r"
  by (auto simp: opSelfBalance_def exec_simps intro!: frame_intros split: if_splits option.splits)

lemma opPop_frame [frames]: "opPop E run m = Done r \<Longrightarrow> frame E (- 1) m r"
  by (auto simp: opPop_def exec_simps intro!: frame_intros split: if_splits option.splits)

lemma opMload_frame [frames]: "opMload E run m = Done r \<Longrightarrow> frame E 0 m r"
  by (auto simp: opMload_def exec_simps intro!: frame_intros split: if_splits option.splits)

lemma opCallDataCopy_frame [frames]: "opCallDataCopy E run m = Done r \<Longrightarrow> frame E (- 3) m r"
  by (auto simp: opCallDataCopy_def exec_simps intro!: frame_intros dest: Memory_Set_same split: if_splits option.splits)

lemma opReturnDataCopy_frame [frames]: "opReturnDataCopy E run m = Done r \<Longrightarrow> frame E (- 3) m r"
  by (auto simp: opReturnDataCopy_def exec_simps intro!: frame_intros dest: Memory_Set_same split: if_splits option.splits)

lemma opCodeCopy_frame [frames]: "opCodeCopy E run m = Done r \<Longrightarrow> frame E (- 3) m r"
  by (auto simp: opCodeCopy_def exec_simps intro!: frame_intros dest: Memory_Set_same split: if_splits option.splits)

lemma opExtCodeCopy_frame [frames]: "opExtCodeCopy E run m = Done r \<Longrightarrow> frame E (- 4) m r"
  by (auto simp: opExtCodeCopy_def exec_simps intro!: frame_intros dest: Memory_Set_same split: if_splits option.splits)

lemma opJump_frame [frames]: "opJump E run m = Done r \<Longrightarrow> frame E (- 1) m r"
  by (auto simp: opJump_def exec_simps intro!: frame_intros dest: validJumpdest_same split: if_splits option.splits)

lemma opJumpi_frame [frames]: "opJumpi E run m = Done r \<Longrightarrow> frame E (- 2) m r"
  by (auto simp: opJumpi_def exec_simps intro!: frame_intros dest: validJumpdest_same split: if_splits option.splits)

lemma opJumpSub_frame [frames]: "opJumpSub E run m = Done r \<Longrightarrow> frame E (- 1) m r"
  by (auto simp: opJumpSub_def exec_simps intro!: frame_intros dest: validJumpSubdest_same split: if_splits option.splits)

lemma opJumpdest_frame [frames]: "opJumpdest E run m = Done r \<Longrightarrow> frame E 0 m r"
  by (auto simp: opJumpdest_def exec_simps intro!: frame_intros split: if_splits option.splits)

lemma opBeginSub_frame [frames]: "opBeginSub E run m = Done r \<Longrightarrow> frame E 0 m r"
  by (auto simp: opBeginSub_def exec_simps intro!: frame_intros split: if_splits option.splits)

lemma opReturnSub_frame [frames]: "opReturnSub E run m = Done r \<Longrightarrow> frame E 0 m r"
  by (auto simp: opReturnSub_def exec_simps intro!: frame_intros split: if_splits option.splits)

lemma opReturn_frame [frames]: "opReturn E run m = Done r \<Longrightarrow> frame E (- 2) m r"
  by (auto simp: opReturn_def exec_simps return_memory_def intro!: frame_intros split: if_splits option.splits)

lemma opRevert_frame [frames]: "opRevert E run m = Done r \<Longrightarrow> frame E (- 2) m r"
  by (auto simp: opRevert_def exec_simps return_memory_def intro!: frame_intros split: if_splits option.splits)

lemma opStop_frame [frames]: "opStop E run m = Done r \<Longrightarrow> frame E 0 m r"
  by (auto simp: opStop_def exec_simps intro!: frame_intros split: if_splits option.splits)

lemma opSuicide_frame [frames]: "opSuicide E run m = Done r \<Longrightarrow> frame E (- 1) m r"
  by (auto simp: opSuicide_def exec_simps intro!: frame_intros split: if_splits option.splits)

lemma opPush1_frame [frames]: "opPush1 E run m = Done r \<Longrightarrow> frame E 1 m r"
  by (auto simp: opPush1_def exec_simps intro!: frame_intros split: if_splits option.splits)

lemma opSload_frame [frames]: "opSload E run m = Done r \<Longrightarrow> frame E 0 m r"
  by (auto simp: opSload_def exec_simps intro!: frame_intros dest: transfers.grows_partial split: if_splits option.splits)

lemma opSstore_frame [frames]: "opSstore E run m = Done r \<Longrightarrow> frame E (- 2) m r"
  by (auto simp: opSstore_def exec_simps intro!: frame_intros dest: transfers.grows_partial split: if_splits option.splits)

lemma makePush_frame [frames]: "makePush k n E run m = Done r \<Longrightarrow> frame E 1 m r"
  by (auto simp: makePush_def exec_simps intro!: frame_intros split: if_splits option.splits)

lemma makeDup_frame [frames]: "makeDup n E run m = Done r \<Longrightarrow> frame E 1 m r"
  by (auto simp: makeDup_def exec_simps intro!: frame_intros dest!: stack_dup_length)

lemma makeSwap_frame [frames]: "makeSwap n E run m = Done r \<Longrightarrow> frame E 0 m r"
  by (auto simp: makeSwap_def exec_simps intro!: frame_intros dest!: stack_swap_length)

lemma Memory_Set32_same:
  assumes "Memory_Set32 X a v mem = Done mem'" "uint256_api X"
  shows "same_size mem mem'"
proof -
  let ?z = "copy_slice (store mem) (unat a) (unat (a + 32)) (replicate 32 0)"
  from assms(1) have le: "unat (a + 32) \<le> length (store mem)" "unat a \<le> unat (a + 32)"
    and mem': "mem' = mem\<lparr>store := take (unat a) ?z @ u_WriteToSlice X v (drop (unat a) ?z)\<rparr>"
    by (auto simp: Memory_Set32_def Let_def not_less split: if_splits)
  have sum: "unat (a + 32) = unat a + 32" using le(2) u64_less [of a] by (simp add: unat_plus_if' split: if_splits)
  have len: "length ?z = length (store mem)" using le by simp
  then have "32 \<le> length (drop (unat a) ?z)" using sum le(1) by simp
  with mem' len sum le(1) uint256_api.length_WriteToSlice [OF assms(2), of "drop (unat a) ?z" v]
  show ?thesis by (simp add: same_size_def)
qed

lemma opMstore_frame [frames]: "opMstore E run m = Done r \<Longrightarrow> frame E (- 2) m r"
  by (auto simp: opMstore_def exec_simps intro!: frame_intros dest: Memory_Set32_same split: if_splits option.splits)

lemma opMstore8_frame [frames]: "opMstore8 E run m = Done r \<Longrightarrow> frame E (- 2) m r"
  by (auto simp: opMstore8_def exec_simps same_size_def intro!: frame_intros split: if_splits option.splits)

lemma pop_topics_length: "pop_topics X n st = Done (ts, st') \<Longrightarrow> length st = length st' + n \<and> length ts = n"
  by (induction n arbitrary: st ts) (auto simp: and_then_iffs stack_pop_Done)

lemma makeLog_frame [frames]: "makeLog n E run m = Done r \<Longrightarrow> frame E (- 2 - int n) m r"
  by (auto simp: makeLog_def exec_simps intro!: frame_intros dest!: pop_topics_length)

end
