(* ===== verification/Vm_Calls.thy ===== *)
theory Vm_Calls
  imports Vm_Frame
begin

text \<open>
  The message calls and contract creation, for an interpreter that keeps the contract \<open>runner_ok\<close>:
  it returns at most the gas it got, it restores the depth and the read-only flag, and it changes
  the state only by journalled operations. Every call then returns at most the gas it was given,
  and a call that returns an error leaves a state that no query tells from the one before.
\<close>

section \<open>Snapshots around calls\<close>

text \<open>A state that can be reverted to.\<close>

definition ready :: "'t env \<Rightarrow> 't StateDB \<Rightarrow> bool" where
  "ready E s \<longleftrightarrow> wf (env_X E) (env_D E) s \<and> revs_ok s"

context transfers
begin

lemma grows_revert:
  assumes "Snapshot_op s = (i, s1)" "grows E s1 s2" "RevertToSnapshot (env_X E) (env_D E) i s2 = Done s3"
  shows "grows E s s3"
  unfolding grows_def
proof (intro allI impI)
  fix s0 assume e: "extends (env_X E) (env_D E) s0 s"
  have i: "i = nextRevisionId s" "s1 = snd (Snapshot_op s)" using assms(1) by (auto simp: Snapshot_op_def)
  then have "nextRevisionId s0 \<le> i" using e by (simp add: extends_def)
  moreover have "extends (env_X E) (env_D E) s0 s2"
    using grows_trans [OF grows_Snapshot [of s, folded i(2)] assms(2)] e unfolding grows_def by blast
  moreover obtain p j where "p < length (validRevisions s2)" "validRevisions s2 ! p = (i, j)"
    using RevertToSnapshot_Done [OF assms(3)] .
  ultimately obtain s' where "RevertToSnapshot (env_X E) (env_D E) i s2 = Done s'" "extends (env_X E) (env_D E) s0 s'"
    using extends_revert [OF inj] by blast
  with assms(3) show "extends (env_X E) (env_D E) s0 s3" by simp
qed

lemma revert_sim:
  assumes r: "ready E s" and snap: "Snapshot_op s = (i, s1)" and g: "grows E s1 s2"
  obtains s3 where "RevertToSnapshot (env_X E) (env_D E) i s2 = Done s3" "sim (env_X E) (env_D E) s s3"
proof -
  have w: "wf (env_X E) (env_D E) s" "revs_ok s" using r by (simp_all add: ready_def)
  have "s1 = snd (Snapshot_op s)" using snap by simp
  then have "extends (env_X E) (env_D E) s1 s1"
    using wf_Snapshot revs_ok_Snapshot w by (intro extends_refl) auto
  then have "extends (env_X E) (env_D E) s1 s2" using g by (simp add: grows_def)
  then show ?thesis using revert_restores [OF inj w snap] that by metis
qed

lemma ready_grows: "ready E s \<Longrightarrow> grows E s s' \<Longrightarrow> ready E s'"
proof -
  assume "ready E s" "grows E s s'"
  then have "extends (env_X E) (env_D E) s s'" by (simp add: ready_def grows_def extends_refl)
  then show "ready E s'" by (simp add: ready_def extends_def)
qed

end

section \<open>What calls keep\<close>

definition sub_evm :: "'t env \<Rightarrow> 't EVM \<Rightarrow> 't EVM \<Rightarrow> bool" where
  "sub_evm E evm evm' \<longleftrightarrow>
     depth evm' = depth evm \<and> readOnly evm' = readOnly evm \<and>
     (transfers E \<longrightarrow> grows E (evm_StateDB evm) (evm_StateDB evm'))"

lemma sub_evm_refl [simp]: "sub_evm E evm evm"
  by (simp add: sub_evm_def)

lemma sub_evm_trans: "sub_evm E evm evm' \<Longrightarrow> sub_evm E evm' evm'' \<Longrightarrow> sub_evm E evm evm''"
  by (auto simp: sub_evm_def intro: grows_trans)

lemma same_evm_sub: "same_evm E evm evm' \<Longrightarrow> sub_evm E evm evm'"
  by (auto simp: sub_evm_def same_evm_def)

definition runner_ok :: "'t env \<Rightarrow> 't runner \<Rightarrow> bool" where
  "runner_ok E run \<longleftrightarrow>
     (\<forall>evm c input ro ret err evm' c'. run evm c input ro = Done (ret, err, evm', c') \<longrightarrow>
        sub_evm E evm evm' \<and> Gas c' \<le> Gas c)"

lemma runner_okD:
  "runner_ok E run \<Longrightarrow> run evm c input ro = Done (ret, err, evm', c') \<Longrightarrow> sub_evm E evm evm' \<and> Gas c' \<le> Gas c"
  by (auto simp: runner_ok_def)

lemma Gas_NewContract [simp]: "Gas (NewContract clr a v g) = g" "Gas (SetCallCode ad h code c) = Gas c"
  "Gas (SetCodeOptionalHash ad cah c) = Gas c"
  by (simp_all add: NewContract_def SetCallCode_def SetCodeOptionalHash_def)

lemma Gas_AsDelegate: "AsDelegate c = Done c' \<Longrightarrow> Gas c' = Gas c"
  by (auto simp: AsDelegate_def split: ContractRef.splits)

lemma run_contract_ok:
  assumes "runner_ok E run" "run_contract run evm c input ro = Done (ret, gas', err, evm', jd)"
  shows "sub_evm E evm evm' \<and> gas' \<le> Gas c"
  using assms by (auto simp: run_contract_def and_then_iffs dest: runner_okD)

lemma run_precompile_ok:
  assumes "run_precompile E p evm jd0 input gas = Done (ret, gas', err, evm', jd)"
  shows "sub_evm E evm evm' \<and> gas' \<le> gas"
  using assms by (auto simp: run_precompile_def and_then_iffs dest: RunPrecompiledContract_gas)

text \<open>Taking a snapshot, and reverting to it at the end.\<close>

lemma snapshot_sub: "lift_state Snapshot_op evm = (i, evm1) \<Longrightarrow> sub_evm E evm evm1"
  by (rule same_evm_sub, rule same_evm_lift_state [of E _ Snapshot_op]) (rule transfers.grows_Snapshot)

lemma revert_evm:
  assumes snap: "lift_state Snapshot_op evm = (i, evm1)" and sub: "sub_evm E evm1 evm2"
    and rv: "RevertToSnapshot (env_X E) (env_D E) i (evm_StateDB evm2) = Done s"
  shows "sub_evm E evm (evm2\<lparr>evm_StateDB := s\<rparr>)"
    and "transfers E \<Longrightarrow> ready E (evm_StateDB evm) \<Longrightarrow> sim (env_X E) (env_D E) (evm_StateDB evm) s"
proof -
  have s1: "Snapshot_op (evm_StateDB evm) = (i, evm_StateDB evm1)"
    using snap by (auto simp: lift_state_def case_prod_unfold Let_def)
  have g: "grows E (evm_StateDB evm1) (evm_StateDB evm2)" if "transfers E" using sub that by (simp add: sub_evm_def)
  show "sub_evm E evm (evm2\<lparr>evm_StateDB := s\<rparr>)"
    using transfers.grows_revert [OF _ s1 g rv] sub snapshot_sub [OF snap, of E] by (simp add: sub_evm_def)
  assume t: "transfers E" "ready E (evm_StateDB evm)"
  from transfers.revert_sim [OF t s1 g [OF t(1)]] obtain s3
    where "RevertToSnapshot (env_X E) (env_D E) i (evm_StateDB evm2) = Done s3" "sim (env_X E) (env_D E) (evm_StateDB evm) s3" .
  with rv show "sim (env_X E) (env_D E) (evm_StateDB evm) s" by simp
qed

lemma same_evm_CanTransfer:
  "lift_state (\<lambda>s. ctx_CanTransfer E s a v) evm = (r, evm') \<Longrightarrow> same_evm E evm evm'"
  by (erule same_evm_lift_state [rotated]) (simp add: transfers.grows_getters)

lemma same_evm_reads:
  "lift_state (Exist (env_X E) (env_D E) a) evm = (r1, evm') \<Longrightarrow> same_evm E evm evm'"
  "lift_state (Empty (env_X E) (env_D E) a) evm = (r1, evm') \<Longrightarrow> same_evm E evm evm'"
  "lift_state (HasSuicided (env_X E) (env_D E) a) evm = (r1, evm') \<Longrightarrow> same_evm E evm evm'"
  "lift_state (GetCode (env_X E) (env_D E) a) evm = (r2, evm') \<Longrightarrow> same_evm E evm evm'"
  "lift_state (GetCodeHash (env_X E) (env_D E) a) evm = (r3, evm') \<Longrightarrow> same_evm E evm evm'"
  "lift_state (GetNonce (env_X E) (env_D E) a) evm = (r4, evm') \<Longrightarrow> same_evm E evm evm'"
  "lift_state (GetBalance (env_X E) (env_D E) a) evm = (r5, evm') \<Longrightarrow> same_evm E evm evm'"
  by (erule same_evm_lift_state [rotated], simp add: transfers.grows_getters)+

lemma same_evm_writes:
  "same_evm E evm (on_state (CreateAccount (env_X E) (env_D E) a) evm)"
  "same_evm E evm (on_state (AddBalance (env_X E) (env_D E) a v) evm)"
  "same_evm E evm (on_state (SetNonce (env_X E) (env_D E) a n) evm)"
  "same_evm E evm (on_state (SetCode (env_X E) (env_D E) a code) evm)"
  "same_evm E evm (on_state (\<lambda>s. ctx_Transfer E s a b v) evm)"
  by (rule same_evm_on_state, simp add: transfers.grows_setters)+

section \<open>The calls\<close>

definition called_ok :: "'t env \<Rightarrow> 't EVM \<Rightarrow> u64 \<Rightarrow> 't called \<Rightarrow> bool" where
  "called_ok E evm gas = (\<lambda>(ret, gas', err, evm', jd).
     sub_evm E evm evm' \<and> gas' \<le> gas \<and>
     (transfers E \<longrightarrow> ready E (evm_StateDB evm) \<longrightarrow> err \<noteq> None \<longrightarrow>
        sim (env_X E) (env_D E) (evm_StateDB evm) (evm_StateDB evm')))"

lemma called_ok_pre:
  assumes "same_evm E evm evm1" "transfers E \<Longrightarrow> sim (env_X E) (env_D E) (evm_StateDB evm) (evm_StateDB evm1)"
    and "called_ok E evm1 gas r"
  shows "called_ok E evm gas r"
proof -
  obtain ret gas' err evm' jd where r: "r = (ret, gas', err, evm', jd)" by (cases r) auto
  have sub: "sub_evm E evm evm1" by (rule same_evm_sub [OF assms(1)])
  have "sim (env_X E) (env_D E) (evm_StateDB evm) (evm_StateDB evm')"
    if "transfers E" "ready E (evm_StateDB evm)" "err \<noteq> None"
  proof (rule sim_trans [OF assms(2) [OF that(1)]])
    have "ready E (evm_StateDB evm1)"
      using transfers.ready_grows [OF that(1,2)] sub that(1) by (simp add: sub_evm_def)
    then show "sim (env_X E) (env_D E) (evm_StateDB evm1) (evm_StateDB evm')"
      using assms(3) that r by (simp add: called_ok_def)
  qed
  then show ?thesis using assms(3) sub_evm_trans [OF sub] r by (simp add: called_ok_def)
qed

lemma called_ok_early: "gas' = gas \<Longrightarrow> called_ok E evm gas (ret, gas', err, evm, jd)"
  by (simp add: called_ok_def)

lemma guarded_call:
  assumes snap: "lift_state Snapshot_op evm = (i, evm1)"
    and call: "and_then body (end_call E i) = Done r"
    and body: "\<And>ret gas1 err evm2 jd. body = Done (ret, gas1, err, evm2, jd) \<Longrightarrow> sub_evm E evm1 evm2 \<and> gas1 \<le> gas"
  shows "called_ok E evm gas r"
proof -
  from call obtain ret gas1 err evm2 jd where b: "body = Done (ret, gas1, err, evm2, jd)"
    and e: "end_call E i (ret, gas1, err, evm2, jd) = Done r"
    by (auto simp: and_then_iffs)
  note ok = body [OF b]
  show ?thesis
  proof (cases err)
    case None
    with e ok sub_evm_trans [OF snapshot_sub [OF snap]] show ?thesis by (auto simp: end_call_def called_ok_def)
  next
    case (Some er)
    with e obtain s where "RevertToSnapshot (env_X E) (env_D E) i (evm_StateDB evm2) = Done s"
      and r: "r = (ret, if er \<noteq> ErrExecutionReverted then 0 else gas1, Some er, evm2\<lparr>evm_StateDB := s\<rparr>, jd)"
      by (auto simp: end_call_def and_then_iffs)
    with revert_evm [OF snap conjunct1 [OF ok]] ok show ?thesis by (simp add: called_ok_def)
  qed
qed

lemma call_code_at_ok:
  assumes ok: "runner_ok E run" and g: "\<And>c. prepared = Done c \<Longrightarrow> Gas c = gas"
    and r: "call_code_at E run evm clr addr input gas ro prepared = Done (ret, gas', err, evm', jd)"
  shows "sub_evm E evm evm' \<and> gas' \<le> gas"
proof (cases "precompile E addr")
  case (Some p)
  with r have "run_precompile E p evm (ref_map clr) input gas = Done (ret, gas', err, evm', jd)"
    by (simp add: call_code_at_def)
  then show ?thesis by (rule run_precompile_ok)
next
  case None
  obtain h evm1 where 1: "lift_state (GetCodeHash (env_X E) (env_D E) addr) evm = (h, evm1)" by fastforce
  obtain code evm2 where 2: "lift_state (GetCode (env_X E) (env_D E) addr) evm1 = (code, evm2)" by fastforce
  from None r 1 2 obtain c where "prepared = Done c"
    "run_contract run evm2 (SetCallCode (Some addr) h (code_bytes code) c) input ro = Done (ret, gas', err, evm', jd)"
    by (auto simp: call_code_at_def and_then_iffs)
  with run_contract_ok [OF ok this(2)] g have "sub_evm E evm2 evm' \<and> gas' \<le> gas" by simp
  with sub_evm_trans [OF same_evm_sub [OF same_evm_trans [OF same_evm_reads(5) [OF 1] same_evm_reads(4) [OF 2]]]]
  show ?thesis by blast
qed

lemma sim_CanTransfer:
  "transfers E \<Longrightarrow> lift_state (\<lambda>s. ctx_CanTransfer E s a v) evm = (b, evm1) \<Longrightarrow>
   sim (env_X E) (env_D E) (evm_StateDB evm) (evm_StateDB evm1)"
  using transfers.CanTransfer_sim [of E "evm_StateDB evm" a v] by (auto simp: lift_state_def case_prod_unfold Let_def)

lemma evm_CallCode_ok:
  assumes ok: "runner_ok E run" and r: "evm_CallCode E run evm clr addr input gas val = Done r"
  shows "called_ok E evm gas r"
proof -
  obtain able evm1 where 1: "lift_state (\<lambda>s. ctx_CanTransfer E s (ref_Address clr) val) evm = (able, evm1)" by fastforce
  obtain i evm2 where 2: "lift_state Snapshot_op evm1 = (i, evm2)" by fastforce
  let ?body = "call_code_at E run evm2 clr addr input gas False (Done (NewContract clr (ref_Address clr) (Some val) gas))"
  note pre = called_ok_pre [OF same_evm_CanTransfer [OF 1] sim_CanTransfer [OF _ 1]]
  from r 1 2 consider gas' err where "r = ([], gas, err, evm, ref_map clr)"
    | err where "r = ([], gas, err, evm1, ref_map clr)" | "and_then ?body (end_call E i) = Done r"
    by (auto simp: evm_CallCode_def split: if_splits)
  then show ?thesis
  proof cases
    case 3
    show ?thesis by (rule pre, assumption, rule guarded_call [OF 2 3], rule call_code_at_ok [OF ok]) auto
  qed (auto intro: called_ok_early pre)
qed

lemma evm_DelegateCall_ok:
  assumes ok: "runner_ok E run" and r: "evm_DelegateCall E run evm clr addr input gas = Done r"
  shows "called_ok E evm gas r"
proof -
  obtain i evm2 where 2: "lift_state Snapshot_op evm = (i, evm2)" by fastforce
  let ?body = "call_code_at E run evm2 clr addr input gas False (AsDelegate (NewContract clr (ref_Address clr) None gas))"
  from r 2 consider (early) err where "r = ([], gas, err, evm, ref_map clr)" | (body) "and_then ?body (end_call E i) = Done r"
    by (auto simp: evm_DelegateCall_def split: if_splits)
  then show ?thesis
  proof cases
    case body
    show ?thesis by (rule guarded_call [OF 2 body], rule call_code_at_ok [OF ok]) (auto dest: Gas_AsDelegate)
  qed (simp add: called_ok_early)
qed

lemma evm_StaticCall_ok:
  assumes ok: "runner_ok E run" and r: "evm_StaticCall E run evm clr addr input gas = Done r"
  shows "called_ok E evm gas r"
proof -
  obtain i evm2 where 2: "lift_state Snapshot_op evm = (i, evm2)" by fastforce
  let ?evm3 = "on_state (AddBalance (env_X E) (env_D E) addr 0) evm2"
  let ?body = "call_code_at E run ?evm3 clr addr input gas True (Done (NewContract clr addr (Some 0) gas))"
  from r 2 consider (early) err where "r = ([], gas, err, evm, ref_map clr)" | (body) "and_then ?body (end_call E i) = Done r"
    by (auto simp: evm_StaticCall_def split: if_splits)
  then show ?thesis
  proof cases
    case body
    have "sub_evm E evm2 ?evm3" by (intro same_evm_sub same_evm_writes)
    with sub_evm_trans call_code_at_ok [OF ok, of "Done (NewContract clr addr (Some 0) gas)" gas]
    show ?thesis by (intro guarded_call [OF 2 body]) fastforce
  qed (simp add: called_ok_early)
qed

lemma evm_Call_ok:
  assumes ok: "runner_ok E run" and r: "evm_Call E run evm clr addr input gas val = Done r"
  shows "called_ok E evm gas r"
proof -
  let ?X = "env_X E" and ?D = "env_D E" and ?jd = "ref_map clr"
  obtain able evm1 where 1: "(if val \<noteq> 0 then lift_state (\<lambda>s. ctx_CanTransfer E s (ref_Address clr) val) evm
      else (True, evm)) = (able, evm1)" by fastforce
  obtain i evm2 where 2: "lift_state Snapshot_op evm1 = (i, evm2)" by fastforce
  obtain ex evm3 where 3: "lift_state (Exist ?X ?D addr) evm2 = (ex, evm3)" by fastforce
  let ?evm4 = "if \<not> ex then on_state (CreateAccount ?X ?D addr) evm3 else evm3"
  let ?evm5 = "on_state (\<lambda>s. ctx_Transfer E s (ref_Address clr) addr val) ?evm4"
  obtain code evm6 where 6: "lift_state (GetCode ?X ?D addr) ?evm5 = (code, evm6)" by fastforce
  obtain h evm7 where 7: "lift_state (GetCodeHash ?X ?D addr) evm6 = (h, evm7)" by fastforce
  let ?c = "SetCallCode (Some addr) h (code_bytes code) (NewContract clr addr (Some val) gas)"
  let ?body = "case precompile E addr of Some q \<Rightarrow> run_precompile E q ?evm5 ?jd input gas
    | None \<Rightarrow> if length (code_bytes code) = 0 then Done ([], gas, None, evm6, ?jd) else run_contract run evm7 ?c input False"
  have e1: "same_evm E evm evm1" using same_evm_CanTransfer [of E "ref_Address clr" val evm able evm1] 1
    by (auto split: if_splits)
  have "sim ?X ?D (evm_StateDB evm) (evm_StateDB evm1)" if "transfers E"
    using sim_CanTransfer [OF that, of "ref_Address clr" val evm able evm1] 1 by (auto split: if_splits)
  note pre = called_ok_pre [OF e1 this]
  have e3: "sub_evm E evm2 evm3" by (rule same_evm_sub [OF same_evm_reads(1) [OF 3]])
  have e5: "sub_evm E evm2 ?evm5"
    by (intro sub_evm_trans [OF e3] same_evm_sub same_evm_trans [OF _ same_evm_writes(5)]) (simp add: same_evm_writes)
  have e6: "sub_evm E evm2 evm6" by (rule sub_evm_trans [OF e5 same_evm_sub [OF same_evm_reads(4) [OF 6]]])
  have e7: "sub_evm E evm2 evm7" by (rule sub_evm_trans [OF e6 same_evm_sub [OF same_evm_reads(5) [OF 7]]])
  have bodyok: "sub_evm E evm2 evm' \<and> gas1 \<le> gas" if "?body = Done (ret, gas1, err, evm', jd)" for ret gas1 err evm' jd
  proof (cases "precompile E addr")
    case (Some q)
    with that run_precompile_ok [of E q ?evm5 ?jd input gas ret gas1 err evm' jd] sub_evm_trans [OF e5] show ?thesis by simp
  next
    case None
    with that run_contract_ok [OF ok, of evm7 ?c input False ret gas1 err evm' jd] sub_evm_trans [OF e7] e6
    show ?thesis by (auto split: if_splits)
  qed
  let ?A = "NoRecursion (vmConfig E) \<and> depth evm > 0" and ?B = "depth evm > unat CallCreateDepth"
    and ?N = "\<not> ex \<and> precompile E addr = None \<and> IsEIP158 (chainRules E) \<and> val = 0"
  have eq: "evm_Call E run evm clr addr input gas val =
      (if ?A then Done ([], gas, None, evm, ?jd) else if ?B then Done ([], gas, Some ErrDepth, evm, ?jd)
       else if \<not> able then Done ([], gas, Some ErrInsufficientBalance, evm1, ?jd)
       else if ?N then Done ([], gas, None, evm3, ?jd) else and_then ?body (end_call E i))"
    unfolding evm_Call_def Let_def 1 prod.case
    by (simp only: 2 prod.case, simp only: 3 prod.case, simp only: 6 prod.case, simp only: 7 prod.case)
  consider (none) ?A | (deep) "\<not> ?A" ?B | (poor) "\<not> ?A" "\<not> ?B" "\<not> able"
    | (vacuous) "\<not> ?A" "\<not> ?B" able ?N | (body) "\<not> ?A" "\<not> ?B" able "\<not> ?N" by blast
  then show ?thesis
  proof cases
    case vacuous
    have "r = ([], gas, None, evm3, ?jd)" using r unfolding eq if_not_P [OF vacuous(1)] if_not_P [OF vacuous(2)] if_P [OF vacuous(4)]
      using vacuous(3) by simp
    then show ?thesis
      using sub_evm_trans [OF sub_evm_trans [OF same_evm_sub [OF e1] snapshot_sub [OF 2]] e3] by (simp add: called_ok_def)
  next
    case body
    have "and_then ?body (end_call E i) = Done r" using r unfolding eq if_not_P [OF body(1)] if_not_P [OF body(2)]
      if_not_P [OF body(4)] using body(3) by simp
    then show ?thesis by (intro pre guarded_call [OF 2 _ bodyok])
  next
    case poor
    have "r = ([], gas, Some ErrInsufficientBalance, evm1, ?jd)" using r unfolding eq if_not_P [OF poor(1)] if_not_P [OF poor(2)]
      using poor(3) by simp
    then show ?thesis by (intro pre) (simp_all add: called_ok_early)
  qed (use r in \<open>auto simp: eq called_ok_early\<close>)
qed

section \<open>Contract creation\<close>

text \<open>A creation that fails leaves the state alone, except that the creator's nonce may have been
  incremented; before homestead, running out of gas for storing the code does not revert.\<close>

definition created_ok :: "'t env \<Rightarrow> address \<Rightarrow> 't EVM \<Rightarrow> u64 \<Rightarrow> 't created \<Rightarrow> bool" where
  "created_ok E a evm gas = (\<lambda>(ret, addr, gas', err, evm', jd).
     let X = env_X E; D = env_D E; s = evm_StateDB evm
     in sub_evm E evm evm' \<and> gas' \<le> gas \<and>
        (transfers E \<longrightarrow> ready E s \<longrightarrow> err \<noteq> None \<longrightarrow> IsHomestead (chainRules E) \<or> err \<noteq> Some ErrCodeStoreOutOfGas \<longrightarrow>
           sim X D s (evm_StateDB evm') \<or>
           (\<exists>s1. sim X D s s1 \<and> sim X D (SetNonce X D a (fst (GetNonce X D a s) + 1) s1) (evm_StateDB evm'))))"

lemma sim_reads:
  "lift_state (GetNonce (env_X E) (env_D E) a) evm = (r, evm') \<Longrightarrow>
     sim (env_X E) (env_D E) (evm_StateDB evm) (evm_StateDB evm') \<and> r = fst (GetNonce (env_X E) (env_D E) a (evm_StateDB evm))"
  "lift_state (GetCodeHash (env_X E) (env_D E) a) evm = (h, evm') \<Longrightarrow>
     sim (env_X E) (env_D E) (evm_StateDB evm) (evm_StateDB evm')"
  by (auto simp: lift_state_def GetNonce_def GetCodeHash_def getStateObject_eq sim_cached case_prod_unfold Let_def)

lemma sim_GetNonce:
  "sim X D s t \<Longrightarrow> fst (GetNonce X D a s) = fst (GetNonce X D a t)"
  using sim_live [of X D s t a] by (auto simp: GetNonce_def getStateObject_eq option_rel_Some1 option_rel_Some2 obj_sim_def split: option.splits elim!: option.rel_cases)

lemma created_ok_pre:
  assumes e: "same_evm E evm evm1" and s: "transfers E \<Longrightarrow> sim (env_X E) (env_D E) (evm_StateDB evm) (evm_StateDB evm1)"
    and "created_ok E a evm1 gas r"
  shows "created_ok E a evm gas r"
proof -
  have sub: "sub_evm E evm evm1" by (rule same_evm_sub [OF e])
  have rd: "ready E (evm_StateDB evm1)" if "transfers E" "ready E (evm_StateDB evm)"
    using transfers.ready_grows [OF that] sub that(1) by (simp add: sub_evm_def)
  show ?thesis
    using assms(3) sub_evm_trans [OF sub] rd sim_trans [OF s] sim_GetNonce [OF s, of a]
    unfolding created_ok_def Let_def by (auto split: prod.splits)
qed

lemma UseGas_le: "Gas (snd (UseGas g c)) \<le> Gas c"
  by (auto simp: UseGas_def word_sub_le not_less)

lemma store_code_ok:
  assumes "store_code E addr ret err evm c big = (err1, evm1, c1)"
  shows "sub_evm E evm evm1 \<and> Gas c1 \<le> Gas c"
  using assms UseGas_le [of "of_nat (length ret) * CreateDataGas" c]
  by (auto simp: store_code_def Let_def same_evm_sub same_evm_writes split: if_splits prod.splits)

lemma end_create_ok:
  assumes fin: "end_create E i addr (ret, err, evm2, c) = Done (ret', addr', gas', err', evm', jd')"
    and snap: "lift_state Snapshot_op evm = (i, evm1)" and sub: "sub_evm E evm1 evm2"
  shows "sub_evm E evm evm'" "gas' \<le> Gas c"
    "transfers E \<Longrightarrow> ready E (evm_StateDB evm) \<Longrightarrow> err' \<noteq> None \<Longrightarrow>
      IsHomestead (chainRules E) \<or> err' \<noteq> Some ErrCodeStoreOutOfGas \<Longrightarrow>
      sim (env_X E) (env_D E) (evm_StateDB evm) (evm_StateDB evm')"
proof -
  let ?big = "IsEIP158 (chainRules E) \<and> length ret > MaxCodeSize"
  obtain err1 evm3 c1 where sc: "store_code E addr ret err evm2 c ?big = (err1, evm3, c1)" by (cases "store_code E addr ret err evm2 c ?big") auto
  have ok: "sub_evm E evm1 evm3" "Gas c1 \<le> Gas c" using store_code_ok [OF sc] sub_evm_trans [OF sub] by blast+
  let ?rv = "?big \<or> err1 \<noteq> None \<and> (IsHomestead (chainRules E) \<or> err1 \<noteq> Some ErrCodeStoreOutOfGas)"
  note fin1 = fin [unfolded end_create_def Let_def prod.case sc]
  consider (revert) s where "RevertToSnapshot (env_X E) (env_D E) i (evm_StateDB evm3) = Done s"
      "evm' = evm3\<lparr>evm_StateDB := s\<rparr>" "gas' \<le> Gas c1"
    | (keep) "\<not> ?rv" "evm' = evm3" "gas' = Gas c1" "err' = err1"
  proof (cases ?rv)
    case True
    from fin1 [unfolded if_P [OF True]] obtain s where "RevertToSnapshot (env_X E) (env_D E) i (evm_StateDB evm3) = Done s"
      "evm' = evm3\<lparr>evm_StateDB := s\<rparr>"
      "gas' = Gas (if err1 \<noteq> Some ErrExecutionReverted then snd (UseGas (Gas c1) c1) else c1)"
      by (auto simp: and_then_iffs)
    with UseGas_le [of "Gas c1" c1] show ?thesis by (intro that(1)) simp_all
  next
    case False
    from fin1 [unfolded if_not_P [OF False]] False show ?thesis by (intro that(2)) (auto simp: and_then_iffs)
  qed
  then have "sub_evm E evm evm' \<and> gas' \<le> Gas c \<and>
    (transfers E \<longrightarrow> ready E (evm_StateDB evm) \<longrightarrow> err' \<noteq> None \<longrightarrow>
      IsHomestead (chainRules E) \<or> err' \<noteq> Some ErrCodeStoreOutOfGas \<longrightarrow> sim (env_X E) (env_D E) (evm_StateDB evm) (evm_StateDB evm'))"
  proof cases
    case revert
    then show ?thesis using revert_evm [OF snap ok(1)] ok(2) by auto
  next
    case keep
    then show ?thesis using sub_evm_trans [OF snapshot_sub [OF snap] ok(1)] ok(2) by auto
  qed
  then show "sub_evm E evm evm'" "gas' \<le> Gas c"
    "transfers E \<Longrightarrow> ready E (evm_StateDB evm) \<Longrightarrow> err' \<noteq> None \<Longrightarrow>
      IsHomestead (chainRules E) \<or> err' \<noteq> Some ErrCodeStoreOutOfGas \<Longrightarrow>
      sim (env_X E) (env_D E) (evm_StateDB evm) (evm_StateDB evm')" by blast+
qed

text \<open>Once the creator's nonce is written.\<close>

lemma created_ok_nonce:
  assumes n: "sim (env_X E) (env_D E) (evm_StateDB evm) (evm_StateDB evm2)"
      "nonce = fst (GetNonce (env_X E) (env_D E) a (evm_StateDB evm))"
    and later: "sim (env_X E) (env_D E) (SetNonce (env_X E) (env_D E) a (nonce + 1) (evm_StateDB evm2)) (evm_StateDB evm5)"
    and sub: "sub_evm E evm evm5" "sub_evm E evm5 evm'" and g: "g \<le> gas"
    and fin: "transfers E \<Longrightarrow> ready E (evm_StateDB evm5) \<Longrightarrow> err \<noteq> None \<Longrightarrow>
      IsHomestead (chainRules E) \<or> err \<noteq> Some ErrCodeStoreOutOfGas \<Longrightarrow>
      sim (env_X E) (env_D E) (evm_StateDB evm5) (evm_StateDB evm')"
  shows "created_ok E a evm gas (ret, addr, g, err, evm', jd)"
proof -
  have "ready E (evm_StateDB evm5)" if "transfers E" "ready E (evm_StateDB evm)"
    using transfers.ready_grows [OF that] sub(1) that(1) by (simp add: sub_evm_def)
  then show ?thesis using sub_evm_trans [OF sub] g n sim_trans [OF later fin] unfolding created_ok_def Let_def by blast
qed

lemma evm_create_ok:
  assumes ok: "runner_ok E run" and r: "evm_create E run evm clr cah gas val addr = Done r"
  shows "created_ok E (ref_Address clr) evm gas r"
proof -
  let ?X = "env_X E" and ?D = "env_D E" and ?jd = "ref_map clr" and ?a = "ref_Address clr"
  obtain able evm1 where 1: "lift_state (\<lambda>s. ctx_CanTransfer E s ?a val) evm = (able, evm1)" by fastforce
  obtain nonce evm2 where 2: "lift_state (GetNonce ?X ?D ?a) evm1 = (nonce, evm2)" by fastforce
  let ?evm3 = "on_state (SetNonce ?X ?D ?a (nonce + 1)) evm2"
  obtain h evm4 where 4: "lift_state (GetCodeHash ?X ?D addr) ?evm3 = (h, evm4)" by fastforce
  obtain n evm5 where 5: "lift_state (GetNonce ?X ?D addr) evm4 = (n, evm5)" by fastforce
  obtain i evm6 where 6: "lift_state Snapshot_op evm5 = (i, evm6)" by fastforce
  let ?evm7 = "on_state (CreateAccount ?X ?D addr) evm6"
  let ?evm8 = "if IsEIP158 (chainRules E) then on_state (SetNonce ?X ?D addr 1) ?evm7 else ?evm7"
  let ?evm9 = "on_state (\<lambda>s. ctx_Transfer E s ?a addr val) ?evm8"
  let ?c = "SetCodeOptionalHash (Some addr) cah (NewContract clr addr (Some val) gas)"
  let ?A = "depth evm > unat CallCreateDepth" and ?C = "n \<noteq> 0 \<or> (h \<noteq> 0 \<and> h \<noteq> keccak256 ?X [])"
    and ?R = "NoRecursion (vmConfig E) \<and> depth ?evm9 > 0"
  have eq: "evm_create E run evm clr cah gas val addr =
      (if ?A then Done ([], 0, gas, Some ErrDepth, evm, ?jd)
       else if \<not> able then Done ([], 0, gas, Some ErrInsufficientBalance, evm1, ?jd)
       else if ?C then Done ([], 0, 0, Some ErrContractAddressCollision, evm5, ?jd)
       else if ?R then Done ([], addr, gas, None, ?evm9, ?jd)
       else and_then (run ?evm9 ?c [] False) (end_create E i addr))"
    unfolding evm_create_def Let_def 1 prod.case
    by (simp only: 2 prod.case, simp only: 4 prod.case, simp only: 5 prod.case, simp only: 6 prod.case)
  have s1: "sim ?X ?D (evm_StateDB evm) (evm_StateDB evm1)" if "transfers E" by (rule sim_CanTransfer [OF that 1])
  have s2: "sim ?X ?D (evm_StateDB evm1) (evm_StateDB evm2)" "nonce = fst (GetNonce ?X ?D ?a (evm_StateDB evm1))"
    using sim_reads(1) [OF 2] by blast+
  have s5: "sim ?X ?D (SetNonce ?X ?D ?a (nonce + 1) (evm_StateDB evm2)) (evm_StateDB evm5)"
    using sim_trans [OF sim_reads(2) [OF 4] conjunct1 [OF sim_reads(1) [OF 5]]] by (simp add: on_state_def)
  have sub5: "sub_evm E evm1 evm5"
    by (rule same_evm_sub, rule same_evm_trans [OF same_evm_trans [OF same_evm_trans [OF
      same_evm_reads(6) [OF 2] same_evm_writes(3)] same_evm_reads(5) [OF 4]] same_evm_reads(6) [OF 5]])
  have sub9: "sub_evm E evm6 ?evm9"
  proof (rule same_evm_sub, rule same_evm_trans [OF same_evm_trans [OF same_evm_writes(1)] same_evm_writes(5)])
    show "same_evm E ?evm7 ?evm8" by (cases "IsEIP158 (chainRules E)") (simp_all add: same_evm_writes)
  qed
  note nonce = created_ok_nonce [OF s2 s5 sub5]
  note pre = created_ok_pre [OF same_evm_CanTransfer [OF 1] s1]
  consider (deep) ?A | (poor) "\<not> ?A" "\<not> able" | (collision) "\<not> ?A" able ?C
    | (norun) "\<not> ?A" able "\<not> ?C" ?R | (runs) "\<not> ?A" able "\<not> ?C" "\<not> ?R" by blast
  then show ?thesis
  proof cases
    case deep
    then have "r = ([], 0, gas, Some ErrDepth, evm, ?jd)" using r unfolding eq by simp
    then show ?thesis by (simp add: created_ok_def)
  next
    case poor
    then have "r = ([], 0, gas, Some ErrInsufficientBalance, evm1, ?jd)" using r unfolding eq by simp
    then show ?thesis by (intro pre) (simp_all add: created_ok_def)
  next
    case collision
    have "r = ([], 0, 0, Some ErrContractAddressCollision, evm5, ?jd)"
      using r unfolding eq if_P [OF collision(3)] using collision(1,2) by simp
    moreover have "created_ok E ?a evm1 gas ([], 0, 0, Some ErrContractAddressCollision, evm5, ?jd)"
      by (rule nonce) simp_all
    ultimately show ?thesis using pre by blast
  next
    case norun
    have "r = ([], addr, gas, None, ?evm9, ?jd)"
      using r unfolding eq if_not_P [OF norun(3)] if_P [OF norun(4)] using norun(1,2) by simp
    moreover have "created_ok E ?a evm1 gas ([], addr, gas, None, ?evm9, ?jd)"
      by (rule nonce [OF sub_evm_trans [OF snapshot_sub [OF 6] sub9]]) simp_all
    ultimately show ?thesis using pre by blast
  next
    case runs
    have "and_then (run ?evm9 ?c [] False) (end_create E i addr) = Done r"
      using r unfolding eq if_not_P [OF runs(3)] if_not_P [OF runs(4)] using runs(1,2) by simp
    then obtain ret err evm' c' where rn: "run ?evm9 ?c [] False = Done (ret, err, evm', c')"
      and fin: "end_create E i addr (ret, err, evm', c') = Done r" by (auto simp: and_then_iffs)
    have ok': "sub_evm E evm6 evm'" "Gas c' \<le> gas"
      using runner_okD [OF ok rn] sub_evm_trans [OF sub9] by simp_all
    obtain ret1 addr1 g err1 evm1' jd1 where r': "r = (ret1, addr1, g, err1, evm1', jd1)" by (cases r) auto
    note e = end_create_ok [OF fin [unfolded r'] 6 ok'(1)]
    show ?thesis unfolding r' by (rule pre, assumption, rule nonce [OF e(1) order_trans [OF e(2) ok'(2)] e(3)])
  qed
qed

lemma evm_Create_ok:
  assumes ok: "runner_ok E run" and r: "evm_Create E run evm clr code gas val = Done r"
  shows "created_ok E (ref_Address clr) evm gas r"
proof -
  obtain nonce evm1 where 1: "lift_state (GetNonce (env_X E) (env_D E) (ref_Address clr)) evm = (nonce, evm1)" by fastforce
  with r obtain addr where "evm_create E run evm1 clr \<lparr> cah_code = code, cah_hash = 0 \<rparr> gas val addr = Done r"
    by (auto simp: evm_Create_def and_then_iffs)
  from evm_create_ok [OF ok this] show ?thesis
    by (rule created_ok_pre [OF same_evm_reads(6) [OF 1] conjunct1 [OF sim_reads(1) [OF 1]]])
qed

lemma evm_Create2_ok:
  assumes "runner_ok E run" and "evm_Create2 E run evm clr code gas val salt = Done r"
  shows "created_ok E (ref_Address clr) evm gas r"
  using assms by (auto simp: evm_Create2_def Let_def dest: evm_create_ok split: prod.splits)

end
