(* ===== verification/Vm_Fuel.thy ===== *)
theory Vm_Fuel
  imports Vm_Calls
begin

text \<open>
  Fuel is used by the loop of the interpreter only: every other function returns \<open>NoFuel\<close> only if
  it ran a contract and the run did, and then it gave that run no more gas than it had.
\<close>

named_theorems no_fuel \<open>operations that do not run contracts\<close>

section \<open>Conditions on results\<close>

text \<open>\<open>ends P Q r\<close>: if \<open>r\<close> returned, then with a value that satisfies \<open>P\<close>, and if it ran out of
  fuel, then \<open>Q\<close>. The rules follow the structure of the program.\<close>

definition ends :: "('a \<Rightarrow> bool) \<Rightarrow> bool \<Rightarrow> 'a outcome \<Rightarrow> bool" where
  "ends P Q r \<longleftrightarrow> (\<forall>x. r = Done x \<longrightarrow> P x) \<and> (r = NoFuel \<longrightarrow> Q)"

abbreviation yields :: "('a \<Rightarrow> bool) \<Rightarrow> 'a outcome \<Rightarrow> bool" where
  "yields P \<equiv> ends P False"

abbreviation only_if :: "bool \<Rightarrow> 'a outcome \<Rightarrow> bool" where
  "only_if Q \<equiv> ends (\<lambda>_. True) Q"

lemma ends_simps [simp]: "ends P Q (Done x) \<longleftrightarrow> P x" "ends P Q (Panicked p)" "only_if False r \<longleftrightarrow> r \<noteq> NoFuel"
  by (simp_all add: ends_def)

lemma ends_if: "(b \<Longrightarrow> ends P Q x) \<Longrightarrow> (\<not> b \<Longrightarrow> ends P Q y) \<Longrightarrow> ends P Q (if b then x else y)"
  by simp

lemma ends_bind:
  "ends R Q r \<Longrightarrow> (\<And>x. r = Done x \<Longrightarrow> R x \<Longrightarrow> ends P Q (f x)) \<Longrightarrow> ends P Q (and_then r f)"
  by (cases r) (simp_all add: ends_def)

lemma ends_and_then: "only_if Q r \<Longrightarrow> (\<And>x. r = Done x \<Longrightarrow> ends P Q (f x)) \<Longrightarrow> ends P Q (and_then r f)"
  by (rule ends_bind)

lemma ends_prod: "(\<And>x y. p = (x, y) \<Longrightarrow> ends P Q (f x y)) \<Longrightarrow> ends P Q (case p of (x, y) \<Rightarrow> f x y)"
  by (cases p) simp

lemma ends_sum:
  "(\<And>e. r = Inl e \<Longrightarrow> ends P Q (f e)) \<Longrightarrow> (\<And>x. r = Inr x \<Longrightarrow> ends P Q (g x)) \<Longrightarrow>
   ends P Q (case r of Inl e \<Rightarrow> f e | Inr x \<Rightarrow> g x)"
  by (cases r) simp_all

lemma ends_option:
  "(r = None \<Longrightarrow> ends P Q f) \<Longrightarrow> (\<And>x. r = Some x \<Longrightarrow> ends P Q (g x)) \<Longrightarrow>
   ends P Q (case r of None \<Rightarrow> f | Some x \<Rightarrow> g x)"
  by (cases r) simp_all

lemma ends_mono: "ends P Q r \<Longrightarrow> (\<And>x. r = Done x \<Longrightarrow> P x \<Longrightarrow> P' x) \<Longrightarrow> (Q \<Longrightarrow> Q') \<Longrightarrow> ends P' Q' r"
  by (auto simp: ends_def)

lemma ends_NoFuel [simp]: "r \<noteq> NoFuel \<Longrightarrow> only_if Q r"
  by (simp add: ends_def)

lemmas ends_rules = ends_if ends_and_then ends_prod ends_sum ends_option

section \<open>State and data structures\<close>

lemma obj_GetCommittedState_NoFuel [simp]: "obj_GetCommittedState X D s k so \<noteq> NoFuel"
  by (auto simp: obj_GetCommittedState_def trie_slot_def Let_def split: prod.splits option.splits sum.splits if_splits)

lemma obj_GetState_NoFuel [simp]: "obj_GetState X D s k so \<noteq> NoFuel"
  by (auto simp: obj_GetState_def split: option.splits)

lemma no_fuel_state [no_fuel, simp]:
  "GetState X D a k s \<noteq> NoFuel" "GetCommittedState X D a k s \<noteq> NoFuel" "SetState X D a k v s \<noteq> NoFuel"
  "SubRefund g s \<noteq> NoFuel"
  by (auto simp: GetState_def GetCommittedState_def SetState_def SubRefund_def obj_SetState_def and_then_iffs Let_def
      split: prod.splits option.splits if_splits)

lemma revert_entry_NoFuel [simp]: "revert_entry X D e s \<noteq> NoFuel"
  by (cases e) (auto simp: with_object_def Let_def split: prod.splits option.splits if_splits)

lemma no_fuel_revert [no_fuel, simp]: "RevertToSnapshot X D i s \<noteq> NoFuel"
proof -
  have "revert_entries X D es s \<noteq> NoFuel" for es s by (induction es arbitrary: s) (auto simp: and_then_iffs)
  then show ?thesis by (auto simp: RevertToSnapshot_def journal_revert_def and_then_iffs Let_def)
qed

lemma codeBitmap_NoFuel [simp]: "codeBitmap code \<noteq> NoFuel"
  using codeBitmap_correct [of code] by auto

lemma no_fuel_contract [no_fuel, simp]:
  "isCode c d \<noteq> NoFuel" "validJumpdest X x c \<noteq> NoFuel" "validJumpSubdest p c \<noteq> NoFuel" "AsDelegate c \<noteq> NoFuel"
proof -
  show isC: "isCode c d \<noteq> NoFuel" for d
    by (auto simp: isCode_def codeSegment_def and_then_iffs split: option.splits if_splits)
  show "validJumpdest X x c \<noteq> NoFuel" using isC by (auto simp: validJumpdest_def Let_def split: prod.splits)
  show "validJumpSubdest p c \<noteq> NoFuel" using isC by (auto simp: validJumpSubdest_def)
  show "AsDelegate c \<noteq> NoFuel" by (auto simp: AsDelegate_def split: ContractRef.splits)
qed

lemma no_fuel_stack [no_fuel, simp]:
  "stack_pop st \<noteq> NoFuel" "stack_peek st \<noteq> NoFuel" "stack_Back n st \<noteq> NoFuel" "stack_dup n st \<noteq> NoFuel"
  "stack_swap n st \<noteq> NoFuel" "rstack_pop rst \<noteq> NoFuel"
  by (simp_all add: stack_pop_def stack_peek_def stack_Back_def stack_dup_def stack_swap_def rstack_pop_def
      split: list.split)

lemma no_fuel_memory [no_fuel, simp]:
  "Memory_Set a l d mem \<noteq> NoFuel" "Memory_Set32 X a v mem \<noteq> NoFuel" "Memory_GetCopy i j mem \<noteq> NoFuel"
  "Memory_GetPtr i j mem \<noteq> NoFuel"
  unfolding Memory_Set_def Memory_Set32_def Memory_GetCopy_def Memory_GetPtr_def int64_slice_def Let_def and_then_iffs
  by (auto simp only: and_then.simps outcome.distinct split: if_split)

lemma pop_topics_NoFuel [simp]: "pop_topics X n st \<noteq> NoFuel"
  by (induction n arbitrary: st) (auto simp: and_then_iffs)

section \<open>Plain instructions\<close>

lemma no_fuel_shapes [no_fuel, simp]: "continue m \<noteq> NoFuel" "fail e m \<noteq> NoFuel"
  "binop f E run m \<noteq> NoFuel" "unop g E run m \<noteq> NoFuel" "pushop h E run m \<noteq> NoFuel" "copy_data E src a b l m \<noteq> NoFuel"
  by (simp_all add: continue_def fail_def binop_def unop_def pushop_def copy_data_def and_then_iffs case_prod_unfold Let_def)

lemma no_fuel_simple [no_fuel]:
  "opAdd E run m \<noteq> NoFuel" "opSub E run m \<noteq> NoFuel" "opMul E run m \<noteq> NoFuel"
  "opDiv E run m \<noteq> NoFuel" "opSdiv E run m \<noteq> NoFuel" "opMod E run m \<noteq> NoFuel"
  "opSmod E run m \<noteq> NoFuel" "opExp E run m \<noteq> NoFuel" "opSignExtend E run m \<noteq> NoFuel"
  "opLt E run m \<noteq> NoFuel" "opGt E run m \<noteq> NoFuel" "opSlt E run m \<noteq> NoFuel"
  "opSgt E run m \<noteq> NoFuel" "opEq E run m \<noteq> NoFuel" "opAnd E run m \<noteq> NoFuel"
  "opOr E run m \<noteq> NoFuel" "opXor E run m \<noteq> NoFuel" "opByte E run m \<noteq> NoFuel"
  "opSHL E run m \<noteq> NoFuel" "opSHR E run m \<noteq> NoFuel" "opSAR E run m \<noteq> NoFuel"
  "opNot E run m \<noteq> NoFuel" "opIszero E run m \<noteq> NoFuel" "opAddress E run m \<noteq> NoFuel"
  "opOrigin E run m \<noteq> NoFuel" "opCaller E run m \<noteq> NoFuel" "opCallDataSize E run m \<noteq> NoFuel"
  "opReturnDataSize E run m \<noteq> NoFuel" "opCodeSize E run m \<noteq> NoFuel"
  "opGasprice E run m \<noteq> NoFuel" "opCoinbase E run m \<noteq> NoFuel" "opTimestamp E run m \<noteq> NoFuel"
  "opNumber E run m \<noteq> NoFuel" "opDifficulty E run m \<noteq> NoFuel" "opGasLimit E run m \<noteq> NoFuel"
  "opChainID E run m \<noteq> NoFuel" "opPc E run m \<noteq> NoFuel" "opMsize E run m \<noteq> NoFuel"
  "opGas E run m \<noteq> NoFuel"
  unfolding opAdd_def opSub_def opMul_def opDiv_def opSdiv_def opMod_def opSmod_def opExp_def opSignExtend_def opLt_def
    opGt_def opSlt_def opSgt_def opEq_def opAnd_def opOr_def opXor_def opByte_def opSHL_def opSHR_def opSAR_def
    opNot_def opIszero_def opAddress_def opOrigin_def opCaller_def opCallDataSize_def opReturnDataSize_def
    opCodeSize_def opGasprice_def opCoinbase_def opTimestamp_def opNumber_def opDifficulty_def opGasLimit_def
    opChainID_def opPc_def opMsize_def opGas_def
  by simp_all

lemma no_fuel_instructions [no_fuel]:
  "opAddmod E run m \<noteq> NoFuel" "opMulmod E run m \<noteq> NoFuel" "opSha3 E run m \<noteq> NoFuel"
  "opBalance E run m \<noteq> NoFuel" "opCallValue E run m \<noteq> NoFuel"
  "opCallDataLoad E run m \<noteq> NoFuel" "opCallDataCopy E run m \<noteq> NoFuel"
  "opReturnDataCopy E run m \<noteq> NoFuel" "opExtCodeSize E run m \<noteq> NoFuel"
  "opCodeCopy E run m \<noteq> NoFuel" "opExtCodeCopy E run m \<noteq> NoFuel"
  "opExtCodeHash E run m \<noteq> NoFuel" "opBlockhash E run m \<noteq> NoFuel"
  "opSelfBalance E run m \<noteq> NoFuel" "opPop E run m \<noteq> NoFuel" "opMload E run m \<noteq> NoFuel"
  "opMstore E run m \<noteq> NoFuel" "opMstore8 E run m \<noteq> NoFuel" "opSload E run m \<noteq> NoFuel"
  "opSstore E run m \<noteq> NoFuel" "opJump E run m \<noteq> NoFuel" "opJumpi E run m \<noteq> NoFuel"
  "opJumpdest E run m \<noteq> NoFuel" "opBeginSub E run m \<noteq> NoFuel" "opJumpSub E run m \<noteq> NoFuel"
  "opReturnSub E run m \<noteq> NoFuel" "opReturn E run m \<noteq> NoFuel" "opRevert E run m \<noteq> NoFuel"
  "opStop E run m \<noteq> NoFuel" "opSuicide E run m \<noteq> NoFuel" "opPush1 E run m \<noteq> NoFuel"
  "makeLog n E run m \<noteq> NoFuel" "makePush k n E run m \<noteq> NoFuel" "makeDup n E run m \<noteq> NoFuel"
  "makeSwap n E run m \<noteq> NoFuel"
  by (simp_all add: and_then_iffs case_prod_unfold Let_def
      opAddmod_def opMulmod_def opSha3_def opBalance_def opCallValue_def opCallDataLoad_def opCallDataCopy_def
      opReturnDataCopy_def opExtCodeSize_def opCodeCopy_def opExtCodeCopy_def opExtCodeHash_def opBlockhash_def
      opSelfBalance_def opPop_def opMload_def opMstore_def opMstore8_def opSload_def opSstore_def opJump_def
      opJumpi_def opJumpdest_def opBeginSub_def opJumpSub_def opReturnSub_def opReturn_def opRevert_def
      opStop_def opSuicide_def opPush1_def makeLog_def makePush_def makeDup_def makeSwap_def return_memory_def split: option.split)

section \<open>Gas functions\<close>

text \<open>What a gas function may do: read the state, add refunds, set \<open>callGasTemp\<close> and the memory fee.\<close>

definition gas_post :: "'t env \<Rightarrow> 't EVM \<Rightarrow> Memory \<Rightarrow> u64 \<Rightarrow> (evm_error + u64) \<times> 't EVM \<times> Memory \<Rightarrow> bool" where
  "gas_post E evm mem k = (\<lambda>(r, evm', mem').
     sub_evm E evm evm' \<and> store mem' = store mem \<and> (\<forall>cost. r = Inr cost \<longrightarrow> k \<le> cost))"

text \<open>\<open>gas_ok k f\<close>: moreover, it costs at least \<open>k\<close>.\<close>

definition gas_ok :: "u64 \<Rightarrow> 't gasFunc \<Rightarrow> bool" where
  "gas_ok k f \<longleftrightarrow> (\<forall>E evm c st mem n. yields (gas_post E evm mem k) (f E evm c st mem n))"

named_theorems gas_oks \<open>what the gas functions do and cost\<close>

lemma gas_okI: "(\<And>E evm c st mem n. yields (gas_post E evm mem k) (f E evm c st mem n)) \<Longrightarrow> gas_ok k f"
  by (simp add: gas_ok_def)

lemma memoryGasCost_store: "memoryGasCost mem n = (r, mem') \<Longrightarrow> store mem' = store mem"
  by (auto simp: memoryGasCost_def Let_def split: if_splits)

lemma word_gas_ok: "gas_ok 0 (word_gas k p)"
  unfolding word_gas_def
  by (intro gas_okI ends_rules) (auto simp: gas_post_def dest: memoryGasCost_store)

lemma word_gas_oks [gas_oks]:
  "gas_ok 0 gasCallDataCopy" "gas_ok 0 gasCodeCopy" "gas_ok 0 gasExtCodeCopy" "gas_ok 0 gasReturnDataCopy"
  "gas_ok 0 gasSha3" "gas_ok 0 gasCreate2"
  by (simp_all add: gasCallDataCopy_def gasCodeCopy_def gasExtCodeCopy_def gasReturnDataCopy_def gasSha3_def
      gasCreate2_def memoryCopierGas_def word_gas_ok)

lemma pureMemoryGascost_ok: "gas_ok 0 pureMemoryGascost"
  unfolding pureMemoryGascost_def Let_def
  by (intro gas_okI ends_rules) (auto simp: gas_post_def dest: memoryGasCost_store)

lemma pureMemoryGascost_oks [gas_oks]:
  "gas_ok 0 gasReturn" "gas_ok 0 gasRevert" "gas_ok 0 gasMLoad" "gas_ok 0 gasMStore8" "gas_ok 0 gasMStore"
  "gas_ok 0 gasCreate"
  by (simp_all add: gasReturn_def gasRevert_def gasMLoad_def gasMStore8_def gasMStore_def gasCreate_def pureMemoryGascost_ok)

lemma SafeAdd_le: "no_overflow (SafeAdd x y) = Inr z \<Longrightarrow> unat z = unat x + unat y"
  by (simp add: no_overflow_Inr_iff SafeAdd_no_overflow)

lemma makeGasLog_ok [gas_oks]: "gas_ok LogGas (makeGasLog n)"
  unfolding makeGasLog_def Let_def
  by (intro gas_okI ends_rules)
    (auto simp: gas_post_def or_fail_Inr_iff word_le_nat_alt dest: memoryGasCost_store dest!: SafeAdd_le)

lemma gas_exp_ok [gas_oks]: "gas_ok ExpGas gasExpFrontier" "gas_ok ExpGas gasExpEIP158"
  unfolding gasExpFrontier_def gasExpEIP158_def gas_exp_def Let_def
  by (intro gas_okI ends_rules; auto simp: gas_post_def word_le_nat_alt dest!: SafeAdd_le)+

lemma dirty_slot_refund_ok:
  "dirty_slot_refund a b c original current val s \<noteq> NoFuel"
  "dirty_slot_refund a b c original current val s = Done s' \<Longrightarrow> transfers E \<Longrightarrow> grows E s s'"
proof -
  show "dirty_slot_refund a b c original current val s \<noteq> NoFuel"
    by (auto simp: dirty_slot_refund_def and_then_iffs split: if_splits)
  assume r: "dirty_slot_refund a b c original current val s = Done s'" and t: "transfers E"
  from r show "grows E s s'"
    by (auto simp: dirty_slot_refund_def and_then_iffs split: if_splits
        intro!: transfers.grows_setters(8) [OF t] intro: transfers.grows_partial(4) [OF t])
qed

text \<open>The state changes of the gas functions of \<open>SSTORE\<close>.\<close>

lemma sub_evm_state: "(transfers E \<Longrightarrow> grows E (evm_StateDB evm) s) \<Longrightarrow> sub_evm E evm (evm\<lparr>evm_StateDB := s\<rparr>)"
  by (simp add: sub_evm_def)

lemmas slot_intros = sub_evm_state transfers.grows_setters(8) transfers.grows_partial(1)
  grows_trans [OF transfers.grows_partial(1) transfers.grows_partial(2)]
  grows_trans [OF grows_trans [OF transfers.grows_partial(1) transfers.grows_partial(2)] dirty_slot_refund_ok(2)]

lemma gasSStore_ok [gas_oks]: "gas_ok NetSstoreNoopGas gasSStore"
  unfolding gasSStore_def Let_def
  by (intro gas_okI ends_rules) (auto simp: gas_post_def dirty_slot_refund_ok(1) intro: slot_intros)

lemma gasSStoreEIP2200_ok [gas_oks]: "gas_ok SloadGasEIP2200 gasSStoreEIP2200"
  unfolding gasSStoreEIP2200_def Let_def
  by (intro gas_okI ends_rules) (auto simp: gas_post_def dirty_slot_refund_ok(1) intro: slot_intros)

lemma same_evm_sub_reads:
  "lift_state (Exist (env_X E) (env_D E) a) evm = (b, evm') \<Longrightarrow> sub_evm E evm evm'"
  "lift_state (Empty (env_X E) (env_D E) a) evm = (b, evm') \<Longrightarrow> sub_evm E evm evm'"
  "lift_state (HasSuicided (env_X E) (env_D E) a) evm = (b, evm') \<Longrightarrow> sub_evm E evm evm'"
  "lift_state (GetBalance (env_X E) (env_D E) a) evm = (v, evm') \<Longrightarrow> sub_evm E evm evm'"
  "sub_evm E evm (on_state (AddRefund g) evm)"
  by (auto intro!: same_evm_sub same_evm_on_state intro: same_evm_reads transfers.grows_setters)

lemma gasSelfdestruct_ok [gas_oks]: "gas_ok 0 gasSelfdestruct"
proof (rule gas_okI)
  fix E :: "'t env" and evm c st mem n
  show "yields (gas_post E evm mem 0) (gasSelfdestruct E evm c st mem n)"
    unfolding gasSelfdestruct_def Let_def
  proof (rule ends_bind [where R = "\<lambda>(g, evm1). sub_evm E evm evm1"], goal_cases)
    case 1
    show ?case by (intro ends_rules) (auto dest: same_evm_sub_reads(1-4) intro: sub_evm_trans)
  next
    case (2 r)
    then show ?case
      by (intro ends_rules) (auto simp: gas_post_def dest: same_evm_sub_reads(3) intro: sub_evm_trans same_evm_sub_reads(5))
  qed
qed

text \<open>The call gas functions charge what they put into \<open>callGasTemp\<close>, and the price of a transfer.\<close>

definition call_gas_post :: "'t env \<Rightarrow> 't EVM \<Rightarrow> Memory \<Rightarrow> nat \<Rightarrow> (evm_error + u64) \<times> 't EVM \<times> Memory \<Rightarrow> bool" where
  "call_gas_post E evm mem k = (\<lambda>(r, evm', mem').
     gas_post E evm mem 0 (r, evm', mem') \<and>
     (\<forall>cost. r = Inr cost \<longrightarrow> unat (callGasTemp evm') + k \<le> unat cost))"

lemma finish_call_gas_post:
  assumes "sub_evm E evm0 evm" "store mem = store mem0" "k \<le> unat gas"
  shows "call_gas_post E evm0 mem0 k (finish_call_gas E evm c req mem gas)"
  using assms by (auto simp: finish_call_gas_def call_gas_post_def gas_post_def sub_evm_def dest!: SafeAdd_le split: sum.split)

lemma call_gas_post_Inl:
  "sub_evm E evm0 evm \<Longrightarrow> store mem = store mem0 \<Longrightarrow> call_gas_post E evm0 mem0 k (Inl e, evm, mem)"
  by (simp add: call_gas_post_def gas_post_def)

lemmas call_gas_intros = finish_call_gas_post call_gas_post_Inl

lemma gasDelegateCall_ok: "yields (call_gas_post E evm mem 0) (gasDelegateCall E evm c st mem n)"
  unfolding gasDelegateCall_def Let_def
  by (intro ends_rules) (auto intro!: call_gas_intros dest: memoryGasCost_store)

lemma gasStaticCall_ok: "yields (call_gas_post E evm mem 0) (gasStaticCall E evm c st mem n)"
  unfolding gasStaticCall_def Let_def
  by (intro ends_rules) (auto intro!: call_gas_intros dest: memoryGasCost_store)

lemma stack_Back_Done: "stack_Back n st = Done v \<Longrightarrow> v = st ! n \<and> n < length st"
  by (auto simp: stack_Back_def split: if_splits)

lemma gasCallCode_ok:
  assumes "uint256_api (env_X E)"
  shows "yields (call_gas_post E evm mem (if u_IsZero (env_X E) (st ! 2) then 0 else 9000)) (gasCallCode E evm c st mem n)"
  unfolding gasCallCode_def Let_def
  by (intro ends_rules)
    (auto intro!: call_gas_intros dest: memoryGasCost_store dest!: stack_Back_Done SafeAdd_le
      simp: uint256_api.Sign [OF assms] uint256_api.IsZero [OF assms] sgn_0_0 signed_eq_0_iff)

lemma gasCall_ok:
  "yields (call_gas_post E evm mem (if u_IsZero (env_X E) (st ! 2) then 0 else 9000)) (gasCall E evm c st mem n)"
  unfolding gasCall_def Let_def
proof (intro ends_rules, goal_cases)
  case (3 v a gas1 evm1 r mem1 err)
  then have "sub_evm E evm evm1" by (auto split: if_splits prod.splits dest: same_evm_sub_reads(1-4))
  with 3 show ?case by (auto intro!: call_gas_intros dest: memoryGasCost_store)
next
  case (5 v a gas1 evm1 r mem1 gas req)
  then have "sub_evm E evm evm1" by (auto split: if_splits prod.splits dest: same_evm_sub_reads(1-4))
  moreover have "unat (gas1 + 9000) = unat gas1 + 9000" using 5(3) by (auto split: if_splits prod.splits)
  ultimately show ?case using 5
    by (auto intro!: call_gas_intros dest: memoryGasCost_store dest!: stack_Back_Done SafeAdd_le
      simp: or_fail_Inr_iff split: if_splits)
qed auto

section \<open>Calls\<close>

text \<open>A run with this gas ran out of fuel.\<close>

definition called_out :: "'t runner \<Rightarrow> u64 \<Rightarrow> bool" where
  "called_out run gas \<longleftrightarrow> (\<exists>evm c input ro. run evm c input ro = NoFuel \<and> Gas c = gas)"

lemma run_contract_only: "Gas c = gas \<Longrightarrow> only_if (called_out run gas) (run_contract run evm c input ro)"
  by (auto simp: ends_def called_out_def run_contract_def and_then_iffs)

lemma run_precompile_NoFuel: "run_precompile E p evm jd input gas \<noteq> NoFuel"
  by (auto simp: run_precompile_def and_then_iffs)

lemma end_call_NoFuel: "end_call E i r \<noteq> NoFuel"
  by (cases r) (simp add: end_call_def and_then_iffs)

lemma call_code_at_only:
  assumes "prepared \<noteq> NoFuel" "\<And>c. prepared = Done c \<Longrightarrow> Gas c = gas"
  shows "only_if (called_out run gas) (call_code_at E run evm clr addr input gas ro prepared)"
  unfolding call_code_at_def Let_def
  by (intro ends_rules run_contract_only ends_NoFuel run_precompile_NoFuel) (use assms in auto)

lemmas only_if_ends = ends_NoFuel [OF end_call_NoFuel] ends_NoFuel [OF run_precompile_NoFuel]

lemma evm_Call_only: "only_if (called_out run gas) (evm_Call E run evm clr addr input gas val)"
  unfolding evm_Call_def Let_def
  by (intro ends_rules run_contract_only only_if_ends) simp_all

lemma evm_CallCode_only: "only_if (called_out run gas) (evm_CallCode E run evm clr addr input gas val)"
  unfolding evm_CallCode_def Let_def
  by (intro ends_rules call_code_at_only only_if_ends) auto

lemma evm_DelegateCall_only: "only_if (called_out run gas) (evm_DelegateCall E run evm clr addr input gas)"
  unfolding evm_DelegateCall_def Let_def
  by (intro ends_rules call_code_at_only only_if_ends) (auto dest: Gas_AsDelegate)

lemma evm_StaticCall_only: "only_if (called_out run gas) (evm_StaticCall E run evm clr addr input gas)"
  unfolding evm_StaticCall_def Let_def
  by (intro ends_rules call_code_at_only only_if_ends) auto

lemma end_create_NoFuel: "end_create E i addr r \<noteq> NoFuel"
  by (cases r) (auto simp: end_create_def and_then_iffs Let_def split: prod.splits if_splits)

lemma evm_create_only: "only_if (called_out run gas) (evm_create E run evm clr cah gas val addr)"
proof -
  have run: "only_if (called_out run gas) (run evm' c [] False)" if "Gas c = gas" for evm' c
    using that by (auto simp: ends_def called_out_def)
  show ?thesis
    unfolding evm_create_def Let_def
    by (intro ends_rules run ends_NoFuel [OF end_create_NoFuel]) simp_all
qed

lemma evm_Create_only: "only_if (called_out run gas) (evm_Create E run evm clr code gas val)"
  unfolding evm_Create_def Let_def
  by (intro ends_rules evm_create_only) (simp add: CreateAddress_formula )

lemma evm_Create2_only: "only_if (called_out run gas) (evm_Create2 E run evm clr code gas val salt)"
  unfolding evm_Create2_def Let_def by (intro ends_rules evm_create_only)

section \<open>More fuel\<close>

text \<open>\<open>below r r'\<close>: \<open>r'\<close> is the same result as \<open>r\<close>, unless \<open>r\<close> ran out of fuel.\<close>

definition below :: "'a outcome \<Rightarrow> 'a outcome \<Rightarrow> bool" where
  "below r r' \<longleftrightarrow> r = NoFuel \<or> r = r'"

lemma below_refl [simp]: "below r r"
  by (simp add: below_def)

lemma below_if: "below x x' \<Longrightarrow> below y y' \<Longrightarrow> below (if b then x else y) (if b then x' else y')"
  by simp

lemma below_and_then: "below r r' \<Longrightarrow> (\<And>x. below (f x) (g x)) \<Longrightarrow> below (and_then r f) (and_then r' g)"
  unfolding below_def by (cases r) force+

lemma below_prod: "(\<And>x y. below (f x y) (g x y)) \<Longrightarrow> below (case p of (x, y) \<Rightarrow> f x y) (case p of (x, y) \<Rightarrow> g x y)"
  by (cases p) simp

lemma below_option:
  "below f f' \<Longrightarrow> (\<And>x. below (g x) (g' x)) \<Longrightarrow> below (case r of None \<Rightarrow> f | Some x \<Rightarrow> g x) (case r of None \<Rightarrow> f' | Some x \<Rightarrow> g' x)"
  by (cases r) simp_all

lemma below_sum:
  "(\<And>x. below (f x) (f' x)) \<Longrightarrow> (\<And>x. below (g x) (g' x)) \<Longrightarrow>
   below (case r of Inl x \<Rightarrow> f x | Inr x \<Rightarrow> g x) (case r of Inl x \<Rightarrow> f' x | Inr x \<Rightarrow> g' x)"
  by (cases r) simp_all

lemmas below_rules = below_if below_and_then below_prod below_option below_sum

definition run_below :: "'t runner \<Rightarrow> 't runner \<Rightarrow> bool" where
  "run_below run run' \<longleftrightarrow> (\<forall>evm c input ro. below (run evm c input ro) (run' evm c input ro))"

lemma run_belowD: "run_below run run' \<Longrightarrow> below (run evm c input ro) (run' evm c input ro)"
  by (simp add: run_below_def)

lemma run_contract_below: "run_below run run' \<Longrightarrow> below (run_contract run evm c input ro) (run_contract run' evm c input ro)"
  unfolding run_contract_def by (intro below_rules run_belowD) simp_all

lemma call_code_at_below:
  "run_below run run' \<Longrightarrow>
   below (call_code_at E run evm clr addr input gas ro p) (call_code_at E run' evm clr addr input gas ro p)"
  unfolding call_code_at_def Let_def by (intro below_rules run_contract_below) simp_all

lemma evm_below:
  assumes "run_below run run'"
  shows "below (evm_Call E run evm clr addr input gas val) (evm_Call E run' evm clr addr input gas val)"
    "below (evm_CallCode E run evm clr addr input gas val) (evm_CallCode E run' evm clr addr input gas val)"
    "below (evm_DelegateCall E run evm clr addr input gas) (evm_DelegateCall E run' evm clr addr input gas)"
    "below (evm_StaticCall E run evm clr addr input gas) (evm_StaticCall E run' evm clr addr input gas)"
    "below (evm_create E run evm clr cah gas val addr) (evm_create E run' evm clr cah gas val addr)"
    "below (evm_Create E run evm clr code gas val) (evm_Create E run' evm clr code gas val)"
    "below (evm_Create2 E run evm clr code gas val salt) (evm_Create2 E run' evm clr code gas val salt)"
proof -
  show create: "below (evm_create E run evm clr cah gas val addr) (evm_create E run' evm clr cah gas val addr)" for evm cah addr
    unfolding evm_create_def Let_def by (intro below_rules run_belowD [OF assms]) simp_all
  show "below (evm_Create E run evm clr code gas val) (evm_Create E run' evm clr code gas val)"
    "below (evm_Create2 E run evm clr code gas val salt) (evm_Create2 E run' evm clr code gas val salt)"
    unfolding evm_Create_def evm_Create2_def Let_def by (intro below_rules create; simp)+
  show "below (evm_Call E run evm clr addr input gas val) (evm_Call E run' evm clr addr input gas val)"
    unfolding evm_Call_def Let_def by (intro below_rules run_contract_below [OF assms]) simp_all
  show "below (evm_CallCode E run evm clr addr input gas val) (evm_CallCode E run' evm clr addr input gas val)"
    "below (evm_DelegateCall E run evm clr addr input gas) (evm_DelegateCall E run' evm clr addr input gas)"
    "below (evm_StaticCall E run evm clr addr input gas) (evm_StaticCall E run' evm clr addr input gas)"
    unfolding evm_CallCode_def evm_DelegateCall_def evm_StaticCall_def Let_def
    by (intro below_rules call_code_at_below [OF assms]; simp)+
qed

lemma call_instructions_below:
  assumes "run_below run run'"
  shows "below (opCall E run m) (opCall E run' m)" "below (opCallCode E run m) (opCallCode E run' m)"
    "below (opDelegateCall E run m) (opDelegateCall E run' m)" "below (opStaticCall E run m) (opStaticCall E run' m)"
    "below (opCreate E run m) (opCreate E run' m)" "below (opCreate2 E run m) (opCreate2 E run' m)"
  unfolding opCall_def opCallCode_def opDelegateCall_def opStaticCall_def opCreate_def opCreate2_def Let_def
  by (intro below_rules evm_below [OF assms]; simp)+

named_theorems no_run \<open>instructions that do not run contracts\<close>

lemma plain_no_run [no_run]:
  "opAdd E run m = opAdd E run' m" "opSub E run m = opSub E run' m" "opMul E run m = opMul E run' m"
  "opDiv E run m = opDiv E run' m" "opSdiv E run m = opSdiv E run' m" "opMod E run m = opMod E run' m"
  "opSmod E run m = opSmod E run' m" "opExp E run m = opExp E run' m"
  "opSignExtend E run m = opSignExtend E run' m" "opLt E run m = opLt E run' m" "opGt E run m = opGt E run' m"
  "opSlt E run m = opSlt E run' m" "opSgt E run m = opSgt E run' m" "opEq E run m = opEq E run' m"
  "opAnd E run m = opAnd E run' m" "opOr E run m = opOr E run' m" "opXor E run m = opXor E run' m"
  "opByte E run m = opByte E run' m" "opSHL E run m = opSHL E run' m" "opSHR E run m = opSHR E run' m"
  "opSAR E run m = opSAR E run' m" "opNot E run m = opNot E run' m" "opIszero E run m = opIszero E run' m"
  "opAddress E run m = opAddress E run' m" "opOrigin E run m = opOrigin E run' m"
  "opCaller E run m = opCaller E run' m" "opCallDataSize E run m = opCallDataSize E run' m"
  "opReturnDataSize E run m = opReturnDataSize E run' m" "opCodeSize E run m = opCodeSize E run' m"
  "opGasprice E run m = opGasprice E run' m" "opCoinbase E run m = opCoinbase E run' m"
  "opTimestamp E run m = opTimestamp E run' m" "opNumber E run m = opNumber E run' m"
  "opDifficulty E run m = opDifficulty E run' m" "opGasLimit E run m = opGasLimit E run' m"
  "opChainID E run m = opChainID E run' m" "opPc E run m = opPc E run' m" "opMsize E run m = opMsize E run' m"
  "opGas E run m = opGas E run' m" "opAddmod E run m = opAddmod E run' m" "opMulmod E run m = opMulmod E run' m"
  "opSha3 E run m = opSha3 E run' m" "opBalance E run m = opBalance E run' m"
  "opCallValue E run m = opCallValue E run' m" "opCallDataLoad E run m = opCallDataLoad E run' m"
  "opExtCodeSize E run m = opExtCodeSize E run' m" "opExtCodeHash E run m = opExtCodeHash E run' m"
  "opBlockhash E run m = opBlockhash E run' m" "opSelfBalance E run m = opSelfBalance E run' m"
  "opPop E run m = opPop E run' m" "opMload E run m = opMload E run' m"
  "opCallDataCopy E run m = opCallDataCopy E run' m" "opReturnDataCopy E run m = opReturnDataCopy E run' m"
  "opCodeCopy E run m = opCodeCopy E run' m" "opExtCodeCopy E run m = opExtCodeCopy E run' m"
  "opJump E run m = opJump E run' m" "opJumpi E run m = opJumpi E run' m" "opJumpSub E run m = opJumpSub E run' m"
  "opJumpdest E run m = opJumpdest E run' m" "opBeginSub E run m = opBeginSub E run' m"
  "opReturnSub E run m = opReturnSub E run' m" "opReturn E run m = opReturn E run' m"
  "opRevert E run m = opRevert E run' m" "opStop E run m = opStop E run' m"
  "opSuicide E run m = opSuicide E run' m" "opPush1 E run m = opPush1 E run' m"
  "opSload E run m = opSload E run' m" "opSstore E run m = opSstore E run' m"
  "makePush k n E run m = makePush k n E run' m" "makeDup n E run m = makeDup n E run' m"
  "makeSwap n E run m = makeSwap n E run' m" "opMstore E run m = opMstore E run' m"
  "opMstore8 E run m = opMstore8 E run' m" "makeLog n E run m = makeLog n E run' m"
  by (simp_all add:
      opAdd_def opSub_def opMul_def opDiv_def opSdiv_def opMod_def opSmod_def opExp_def opSignExtend_def opLt_def
      opGt_def opSlt_def opSgt_def opEq_def opAnd_def opOr_def opXor_def opByte_def opSHL_def opSHR_def opSAR_def
      opNot_def opIszero_def opAddress_def opOrigin_def opCaller_def opCallDataSize_def opReturnDataSize_def
      opCodeSize_def opGasprice_def opCoinbase_def opTimestamp_def opNumber_def opDifficulty_def opGasLimit_def
      opChainID_def opPc_def opMsize_def opGas_def opAddmod_def opMulmod_def opSha3_def opBalance_def
      opCallValue_def opCallDataLoad_def opExtCodeSize_def opExtCodeHash_def opBlockhash_def opSelfBalance_def
      opPop_def opMload_def opCallDataCopy_def opReturnDataCopy_def opCodeCopy_def opExtCodeCopy_def opJump_def
      opJumpi_def opJumpSub_def opJumpdest_def opBeginSub_def opReturnSub_def opReturn_def opRevert_def opStop_def
      opSuicide_def opPush1_def opSload_def opSstore_def makePush_def makeDup_def makeSwap_def opMstore_def
      opMstore8_def makeLog_def binop_def unop_def pushop_def return_memory_def)

end
