(* ===== verification/Vm_Gas_Bound.thy ===== *)
theory Vm_Gas_Bound
  imports Vm_Fuel
begin

text \<open>
  Gas bounds the interpreter. Every operation of every instruction set that does not end the run
  costs gas, and a call hands on less gas than it charges: so the loop ends, fuel above the gas of
  the contract is enough, a run returns at most the gas it got, and the stack never exceeds 1024
  items. The interpreter thereby satisfies the contract \<open>runner_ok\<close> that the calls rely on.
\<close>

section \<open>The call instructions\<close>

definition call_post :: "'t env \<Rightarrow> int \<Rightarrow> 't machine \<Rightarrow> u64 \<Rightarrow> 't executed \<Rightarrow> bool" where
  "call_post E d m budget = (\<lambda>(res, err, m').
     sub_evm E (m_evm m) (m_evm m') \<and>
     (\<exists>g \<le> budget. Gas (m_contract m') = Gas (m_contract m) + g) \<and>
     int (length (m_stack m')) = int (length (m_stack m)) + d)"

lemma finish_call_post:
  assumes "called_ok E (m_evm m) budget r" "m_evm m0 = m_evm m" "m_contract m0 = m_contract m"
    "int (length (m_stack m0)) + 1 = int (length (m_stack m)) + d"
  shows "ends (call_post E d m budget) Q (finish_call E a x1 x2 x3 x4 m0 r)"
proof -
  obtain ret g err evm jd where r: "r = (ret, g, err, evm, jd)" by (cases r) auto
  show ?thesis
    unfolding r finish_call_def Let_def prod.case
    by (intro ends_rules) (use assms r in \<open>auto simp: call_post_def called_ok_def resume_def\<close>)
qed

text \<open>The gas a call gets: a call that transfers value gets the stipend on top.\<close>

definition call_budget :: "'t env \<Rightarrow> 't machine \<Rightarrow> u64" where
  "call_budget E m =
     (if u_IsZero (env_X E) (m_stack m ! 2) then callGasTemp (m_evm m) else callGasTemp (m_evm m) + CallStipend)"

lemma opCall_post:
  assumes ok: "runner_ok E run"
  shows "ends (call_post E (- 6) m (call_budget E m)) (called_out run (call_budget E m)) (opCall E run m)"
  unfolding opCall_def Let_def
  by (intro ends_rules finish_call_post)
    (auto simp: stack_pop_Done call_budget_def intro!: evm_Call_ok [OF ok] evm_Call_only ends_NoFuel)

lemma opCallCode_post:
  assumes ok: "runner_ok E run"
  shows "ends (call_post E (- 6) m (call_budget E m)) (called_out run (call_budget E m)) (opCallCode E run m)"
  unfolding opCallCode_def Let_def
  by (intro ends_rules finish_call_post)
    (auto simp: stack_pop_Done call_budget_def intro!: evm_CallCode_ok [OF ok] evm_CallCode_only ends_NoFuel)

lemma opDelegateCall_post:
  assumes ok: "runner_ok E run"
  shows "ends (call_post E (- 5) m (callGasTemp (m_evm m))) (called_out run (callGasTemp (m_evm m))) (opDelegateCall E run m)"
  unfolding opDelegateCall_def Let_def
  by (intro ends_rules finish_call_post)
    (auto simp: stack_pop_Done intro!: evm_DelegateCall_ok [OF ok] evm_DelegateCall_only ends_NoFuel)

lemma opStaticCall_post:
  assumes ok: "runner_ok E run"
  shows "ends (call_post E (- 5) m (callGasTemp (m_evm m))) (called_out run (callGasTemp (m_evm m))) (opStaticCall E run m)"
  unfolding opStaticCall_def Let_def
  by (intro ends_rules finish_call_post)
    (auto simp: stack_pop_Done intro!: evm_StaticCall_ok [OF ok] evm_StaticCall_only ends_NoFuel)

text \<open>A creation hands on at most the gas that is left, and takes back what the creation left over.\<close>

definition create_post :: "'t env \<Rightarrow> int \<Rightarrow> 't machine \<Rightarrow> 't executed \<Rightarrow> bool" where
  "create_post E d m = (\<lambda>(res, err, m').
     sub_evm E (m_evm m) (m_evm m') \<and> Gas (m_contract m') \<le> Gas (m_contract m) \<and>
     int (length (m_stack m')) = int (length (m_stack m)) + d)"

lemma UseGas_paid: "g \<le> Gas c \<Longrightarrow> UseGas g c = (True, c\<lparr>Gas := Gas c - g\<rparr>)"
  by (simp add: UseGas_def)

lemma part_left: "g \<le> (x :: u64) \<Longrightarrow> r \<le> g \<Longrightarrow> x - g + r \<le> x"
  using u64_less [of x] by (auto simp: word_le_nat_alt unat_sub unat_plus_if')

lemma sixty_fourth: "x - x div 64 \<le> (x :: u64)"
  by (simp add: word_le_nat_alt unat_sub unat_div)

lemma called_out_part: "called_out run (x - x div 64) \<Longrightarrow> \<exists>g \<le> x. called_out run g"
  using sixty_fourth by blast

lemma resume_post:
  assumes "created_ok E a (m_evm m) gas (res, addr, g, err, evm, jd)" "gas \<le> Gas (m_contract m)"
    "int (length st) + 1 = int (length (m_stack m)) + d"
  shows "create_post E d m (res', err', resume g evm jd (m\<lparr>m_stack := v # st, m_contract := snd (UseGas gas (m_contract m))\<rparr>))"
  using assms by (auto simp: create_post_def created_ok_def Let_def resume_def UseGas_paid part_left)

lemma opCreate_post:
  assumes ok: "runner_ok E run"
  shows "ends (create_post E (- 2) m) (\<exists>g \<le> Gas (m_contract m). called_out run g) (opCreate E run m)"
  unfolding opCreate_def Let_def
  by (intro ends_rules)
    (auto simp: stack_pop_Done continue_def sixty_fourth
      intro!: resume_post [OF evm_Create_ok [OF ok]] ends_mono [OF evm_Create_only]
      intro: called_out_part)

lemma opCreate2_post:
  assumes ok: "runner_ok E run"
  shows "ends (create_post E (- 3) m) (\<exists>g \<le> Gas (m_contract m). called_out run g) (opCreate2 E run m)"
  unfolding opCreate2_def Let_def
  by (intro ends_rules)
    (auto simp: stack_pop_Done continue_def sixty_fourth
      intro!: resume_post [OF evm_Create2_ok [OF ok]] ends_mono [OF evm_Create2_only]
      intro: called_out_part)

section \<open>Operations\<close>

text \<open>The gas an operation must cost at least beyond its constant price.\<close>

definition pays :: "'t operation \<Rightarrow> u64" where
  "pays opn = (if constantGas opn = 0 \<and> \<not> op_halts opn \<and> \<not> op_reverts opn then 1 else 0)"

definition exec_post :: "'t env \<Rightarrow> 't operation \<Rightarrow> 't machine \<Rightarrow> 't executed \<Rightarrow> bool" where
  "exec_post E opn m = (\<lambda>(res, err, m').
     sub_evm E (m_evm m) (m_evm m') \<and>
     unat (Gas (m_contract m')) + unat (pays opn) \<le> unat (Gas (m_contract m)) \<and>
     (err = None \<longrightarrow> int (length (m_stack m')) + int (op_maxStack opn) = int (length (m_stack m)) + 1024))"

definition charge_post :: "'t env \<Rightarrow> 't machine \<Rightarrow> bool \<times> 't machine \<Rightarrow> bool" where
  "charge_post E m = (\<lambda>(paid, m').
     sub_evm E (m_evm m) (m_evm m') \<and> Gas (m_contract m') \<le> Gas (m_contract m) \<and> m_stack m' = m_stack m)"

text \<open>What the loop relies on of an operation.\<close>

definition op_ok :: "'t env \<Rightarrow> 't operation \<Rightarrow> bool" where
  "op_ok E opn \<longleftrightarrow>
     (\<forall>st. memory_needed E opn st \<noteq> NoFuel) \<and>
     (\<forall>msize m. yields (charge_post E m) (charge_dynamic E opn msize m)) \<and>
     (\<forall>msize m m' run. runner_ok E run \<longrightarrow> charge_dynamic E opn msize m = Done (True, m') \<longrightarrow>
        ends (exec_post E opn m) (constantGas opn \<noteq> 0 \<and> (\<exists>g \<le> Gas (m_contract m). called_out run g))
          (execute opn E run (grow_memory msize m'))) \<and>
     (\<forall>m run run'. run_below run run' \<longrightarrow> below (execute opn E run m) (execute opn E run' m))"

lemma op_okD:
  assumes "op_ok E opn"
  shows "memory_needed E opn st \<noteq> NoFuel" "yields (charge_post E m) (charge_dynamic E opn msize m)"
    "runner_ok E run \<Longrightarrow> charge_dynamic E opn msize m = Done (True, m') \<Longrightarrow>
     ends (exec_post E opn m) (constantGas opn \<noteq> 0 \<and> (\<exists>g \<le> Gas (m_contract m). called_out run g))
       (execute opn E run (grow_memory msize m'))"
    "run_below run run' \<Longrightarrow> below (execute opn E run m) (execute opn E run' m)"
  using assms unfolding op_ok_def by blast+

lemma op_ok_constantGas:
  assumes "op_ok E opn" "g \<noteq> 0"
  shows "op_ok E (opn\<lparr>constantGas := g\<rparr>)"
proof -
  let ?opn = "opn\<lparr>constantGas := g\<rparr>"
  have eqs: "memory_needed E ?opn = memory_needed E opn" "charge_dynamic E ?opn = charge_dynamic E opn"
    by (auto simp: fun_eq_iff memory_needed_def charge_dynamic_def)
  have post: "exec_post E opn m r \<Longrightarrow> exec_post E ?opn m r" for m r
    using assms(2) by (auto simp: exec_post_def pays_def split: if_splits)
  show ?thesis unfolding op_ok_def eqs
  proof (intro conjI allI impI)
    fix msize m m' run assume "runner_ok E run" "charge_dynamic E opn msize m = Done (True, m')"
    from op_okD(3) [OF assms(1) this]
    show "ends (exec_post E ?opn m) (constantGas ?opn \<noteq> 0 \<and> (\<exists>x \<le> Gas (m_contract m). called_out run x))
        (execute ?opn E run (grow_memory msize m'))"
      using assms(2) by (auto elim!: ends_mono intro: post)
  qed (use op_okD(1,2,4) [OF assms(1)] in auto)
qed

text \<open>An operation whose instruction does not call: it is enough to know its frame and its price.\<close>

definition plain :: "int \<Rightarrow> 't executionFunc \<Rightarrow> bool" where
  "plain d f \<longleftrightarrow> (\<forall>E run m. yields (frame E d m) (f E run m) \<and> (\<forall>run'. f E run' m = f E run m))"

definition plain_op :: "'t operation \<Rightarrow> bool" where
  "plain_op opn \<longleftrightarrow>
     plain (1024 - int (op_maxStack opn)) (execute opn) \<and>
     (case dynamicGas opn of None \<Rightarrow> pays opn = 0 | Some f \<Rightarrow> gas_ok (pays opn) f) \<and>
     (case memorySize opn of None \<Rightarrow> True | Some f \<Rightarrow> \<forall>X st. f X st \<noteq> NoFuel)"

lemma memory_needed_NoFuel: "memorySize opn = Some f \<Longrightarrow> (\<And>X st. f X st \<noteq> NoFuel) \<Longrightarrow> memory_needed E opn st \<noteq> NoFuel"
  by (simp add: memory_needed_def and_then_iffs case_prod_unfold)

lemma charge_dynamic_post:
  assumes "dynamicGas opn = Some f" "yields (gas_post E (m_evm m) (m_memory m) k) (f E (m_evm m) (m_contract m) (m_stack m) (m_memory m) msize)"
  shows "yields (\<lambda>(paid, m'). charge_post E m (paid, m') \<and>
           (paid \<longrightarrow> unat (Gas (m_contract m')) + unat k \<le> unat (Gas (m_contract m)))) (charge_dynamic E opn msize m)"
  unfolding charge_dynamic_def assms(1) option.case Let_def
  by (rule ends_bind [OF assms(2)], intro ends_rules)
    (auto simp: gas_post_def charge_post_def UseGas_def not_less word_le_nat_alt unat_sub split: sum.splits if_splits)

lemma grow_memory_simps [simp]:
  "m_evm (grow_memory n m) = m_evm m" "m_contract (grow_memory n m) = m_contract m" "m_stack (grow_memory n m) = m_stack m"
  by (simp_all add: grow_memory_def)

lemma plain_op_ok: 
  assumes "plain_op opn"
  shows "op_ok E opn"
  unfolding op_ok_def
proof (intro conjI allI impI)
  fix st show "memory_needed E opn st \<noteq> NoFuel"
    using assms memory_needed_NoFuel [of opn] by (cases "memorySize opn") (auto simp: plain_op_def memory_needed_def)
next
  fix m run run' show "below (execute opn E run m) (execute opn E run' m)"
    using assms unfolding plain_op_def plain_def by (metis below_refl)
next
  fix msize m
  have paid: "yields (\<lambda>(paid, m'). charge_post E m (paid, m') \<and>
      (paid \<longrightarrow> unat (Gas (m_contract m')) + unat (pays opn) \<le> unat (Gas (m_contract m)))) (charge_dynamic E opn msize m)"
  proof (cases "dynamicGas opn")
    case None
    then show ?thesis using assms by (simp add: charge_dynamic_def charge_post_def plain_op_def)
  next
    case (Some f)
    then show ?thesis using assms by (intro charge_dynamic_post [OF Some]) (simp add: plain_op_def gas_ok_def)
  qed
  then show "yields (charge_post E m) (charge_dynamic E opn msize m)" by (rule ends_mono) auto
  fix m' run assume c: "charge_dynamic E opn msize m = Done (True, m')"
  then have m': "charge_post E m (True, m')" "unat (Gas (m_contract m')) + unat (pays opn) \<le> unat (Gas (m_contract m))"
    using paid by simp_all
  let ?m = "grow_memory msize m'"
  have "yields (frame E (1024 - int (op_maxStack opn)) ?m) (execute opn E run ?m)"
    using assms by (simp add: plain_op_def plain_def)
  then show "ends (exec_post E opn m) (constantGas opn \<noteq> 0 \<and> (\<exists>g \<le> Gas (m_contract m). called_out run g)) (execute opn E run ?m)"
    by (rule ends_mono) (use m' in \<open>auto simp: frame_def exec_post_def charge_post_def
        dest: same_contract_fields(1) same_evm_sub intro: sub_evm_trans\<close>)
qed

text \<open>A call: what the gas function put into \<open>callGasTemp\<close> and charged covers what the callee gets.\<close>

lemma call_op_ok:
  assumes f: "dynamicGas opn = Some f" "\<And>evm c st mem n. yields (call_gas_post E evm mem (k st)) (f E evm c st mem n)"
    and g: "memorySize opn = Some g" "\<And>X st. g X st \<noteq> NoFuel"
    and const: "constantGas opn \<noteq> 0"
    and exec: "\<And>run m. runner_ok E run \<Longrightarrow>
      ends (call_post E (1024 - int (op_maxStack opn)) m (b m)) (called_out run (b m)) (execute opn E run m)"
    and b: "\<And>m. unat (callGasTemp (m_evm m)) + k (m_stack m) < 2 ^ 64 \<Longrightarrow>
      unat (b m) \<le> unat (callGasTemp (m_evm m)) + k (m_stack m)"
    and mono: "\<And>run run' m. run_below run run' \<Longrightarrow> below (execute opn E run m) (execute opn E run' m)"
  shows "op_ok E opn"
  unfolding op_ok_def
proof (intro conjI allI impI)
  fix st show "memory_needed E opn st \<noteq> NoFuel" by (rule memory_needed_NoFuel [OF g])
next
  show "below (execute opn E run m) (execute opn E run' m)" if "run_below run run'" for m run run' by (rule mono [OF that])
next
  fix msize m
  have paid: "yields (\<lambda>(paid, m'). charge_post E m (paid, m') \<and>
      (paid \<longrightarrow> unat (Gas (m_contract m')) + unat (callGasTemp (m_evm m')) + k (m_stack m) \<le> unat (Gas (m_contract m))))
      (charge_dynamic E opn msize m)"
    unfolding charge_dynamic_def f(1) option.case Let_def
    by (rule ends_bind [OF f(2)], intro ends_rules)
      (auto simp: call_gas_post_def gas_post_def charge_post_def UseGas_def not_less word_le_nat_alt unat_sub
        split: sum.splits if_splits)
  then show "yields (charge_post E m) (charge_dynamic E opn msize m)" by (rule ends_mono) auto
  fix m' run assume c: "charge_dynamic E opn msize m = Done (True, m')" and ok: "runner_ok E run"
  then have m': "charge_post E m (True, m')"
    "unat (Gas (m_contract m')) + unat (callGasTemp (m_evm m')) + k (m_stack m) \<le> unat (Gas (m_contract m))"
    using paid by simp_all
  let ?m = "grow_memory msize m'"
  have bm: "unat (Gas (m_contract m')) + unat (b ?m) \<le> unat (Gas (m_contract m))"
    using b [of ?m] m' u64_less [of "Gas (m_contract m)"] by (auto simp: charge_post_def)
  have "unat (Gas (m_contract m') + x) \<le> unat (Gas (m_contract m))" if "x \<le> b ?m" for x
    using that bm u64_less [of "Gas (m_contract m)"] by (simp add: word_le_nat_alt unat_plus_if')
  with exec [OF ok, of ?m] bm m'(1) const
  show "ends (exec_post E opn m) (constantGas opn \<noteq> 0 \<and> (\<exists>x \<le> Gas (m_contract m). called_out run x)) (execute opn E run ?m)"
    by (elim ends_mono) (auto simp: call_post_def exec_post_def charge_post_def pays_def word_le_nat_alt
        intro: sub_evm_trans intro!: exI [of _ "b ?m"])
qed

lemma mem_NoFuel [simp]: "mem_at i j X st \<noteq> NoFuel" "mem_fixed i l X st \<noteq> NoFuel"
  "mem_larger (mem_at a b) (mem_at c d) X st \<noteq> NoFuel"
proof -
  show 1: "mem_at i j X st \<noteq> NoFuel" for i j by (simp add: mem_at_def and_then_iffs)
  show "mem_fixed i l X st \<noteq> NoFuel" by (simp add: mem_fixed_def and_then_iffs)
  show "mem_larger (mem_at a b) (mem_at c d) X st \<noteq> NoFuel"
    by (auto simp: mem_larger_def and_then_iffs 1 split: if_splits)
qed

lemmas mem_defs = memorySha3_def memoryCallDataCopy_def memoryReturnDataCopy_def memoryCodeCopy_def memoryExtCodeCopy_def
  memoryMLoad_def memoryMStore8_def memoryMStore_def memoryCreate_def memoryCreate2_def memoryCall_def
  memoryDelegateCall_def memoryStaticCall_def memoryReturn_def memoryRevert_def memoryLog_def

lemma call_budget_le:
  assumes "unat (callGasTemp (m_evm m)) + (if u_IsZero (env_X E) (m_stack m ! 2) then 0 else 9000) < 2 ^ 64"
  shows "unat (call_budget E m) \<le> unat (callGasTemp (m_evm m)) + (if u_IsZero (env_X E) (m_stack m ! 2) then 0 else 9000)"
  using assms by (auto simp: call_budget_def unat_plus_if')

section \<open>The instruction sets\<close>

lemma plainI:
  "(\<And>E run m r. f E run m = Done r \<Longrightarrow> frame E d m r) \<Longrightarrow> (\<And>E run m. f E run m \<noteq> NoFuel) \<Longrightarrow>
   (\<And>E run run' m. f E run' m = f E run m) \<Longrightarrow> plain d f"
  unfolding plain_def ends_def by blast

lemma plains [simp]:
  "plain (- 1) opAdd" "plain (- 1) opSub" "plain (- 1) opMul" "plain (- 1) opDiv" "plain (- 1) opSdiv"
  "plain (- 1) opMod" "plain (- 1) opSmod" "plain (- 1) opExp" "plain (- 1) opSignExtend" "plain (- 1) opLt"
  "plain (- 1) opGt" "plain (- 1) opSlt" "plain (- 1) opSgt" "plain (- 1) opEq" "plain (- 1) opAnd"
  "plain (- 1) opOr" "plain (- 1) opXor" "plain (- 1) opByte" "plain (- 1) opSHL" "plain (- 1) opSHR"
  "plain (- 1) opSAR" "plain 0 opNot" "plain 0 opIszero" "plain 1 opAddress" "plain 1 opOrigin" "plain 1 opCaller"
  "plain 1 opCallDataSize" "plain 1 opReturnDataSize" "plain 1 opCodeSize" "plain 1 opGasprice"
  "plain 1 opCoinbase" "plain 1 opTimestamp" "plain 1 opNumber" "plain 1 opDifficulty" "plain 1 opGasLimit"
  "plain 1 opChainID" "plain 1 opPc" "plain 1 opMsize" "plain 1 opGas" "plain (- 2) opAddmod"
  "plain (- 2) opMulmod" "plain (- 1) opSha3" "plain 0 opBalance" "plain 1 opCallValue" "plain 0 opCallDataLoad"
  "plain 0 opExtCodeSize" "plain 0 opExtCodeHash" "plain 0 opBlockhash" "plain 1 opSelfBalance"
  "plain (- 1) opPop" "plain 0 opMload" "plain (- 3) opCallDataCopy" "plain (- 3) opReturnDataCopy"
  "plain (- 3) opCodeCopy" "plain (- 4) opExtCodeCopy" "plain (- 1) opJump" "plain (- 2) opJumpi"
  "plain (- 1) opJumpSub" "plain 0 opJumpdest" "plain 0 opBeginSub" "plain 0 opReturnSub" "plain (- 2) opReturn"
  "plain (- 2) opRevert" "plain 0 opStop" "plain (- 1) opSuicide" "plain 1 opPush1" "plain 0 opSload"
  "plain (- 2) opSstore" "plain 1 (makePush k n)" "plain 1 (makeDup n)" "plain 0 (makeSwap n)"
  "plain (- 2) opMstore" "plain (- 2) opMstore8" "plain (- 2 - int n) (makeLog n)"
  by (rule plainI, erule frames, rule no_fuel, rule no_run)+

lemma makeLog_plain [simp]: "d = - 2 - int n \<Longrightarrow> plain d (makeLog n)"
  by (simp add: plains)

lemma gas_post_weaken: "gas_post E evm mem k r \<Longrightarrow> l \<le> k \<Longrightarrow> gas_post E evm mem l r"
  by (fastforce simp: gas_post_def)

lemma gas_ok_weaken: "gas_ok k f \<Longrightarrow> l \<le> k \<Longrightarrow> gas_ok l f"
  unfolding gas_ok_def using ends_mono gas_post_weaken by metis

lemma gas_oks_paying [simp]: "gas_ok 1 (makeGasLog n)" "gas_ok 1 gasExpFrontier" "gas_ok 1 gasExpEIP158" "gas_ok 1 gasSStore"
  "gas_ok 1 gasSStoreEIP2200"
  by (rule gas_ok_weaken, rule gas_oks, simp)+

lemmas op_simps = plain_op_def make_op_def pays_def maxStack_def minStack_def gas_oks mem_defs

lemma frontier_plain:
  "\<forall>(op, opn) \<in> set frontier_arithmetic. plain_op opn" "\<forall>(op, opn) \<in> set frontier_environment. plain_op opn"
  "\<forall>(op, opn) \<in> set frontier_stack. plain_op opn"
  by (simp_all add: frontier_arithmetic_def frontier_environment_def frontier_stack_def op_simps)

lemma frontier_makers_plain:
  "\<forall>(op, opn) \<in> set frontier_push_low. plain_op opn" "\<forall>(op, opn) \<in> set frontier_push_high. plain_op opn"
  "\<forall>(op, opn) \<in> set frontier_dup. plain_op opn" "\<forall>(op, opn) \<in> set frontier_swap. plain_op opn"
  by (auto simp add: frontier_push_low_def frontier_push_high_def frontier_dup_def frontier_swap_def op_simps
      maxDupStack_def maxSwapStack_def)

lemma calls_ok:
  assumes "constantGas opn \<noteq> 0"
  shows "execute opn = opCall \<Longrightarrow> dynamicGas opn = Some gasCall \<Longrightarrow> memorySize opn = Some memoryCall \<Longrightarrow>
      op_maxStack opn = 1030 \<Longrightarrow> op_ok E opn"
    and "execute opn = opDelegateCall \<Longrightarrow> dynamicGas opn = Some gasDelegateCall \<Longrightarrow> memorySize opn = Some memoryDelegateCall \<Longrightarrow>
      op_maxStack opn = 1029 \<Longrightarrow> op_ok E opn"
    and "execute opn = opStaticCall \<Longrightarrow> dynamicGas opn = Some gasStaticCall \<Longrightarrow> memorySize opn = Some memoryStaticCall \<Longrightarrow>
      op_maxStack opn = 1029 \<Longrightarrow> op_ok E opn"
    and "execute opn = opCallCode \<Longrightarrow> dynamicGas opn = Some gasCallCode \<Longrightarrow> memorySize opn = Some memoryCall \<Longrightarrow>
      op_maxStack opn = 1030 \<Longrightarrow> uint256_api (env_X E) \<Longrightarrow> op_ok E opn"
  using assms
  by - ((rule call_op_ok [OF _ gasCall_ok _ _ _ _ call_budget_le], auto simp: mem_defs intro: opCall_post call_instructions_below; fail)
    | (rule call_op_ok [where k = "\<lambda>_. 0", OF _ gasDelegateCall_ok], auto simp: mem_defs intro: opDelegateCall_post call_instructions_below; fail)
    | (rule call_op_ok [where k = "\<lambda>_. 0", OF _ gasStaticCall_ok], auto simp: mem_defs intro: opStaticCall_post call_instructions_below; fail)
    | (rule call_op_ok [OF _ gasCallCode_ok _ _ _ _ call_budget_le], auto simp: mem_defs intro: opCallCode_post call_instructions_below; fail))+

lemma create_op_ok:
  fixes E :: "'t env"
  assumes f: "dynamicGas opn = Some f" "gas_ok 0 f" and g: "memorySize opn = Some g" "\<And>X st. g X st \<noteq> NoFuel"
    and const: "constantGas opn \<noteq> 0"
    and exec: "\<And>run m. runner_ok E run \<Longrightarrow>
      ends (create_post E (1024 - int (op_maxStack opn)) m) (\<exists>x \<le> Gas (m_contract m). called_out run x) (execute opn E run m)"
    and mono: "\<And>run run' m. run_below run run' \<Longrightarrow> below (execute opn E run m) (execute opn E run' m)"
  shows "op_ok E opn"
  unfolding op_ok_def
proof (intro conjI allI impI)
  fix st show "memory_needed E opn st \<noteq> NoFuel" by (rule memory_needed_NoFuel [OF g])
next
  show "below (execute opn E run m) (execute opn E run' m)" if "run_below run run'" for m run run' by (rule mono [OF that])
next
  fix msize and m :: "'t machine"
  have "yields (gas_post E (m_evm m) (m_memory m) 0) (f E (m_evm m) (m_contract m) (m_stack m) (m_memory m) msize)"
    using f(2) by (simp add: gas_ok_def)
  from charge_dynamic_post [OF f(1) this]
  show post: "yields (charge_post E m) (charge_dynamic E opn msize m)" by (rule ends_mono) auto
  fix m' run assume c: "charge_dynamic E opn msize m = Done (True, m')" and ok: "runner_ok E run"
  then have m': "charge_post E m (True, m')" using post by simp
  with exec [OF ok, of "grow_memory msize m'"] const
  show "ends (exec_post E opn m) (constantGas opn \<noteq> 0 \<and> (\<exists>x \<le> Gas (m_contract m). called_out run x))
      (execute opn E run (grow_memory msize m'))"
    by (elim ends_mono) (auto simp: create_post_def exec_post_def charge_post_def pays_def word_le_nat_alt
        intro: sub_evm_trans order_trans)
qed

lemma creates_ok:
  assumes "constantGas opn \<noteq> 0"
  shows "execute opn = opCreate \<Longrightarrow> dynamicGas opn = Some gasCreate \<Longrightarrow> memorySize opn = Some memoryCreate \<Longrightarrow>
      op_maxStack opn = 1026 \<Longrightarrow> op_ok E opn"
    and "execute opn = opCreate2 \<Longrightarrow> dynamicGas opn = Some gasCreate2 \<Longrightarrow> memorySize opn = Some memoryCreate2 \<Longrightarrow>
      op_maxStack opn = 1027 \<Longrightarrow> op_ok E opn"
  using assms
  by - ((rule create_op_ok [of _ gasCreate], auto simp: mem_defs gas_oks intro: opCreate_post call_instructions_below; fail)
    | (rule create_op_ok [of _ gasCreate2], auto simp: mem_defs gas_oks intro: opCreate2_post call_instructions_below; fail))+

text \<open>The two entries whose price later instruction sets change by another gas function stay plain.\<close>

definition entry_ok :: "'t env \<Rightarrow> u8 \<Rightarrow> 't operation \<Rightarrow> bool" where
  "entry_ok E op opn \<longleftrightarrow> op_ok E opn \<and> (op = EXP \<or> op = SSTORE \<longrightarrow> plain_op opn)"

definition table_ok :: "'t env \<Rightarrow> 't JumpTable \<Rightarrow> bool" where
  "table_ok E jt \<longleftrightarrow> (\<forall>op opn. jt op = Some opn \<longrightarrow> entry_ok E op opn)"

lemma frontier_system_ok:
  assumes "uint256_api (env_X E)"
  shows "\<forall>(op, opn) \<in> set frontier_system. entry_ok E op opn"
  using assms unfolding frontier_system_def
  by (simp add: entry_ok_def plain_op_ok op_simps make_op_def calls_ok creates_ok)

lemma table_ok_frontier:
  assumes "uint256_api (env_X E)"
  shows "table_ok E newFrontierInstructionSet"
proof -
  have "\<forall>(op, opn) \<in> set frontier_entries. entry_ok E op opn"
    using frontier_plain frontier_makers_plain frontier_system_ok [OF assms] plain_op_ok
    unfolding frontier_entries_def entry_ok_def by fastforce
  then show ?thesis unfolding table_ok_def newFrontierInstructionSet_def by (auto dest: map_of_SomeD)
qed

section \<open>Patches\<close>

fun patch_ok :: "'t env \<Rightarrow> 't patch \<Rightarrow> bool" where
  "patch_ok E (NewOp op opn) \<longleftrightarrow> entry_ok E op opn"
| "patch_ok E (SetConstantGas op g) \<longleftrightarrow> g \<noteq> 0 \<and> op \<noteq> EXP \<and> op \<noteq> SSTORE"
| "patch_ok E (SetDynamicGas op f) \<longleftrightarrow> gas_ok 1 f \<and> (op = EXP \<or> op = SSTORE)"

lemma entry_ok_constantGas:
  "entry_ok E op opn \<Longrightarrow> patch_ok E (SetConstantGas op g) \<Longrightarrow> entry_ok E op (opn\<lparr>constantGas := g\<rparr>)"
  by (simp add: entry_ok_def op_ok_constantGas)

lemma entry_ok_dynamicGas:
  assumes "entry_ok E op opn" "patch_ok E (SetDynamicGas op f)"
  shows "entry_ok E op (opn\<lparr>dynamicGas := Some f\<rparr>)"
proof -
  have "gas_ok (pays opn) f" by (rule gas_ok_weaken [of 1]) (use assms in \<open>auto simp: pays_def\<close>)
  then have "plain_op (opn\<lparr>dynamicGas := Some f\<rparr>)" using assms by (auto simp: entry_ok_def plain_op_def pays_def)
  then show ?thesis by (simp add: entry_ok_def plain_op_ok)
qed

lemmas entry_ok_patched = entry_ok_constantGas entry_ok_dynamicGas

lemma table_ok_upd: "table_ok E jt \<Longrightarrow> entry_ok E op opn \<Longrightarrow> table_ok E (jt(op \<mapsto> opn))"
  by (simp add: table_ok_def)

lemma apply_patch_ok: "patch_ok E p \<Longrightarrow> table_ok E jt \<Longrightarrow> apply_patch p jt = Done jt' \<Longrightarrow> table_ok E jt'"
  by (cases p) (auto simp: table_ok_def entry_ok_patched split: option.splits if_splits)

lemma apply_patches_ok:
  "list_all (patch_ok E) ps \<Longrightarrow> table_ok E jt \<Longrightarrow> apply_patches ps jt = Done jt' \<Longrightarrow> table_ok E jt'"
  by (induction ps arbitrary: jt) (auto simp: and_then_iffs dest: apply_patch_ok)

lemma enables_ok: "list_all (patch_ok E) enable1344" "list_all (patch_ok E) enable1884"
  "list_all (patch_ok E) enable2200" "list_all (patch_ok E) enable2315"
  by (simp_all add: enable1344_def enable1884_def enable2200_def enable2315_def entry_ok_def plain_op_ok op_simps)

lemma then_patches_ok:
  "and_then r (apply_patches ps) = Done jt' \<Longrightarrow> (\<And>jt. r = Done jt \<Longrightarrow> table_ok E jt) \<Longrightarrow>
   list_all (patch_ok E) ps \<Longrightarrow> table_ok E jt'"
  by (auto simp: and_then_iffs dest: apply_patches_ok)

theorem instructionSet_ok:
  assumes X: "uint256_api (env_X E)" and "instructionSet f = Done jt"
  shows "table_ok E jt"
proof -
  note ok = entry_ok_def plain_op_ok op_simps make_op_def calls_ok creates_ok X
  have h: "newHomesteadInstructionSet = Done jt \<Longrightarrow> table_ok E jt" for jt
    unfolding newHomesteadInstructionSet_def
    by (erule apply_patches_ok [OF _ table_ok_frontier [OF X], rotated]) (simp add: ok)
  have t: "newTangerineWhistleInstructionSet = Done jt \<Longrightarrow> table_ok E jt" for jt
    unfolding newTangerineWhistleInstructionSet_def by (erule then_patches_ok, erule h) simp
  have s: "newSpuriousDragonInstructionSet = Done jt \<Longrightarrow> table_ok E jt" for jt
    unfolding newSpuriousDragonInstructionSet_def by (erule then_patches_ok, erule t) simp
  have b: "newByzantiumInstructionSet = Done jt \<Longrightarrow> table_ok E jt" for jt
    unfolding newByzantiumInstructionSet_def by (erule then_patches_ok, erule s) (simp add: ok)
  have c: "newConstantinopleInstructionSet = Done jt \<Longrightarrow> table_ok E jt" for jt
    unfolding newConstantinopleInstructionSet_def by (erule then_patches_ok, erule b) (simp add: ok)
  have i: "newIstanbulInstructionSet = Done jt \<Longrightarrow> table_ok E jt" for jt
    unfolding newIstanbulInstructionSet_def by (erule then_patches_ok, erule c) (simp add: enables_ok)
  have y: "newYoloV1InstructionSet = Done jt \<Longrightarrow> table_ok E jt" for jt
    unfolding newYoloV1InstructionSet_def by (erule then_patches_ok, erule i) (rule enables_ok)
  show ?thesis using assms(2) h t s b c i y table_ok_frontier [OF X] by (cases f) auto
qed

section \<open>The loop\<close>

definition step_post :: "'t env \<Rightarrow> 't machine \<Rightarrow> 't stepped \<Rightarrow> bool" where
  "step_post E m r = (case r of
     Next m' \<Rightarrow> sub_evm E (m_evm m) (m_evm m') \<and> Gas (m_contract m') < Gas (m_contract m) \<and> length (m_stack m') \<le> 1024
   | Halt ret err m' \<Rightarrow> sub_evm E (m_evm m) (m_evm m') \<and> Gas (m_contract m') \<le> Gas (m_contract m))"

lemma after_execute_post:
  assumes x: "exec_post E opn m1 r" and "unat (Gas (m_contract m1)) + unat (constantGas opn) = unat (Gas (m_contract m))"
    and "m_evm m1 = m_evm m" "m_stack m1 = m_stack m" "length (m_stack m) \<le> op_maxStack opn"
  shows "step_post E m (after_execute opn r)"
proof -
  obtain res err m' where r: "r = (res, err, m')" by (cases r) auto
  have pos: "constantGas opn \<noteq> 0 \<Longrightarrow> 0 < unat (constantGas opn)" by (simp add: unat_gt_0)
  have sub: "sub_evm E (m_evm m) ((m_evm m')\<lparr>returnData := d\<rparr>)" for d
    using x assms(3) by (simp add: exec_post_def r sub_evm_def)
  show ?thesis
    using assms pos sub unfolding r
    by (auto simp: after_execute_def step_post_def exec_post_def pays_def Let_def word_less_nat_alt word_le_nat_alt
        split: option.splits if_splits)
qed

lemma UseGas_True: "UseGas g c = (True, c') \<Longrightarrow> unat (Gas c') + unat g = unat (Gas c)"
  by (auto simp: UseGas_def not_less word_le_nat_alt unat_sub split: if_splits)

lemma write_protected_NoFuel [simp]: "write_protected E op opn m \<noteq> NoFuel"
  by (auto simp: write_protected_def and_then_iffs)

lemma UseGas_leD: "UseGas g c = (p, c') \<Longrightarrow> Gas c' \<le> Gas c"
  using UseGas_le [of g c] by simp

lemma interp_step_ok:
  assumes t: "table_ok E jt" and run: "runner_ok E run"
  shows "ends (step_post E m) (\<exists>g < Gas (m_contract m). called_out run g) (interp_step jt E run m)"
proof -
  have ok: "op_ok E opn" if "jt op = Some opn" for op opn using t that by (simp add: table_ok_def entry_ok_def)
  show ?thesis
    unfolding interp_step_def Let_def
  proof (intro ends_rules, goal_cases)
    case (7 opn)
    then show ?case using op_okD(1) [OF ok] by simp
  next
    case (9 opn x paid c xa msize)
    show ?case by (rule ends_mono [OF op_okD(2) [OF ok [OF 9(1)]]]) auto
  next
    case (10 opn x paid c xa msize xb paida m2)
    then have "charge_post E (m\<lparr>m_contract := c\<rparr>) (paida, m2)"
      using op_okD(2) [OF ok, of _ opn "m\<lparr>m_contract := c\<rparr>" msize] by simp
    with 10 show ?case by (auto simp: charge_post_def step_post_def dest: UseGas_leD)
  next
    case (11 opn x paid c xa msize xb paida m2)
    then have "ends (exec_post E opn (m\<lparr>m_contract := c\<rparr>)) (constantGas opn \<noteq> 0 \<and> (\<exists>g \<le> Gas c. called_out run g))
        (execute opn E run (grow_memory msize m2))"
      using op_okD(3) [OF ok run, of _ opn msize "m\<lparr>m_contract := c\<rparr>" m2] by simp
    moreover have "Gas c < Gas (m_contract m)" if "constantGas opn \<noteq> 0"
      using 11 UseGas_True [of "constantGas opn" "m_contract m" c] that
      by (auto simp: word_less_nat_alt word_gt_0 [symmetric] simp flip: unat_gt_0 word_gt_0)
    ultimately show ?case by (auto elim!: ends_mono intro: le_less_trans)
  next
    case (12 opn x paid c xa msize xb paida m2 r)
    then have "exec_post E opn (m\<lparr>m_contract := c\<rparr>) r"
      using op_okD(3) [OF ok run, of _ opn msize "m\<lparr>m_contract := c\<rparr>" m2] by simp
    with 12 show ?case by (auto simp: stack_len_def dest: UseGas_True intro!: after_execute_post)
  qed (auto simp: step_post_def dest: UseGas_leD)
qed

definition run_post :: "'t env \<Rightarrow> 't EVM \<Rightarrow> Contract \<Rightarrow> 't ran \<Rightarrow> bool" where
  "run_post E evm c = (\<lambda>(ret, err, evm', c'). sub_evm E evm evm' \<and> Gas c' \<le> Gas c)"

lemma runner_okI: "(\<And>evm c input ro. ends (run_post E evm c) (Q c) (run evm c input ro)) \<Longrightarrow> runner_ok E run"
  unfolding runner_ok_def ends_def run_post_def by fastforce

definition loop_post :: "'t env \<Rightarrow> 't machine \<Rightarrow> 't executed \<Rightarrow> bool" where
  "loop_post E m = (\<lambda>(ret, err, m'). sub_evm E (m_evm m) (m_evm m') \<and> Gas (m_contract m') \<le> Gas (m_contract m))"

lemma run_with_ok:
  assumes "\<And>m. ends (loop_post E m) (P (Gas (m_contract m))) (loop m)"
  shows "ends (run_post E evm c) (P (Gas c)) (run_with loop evm c input ro)"
proof (cases "length (Code c) = 0")
  case False
  let ?evm = "evm\<lparr>depth := depth evm + 1, readOnly := if ro \<and> \<not> readOnly evm then True else readOnly evm, returnData := []\<rparr>"
  let ?m = "\<lparr> m_pc = 0, m_evm = ?evm, m_memory = NewMemory, m_stack = newstack, m_rstack = newReturnStack,
    m_contract = c\<lparr>Input := input\<rparr> \<rparr>"
  have "ends (loop_post E ?m) (P (Gas c)) (loop ?m)" using assms [of ?m] by simp
  with False show ?thesis
    unfolding run_with_def Let_def if_not_P [OF False]
    by (elim ends_bind) (auto simp: run_post_def loop_post_def sub_evm_def)
qed (simp add: run_with_def run_post_def sub_evm_def Let_def)

lemma interp_loop_ok:
  assumes t: "table_ok E jt"
  shows "ends (loop_post E m) (fuel \<le> unat (Gas (m_contract m))) (interp_loop fuel jt E k m)"
proof (induction fuel arbitrary: k m)
  case 0
  then show ?case by (simp add: ends_def)
next
  case (Suc fuel)
  let ?run = "run_with (interp_loop fuel jt E 0)"
  have runs: "ends (run_post E evm c) (fuel \<le> unat (Gas c)) (?run evm c input ro)" for evm c input ro
    by (rule run_with_ok) (rule Suc.IH)
  then have ok: "runner_ok E ?run" by (rule runner_okI)
  have out: "fuel \<le> unat g" if "called_out ?run g" for g
    using that runs unfolding called_out_def ends_def by blast
  obtain aborted m1 where c: "check_abort E (k + 1) m = (aborted, m1)" by fastforce
  then have m1: "m_contract m1 = m_contract m" "sub_evm E (m_evm m) (m_evm m1)"
    by (auto simp: check_abort_def sub_evm_def split: if_splits)
  have step: "ends (step_post E m1) (Suc fuel \<le> unat (Gas (m_contract m))) (interp_step jt E ?run m1)"
    using interp_step_ok [OF t ok, of m1] m1(1) by (auto elim!: ends_mono dest: out simp: word_less_nat_alt)
  show ?case
    unfolding interp_loop.simps Let_def c prod.case
  proof (rule ends_if, goal_cases)
    case 1
    then show ?case using m1 by (simp add: loop_post_def)
  next
    case 2
    show ?case
    proof (rule ends_bind [OF step])
      fix r assume r: "step_post E m1 r"
      show "ends (loop_post E m) (Suc fuel \<le> unat (Gas (m_contract m)))
          (case r of Next m2 \<Rightarrow> interp_loop fuel jt E (k + 1) m2 | Halt ret err m2 \<Rightarrow> Done (ret, err, m2))"
      proof (cases r)
        case (Next m2)
        with Suc.IH [of m2 "k + 1"] r m1 show ?thesis
          by (auto simp: step_post_def loop_post_def word_less_nat_alt word_le_nat_alt elim!: ends_mono intro: sub_evm_trans)
      qed (use r m1 in \<open>auto simp: step_post_def loop_post_def intro: sub_evm_trans\<close>)
    qed
  qed
qed

theorem interp_Run_ok:
  assumes "table_ok E jt"
  shows "ends (run_post E evm c) (fuel \<le> unat (Gas c)) (interp_Run fuel jt E evm c input ro)"
  unfolding interp_Run_def by (rule run_with_ok) (rule interp_loop_ok [OF assms])

corollary interp_Run_runner: "table_ok E jt \<Longrightarrow> runner_ok E (interp_Run fuel jt E)"
  by (rule runner_okI) (rule interp_Run_ok)

section \<open>Interpreters with extra EIPs\<close>

lemma apply_live_ok:
  "patch_ok E p \<Longrightarrow> table_ok E pkg \<Longrightarrow> table_ok E (lt_entries lt) \<Longrightarrow> apply_live p (pkg, lt) = Done (pkg', lt') \<Longrightarrow>
   table_ok E pkg' \<and> table_ok E (lt_entries lt')"
  by (cases p) (auto simp: write_entry_def table_ok_def entry_ok_patched split: option.splits if_splits)

lemma apply_lives_ok:
  "list_all (patch_ok E) ps \<Longrightarrow> table_ok E (fst st) \<Longrightarrow> table_ok E (lt_entries (snd st)) \<Longrightarrow> apply_lives ps st = Done st' \<Longrightarrow>
   table_ok E (fst st') \<and> table_ok E (lt_entries (snd st'))"
proof (induction ps arbitrary: st)
  case (Cons p ps)
  then obtain st1 where "apply_live p st = Done st1" "apply_lives ps st1 = Done st'" by (auto simp: and_then_iffs)
  with Cons.prems Cons.IH [of st1] apply_live_ok [of E p "fst st" "snd st" "fst st1" "snd st1"] show ?case by simp
qed simp

lemma activators_ok: "activators n = Some ps \<Longrightarrow> list_all (patch_ok E) ps"
  by (auto simp: activators_def enables_ok split: if_splits)

lemma EnableEIP_ok:
  "EnableEIP n st = Done (known, st') \<Longrightarrow> table_ok E (fst st) \<Longrightarrow> table_ok E (lt_entries (snd st)) \<Longrightarrow>
   table_ok E (fst st') \<and> table_ok E (lt_entries (snd st'))"
  by (auto simp: EnableEIP_def and_then_iffs split: option.splits dest: apply_lives_ok [OF activators_ok])

lemma extra_eips_ok:
  "extra_eips k i arr n st = Done (eips, st') \<Longrightarrow> table_ok E (fst st) \<Longrightarrow> table_ok E (lt_entries (snd st)) \<Longrightarrow>
   table_ok E (fst st') \<and> table_ok E (lt_entries (snd st'))"
proof (induction k arbitrary: i arr n st)
  case (Suc k)
  then obtain known st1 where e: "EnableEIP (arr ! i) st = Done (known, st1)" by (auto simp: and_then_iffs)
  from EnableEIP_ok [OF e Suc.prems(2,3)] Suc.prems(1) e Suc.IH show ?case
    by (auto simp: and_then_iffs split: if_splits)
qed simp

theorem NewEVMInterpreter_ok:
  assumes new: "NewEVMInterpreter tables rules cfg Map.empty = Done (eips, tables', jt)"
    and t: "\<And>f. table_ok E (tables f)"
  shows "table_ok E jt" "table_ok E (tables' f)"
proof -
  let ?f = "select_fork rules"
  from new obtain pkg lt where x: "extra_eips (length (ExtraEips cfg)) 0 (ExtraEips cfg) (length (ExtraEips cfg))
      (tables ?f, \<lparr> lt_entries = tables ?f, lt_shared = UNIV \<rparr>) = Done (eips, pkg, lt)"
    and r: "tables' = tables(?f := pkg)" "jt = lt_entries lt"
    by (auto simp: NewEVMInterpreter_def and_then_iffs Let_def)
  from extra_eips_ok [OF x] t r show "table_ok E jt" "table_ok E (tables' f)" by auto
qed

end
