(* ===== verification/Vm_Spec.thy ===== *)
theory Vm_Spec
  imports Vm_Gas_Bound
begin

text \<open>
  What the virtual machine promises: the instruction sets can be built, every run ends, its result
  does not depend on the fuel, the stack and the gas stay within their bounds, and a call that
  fails leaves the state as it was.
\<close>

section \<open>More fuel does not change a result\<close>

lemma interp_step_below:
  assumes "table_ok E jt" "run_below run run'"
  shows "below (interp_step jt E run m) (interp_step jt E run' m)"
proof (cases "jt (GetOp (m_pc m) (m_contract m))")
  case (Some opn)
  then have "op_ok E opn" using assms(1) by (simp add: table_ok_def entry_ok_def)
  then show ?thesis
    unfolding interp_step_def Let_def Some option.case by (intro below_rules op_okD(4) [OF _ assms(2)]) simp_all
qed (simp add: interp_step_def)

lemma run_with_below:
  assumes "\<And>m. below (loop m) (loop' m)"
  shows "run_below (run_with loop) (run_with loop')"
  unfolding run_below_def run_with_def Let_def by (intro allI below_rules assms) simp_all

lemma interp_loop_below:
  assumes "table_ok E jt"
  shows "below (interp_loop fuel jt E k m) (interp_loop (fuel + d) jt E k m)"
proof (induction fuel arbitrary: k m)
  case 0
  then show ?case by (simp add: below_def)
next
  case (Suc fuel)
  have cont: "below (case r of Next m' \<Rightarrow> interp_loop fuel jt E (k + 1) m' | Halt ret err m' \<Rightarrow> Done (ret, err, m'))
      (case r of Next m' \<Rightarrow> interp_loop (fuel + d) jt E (k + 1) m' | Halt ret err m' \<Rightarrow> Done (ret, err, m'))" for r
    using Suc.IH by (cases r) simp_all
  show ?case
    unfolding add_Suc interp_loop.simps Let_def
    by (intro below_rules interp_step_below [OF assms] run_with_below Suc.IH cont) simp
qed

lemma interp_Run_below:
  assumes "table_ok E jt" "fuel \<le> fuel'"
  shows "run_below (interp_Run fuel jt E) (interp_Run fuel' jt E)"
proof -
  from assms(2) obtain d where "fuel' = fuel + d" using le_Suc_ex by blast
  then show ?thesis unfolding interp_Run_def by (simp add: run_with_below interp_loop_below [OF assms(1)])
qed

lemma interp_Run_agree:
  assumes "table_ok E jt" "unat (Gas c) < fuel" "unat (Gas c) < fuel'"
  shows "interp_Run fuel jt E evm c input ro = interp_Run fuel' jt E evm c input ro"
proof -
  have eq: "interp_Run f jt E evm c input ro = interp_Run f' jt E evm c input ro" if "unat (Gas c) < f" "f \<le> f'" for f f'
  proof -
    have "interp_Run f jt E evm c input ro \<noteq> NoFuel"
      using interp_Run_ok [OF assms(1), of evm c f input ro] that(1) by (auto simp: ends_def)
    then show ?thesis using run_belowD [OF interp_Run_below [OF assms(1) that(2)]] by (auto simp: below_def)
  qed
  show ?thesis
  proof (cases "fuel \<le> fuel'")
    case True
    with assms(2) show ?thesis by (rule eq)
  next
    case False
    with assms(3) show ?thesis by (intro eq [symmetric]) simp_all
  qed
qed

section \<open>The instruction sets exist\<close>

text \<open>\<open>fits ps A\<close>: on a table that has the entries \<open>A\<close> no statement of \<open>ps\<close> dereferences nil.\<close>

fun fits :: "'t patch list \<Rightarrow> u8 set \<Rightarrow> bool" where
  "fits [] A = True"
| "fits (NewOp op _ # ps) A = fits ps (insert op A)"
| "fits (SetConstantGas op _ # ps) A = (op \<in> A \<and> fits ps A)"
| "fits (SetDynamicGas op _ # ps) A = (op \<in> A \<and> fits ps A)"

fun entries_after :: "'t patch list \<Rightarrow> u8 set \<Rightarrow> u8 set" where
  "entries_after [] A = A"
| "entries_after (NewOp op _ # ps) A = entries_after ps (insert op A)"
| "entries_after (_ # ps) A = entries_after ps A"

lemma apply_patches_fits:
  "fits ps A \<Longrightarrow> A \<subseteq> dom jt \<Longrightarrow> \<exists>jt'. apply_patches ps jt = Done jt' \<and> entries_after ps A \<subseteq> dom jt'"
proof (induction ps A arbitrary: jt rule: fits.induct)
  case (2 op opn ps A)
  have "insert op A \<subseteq> dom (jt(op \<mapsto> opn))" using "2.prems"(2) by auto
  with "2.IH" "2.prems"(1) show ?case by simp
next
  case (3 op g ps A)
  then obtain opn where "jt op = Some opn" by auto
  moreover have "A \<subseteq> dom (jt(op \<mapsto> opn\<lparr>constantGas := g\<rparr>))" using "3.prems"(2) by auto
  ultimately show ?case using "3.IH" "3.prems"(1) by simp
next
  case (4 op f ps A)
  then obtain opn where "jt op = Some opn" by auto
  moreover have "A \<subseteq> dom (jt(op \<mapsto> opn\<lparr>dynamicGas := Some f\<rparr>))" using "4.prems"(2) by auto
  ultimately show ?case using "4.IH" "4.prems"(1) by simp
qed simp

abbreviation "frontier_repriced \<equiv> {BALANCE, EXTCODESIZE, SLOAD, EXTCODECOPY, CALL, CALLCODE, EXP, SSTORE}"

lemma frontier_has: "frontier_repriced \<subseteq> dom newFrontierInstructionSet"
  unfolding newFrontierInstructionSet_def dom_map_of_conv_image_fst frontier_entries_def
  by (simp add: frontier_arithmetic_def frontier_environment_def frontier_stack_def frontier_system_def)

text \<open>An operation that touches memory pays for it.\<close>

definition priced :: "'t operation \<Rightarrow> bool" where
  "priced opn \<longleftrightarrow> (memorySize opn \<noteq> None \<longrightarrow> dynamicGas opn \<noteq> None)"

definition built :: "u8 set \<Rightarrow> 't JumpTable outcome \<Rightarrow> bool" where
  "built A r \<longleftrightarrow> (\<exists>jt. r = Done jt \<and> A \<subseteq> dom jt \<and> (\<forall>op opn. jt op = Some opn \<longrightarrow> priced opn))"

fun patch_priced :: "'t patch \<Rightarrow> bool" where
  "patch_priced (NewOp op opn) = priced opn"
| "patch_priced _ = True"

lemma priced_updates [simp]: "priced (opn\<lparr>constantGas := g\<rparr>) = priced opn" "priced (opn\<lparr>dynamicGas := Some f\<rparr>)"
  by (simp_all add: priced_def)

lemma apply_patches_priced:
  "apply_patches ps jt = Done jt' \<Longrightarrow> \<forall>op opn. jt op = Some opn \<longrightarrow> priced opn \<Longrightarrow> list_all patch_priced ps \<Longrightarrow>
   \<forall>op opn. jt' op = Some opn \<longrightarrow> priced opn"
proof (induction ps arbitrary: jt)
  case (Cons p ps)
  then obtain jt1 where jt1: "apply_patch p jt = Done jt1" "apply_patches ps jt1 = Done jt'" by (auto simp: and_then_iffs)
  have "\<forall>op opn. jt1 op = Some opn \<longrightarrow> priced opn"
    using Cons.prems jt1(1) by (cases p) (auto split: option.splits if_splits)
  with Cons jt1(2) show ?case by simp
qed simp

lemma built_then:
  assumes "built A r" "fits ps A" "list_all patch_priced ps" "B \<subseteq> entries_after ps A"
  shows "built B (and_then r (apply_patches ps))"
proof -
  from assms(1) obtain jt where jt: "r = Done jt" "A \<subseteq> dom jt" "\<forall>op opn. jt op = Some opn \<longrightarrow> priced opn"
    by (auto simp: built_def)
  from apply_patches_fits [OF assms(2) jt(2)] obtain jt' where jt': "apply_patches ps jt = Done jt'" "entries_after ps A \<subseteq> dom jt'"
    by blast
  with apply_patches_priced [OF jt'(1) jt(3) assms(3)] assms(4) jt(1) show ?thesis by (auto simp: built_def)
qed

lemma built_frontier: "built frontier_repriced (Done (newFrontierInstructionSet :: 't JumpTable))"
proof -
  have "\<forall>(op, opn) \<in> set (frontier_entries :: (u8 \<times> 't operation) list). priced opn"
    by (auto simp: frontier_entries_def frontier_arithmetic_def frontier_environment_def frontier_stack_def
        frontier_system_def frontier_push_low_def frontier_push_high_def frontier_dup_def frontier_swap_def
        priced_def make_op_def)
  then have "\<forall>op opn. (newFrontierInstructionSet :: 't JumpTable) op = Some opn \<longrightarrow> priced opn"
    by (auto simp: newFrontierInstructionSet_def dest: map_of_SomeD)
  with frontier_has show ?thesis by (simp add: built_def)
qed

lemma instructionSet_built: "built frontier_repriced (instructionSet f)"
proof -
  let ?A = frontier_repriced
  note p = priced_def make_op_def
  have h: "built (insert DELEGATECALL ?A) newHomesteadInstructionSet"
    unfolding newHomesteadInstructionSet_def
    by (rule built_then [OF built_frontier, unfolded and_then.simps]) (simp_all add: p)
  have t: "built (insert DELEGATECALL ?A) newTangerineWhistleInstructionSet"
    unfolding newTangerineWhistleInstructionSet_def by (rule built_then [OF h]) simp_all
  have s: "built (insert DELEGATECALL ?A) newSpuriousDragonInstructionSet"
    unfolding newSpuriousDragonInstructionSet_def by (rule built_then [OF t]) simp_all
  have b: "built (insert DELEGATECALL ?A) newByzantiumInstructionSet"
    unfolding newByzantiumInstructionSet_def by (rule built_then [OF s]) (simp_all add: p)
  have c: "built (insert EXTCODEHASH ?A) newConstantinopleInstructionSet"
    unfolding newConstantinopleInstructionSet_def by (rule built_then [OF b]) (simp_all add: p)
  have i: "built ?A newIstanbulInstructionSet"
    unfolding newIstanbulInstructionSet_def enable1344_def enable1884_def enable2200_def
    by (rule built_then [OF c]) (simp_all add: p)
  have y: "built ?A newYoloV1InstructionSet"
    unfolding newYoloV1InstructionSet_def enable2315_def by (rule built_then [OF i]) (simp_all add: p)
  show ?thesis using h t s b c i y built_frontier by (cases f) (auto simp: built_def)
qed

section \<open>Steps of a run\<close>

inductive machine_steps :: "'t JumpTable \<Rightarrow> 't env \<Rightarrow> 't runner \<Rightarrow> nat \<Rightarrow> 't machine \<Rightarrow> 't machine \<Rightarrow> bool"
  for jt E run where
  steps_none: "machine_steps jt E run 0 m m"
| steps_next: "machine_steps jt E run n m m' \<Longrightarrow> interp_step jt E run m' = Done (Next m'') \<Longrightarrow>
    machine_steps jt E run (Suc n) m m''"

lemma machine_steps_bound:
  assumes t: "table_ok E jt" and run: "runner_ok E run" and "machine_steps jt E run n m m'" "length (m_stack m) \<le> 1024"
  shows "length (m_stack m') \<le> 1024 \<and> unat (Gas (m_contract m')) + n \<le> unat (Gas (m_contract m)) \<and>
    sub_evm E (m_evm m) (m_evm m')"
  using assms(3,4)
proof (induction rule: machine_steps.induct)
  case (steps_next n m m' m'')
  from interp_step_ok [OF t run, of m'] steps_next(2) have "step_post E m' (Next m'')" by simp
  with steps_next show ?case by (auto simp: step_post_def word_less_nat_alt intro: sub_evm_trans)
qed simp

section \<open>A concrete machine\<close>

text \<open>The Istanbul rules over an empty state, and a contract without code.\<close>

definition istanbul_rules :: Rules where
  "istanbul_rules =
     \<lparr> IsHomestead = True, IsEIP150 = True, IsEIP155 = True, IsEIP158 = True, IsByzantium = True,
       IsConstantinople = True, IsPetersburg = True, IsIstanbul = True, IsYoloV1 = False \<rparr>"

definition plain_config :: Config where
  "plain_config = \<lparr> NoRecursion = False, EnablePreimageRecording = False, ExtraEips = [] \<rparr>"

definition null_env :: "unit env" where
  "null_env =
     \<lparr> ctx_CanTransfer = CanTransfer word_ext null_db, ctx_Transfer = Transfer word_ext null_db,
       GetHash = (\<lambda>_. 0), Origin = 7, GasPrice = 1, Coinbase = 9, GasLimit = 1000000, BlockNumber = 100,
       Time = 0, Difficulty = 1, env_X = word_ext, env_D = null_db, chainRules = istanbul_rules,
       chainID = 1, vmConfig = plain_config, abort_load = (\<lambda>_. False) \<rparr>"

definition null_evm :: "unit EVM" where
  "null_evm =
     \<lparr> evm_StateDB = null_state, depth = 0, callGasTemp = 0, readOnly = False, returnData = [], abort_loads = 0 \<rparr>"

lemma null_env_simps [simp]:
  "env_X null_env = word_ext" "env_D null_env = null_db" "chainRules null_env = istanbul_rules"
  "vmConfig null_env = plain_config" "ctx_CanTransfer null_env = CanTransfer word_ext null_db"
  by (simp_all add: null_env_def)

lemma null_env_core: "null_env = core_env word_ext null_db null_env"
  by (simp add: core_env_def null_env_def)

section \<open>Properties\<close>

text \<open>The package-level tables.\<close>

definition package_tables :: "fork \<Rightarrow> 't JumpTable" where
  "package_tables f = (case instructionSet f of Done jt \<Rightarrow> jt | _ \<Rightarrow> Map.empty)"

lemma package_tables: "instructionSet f = Done (package_tables f :: 't JumpTable)"
proof -
  obtain jt :: "'t JumpTable" where "instructionSet f = Done jt" using instructionSet_built [of f] by (auto simp: built_def)
  then show ?thesis by (simp add: package_tables_def)
qed

lemma package_tables_ok: "uint256_api (env_X E) \<Longrightarrow> table_ok E (package_tables f)"
  using instructionSet_ok package_tables by blast

lemma new_interpreter_ok:
  "uint256_api (env_X E) \<Longrightarrow> NewEVMInterpreter package_tables rules cfg Map.empty = Done (eips, tables, jt) \<Longrightarrow> table_ok E jt"
  using NewEVMInterpreter_ok(1) package_tables_ok by blast

lemma new_interpreter_plain:
  "NewEVMInterpreter package_tables istanbul_rules plain_config Map.empty = Done ([], package_tables, package_tables Istanbul)"
  by (simp add: NewEVMInterpreter_def plain_config_def istanbul_rules_def select_fork_def)

text \<open>C32. Building the package-level instruction sets never dereferences a missing entry: the table
  of every fork exists, the entries that a later fork reprices are in it, and every operation of
  it that touches memory has a gas function that charges for the memory.\<close>

theorem instruction_sets_built:
  "\<exists>jt. instructionSet f = Done jt \<and> {BALANCE, EXTCODESIZE, SLOAD, EXTCODECOPY, CALL, CALLCODE, EXP, SSTORE} \<subseteq> dom jt \<and>
     (\<forall>op opn. jt op = Some opn \<longrightarrow> memorySize opn \<noteq> None \<longrightarrow> dynamicGas opn \<noteq> None)"
  using instructionSet_built [of f] unfolding built_def priced_def .

theorem instruction_sets_built_witness:
  "\<exists>jt :: unit JumpTable. instructionSet Istanbul = Done jt \<and>
     {BALANCE, EXTCODESIZE, SLOAD, EXTCODECOPY, CALL, CALLCODE, EXP, SSTORE} \<subseteq> dom jt \<and>
     (\<forall>op opn. jt op = Some opn \<longrightarrow> memorySize opn \<noteq> None \<longrightarrow> dynamicGas opn \<noteq> None)"
  by (rule instruction_sets_built)

text \<open>C3. Every run ends. Whatever extra EIPs the configuration enables, the loop of \<open>Run\<close> with all the
  runs it starts returns or panics once the fuel is greater than the gas of the contract.\<close>

theorem Run_terminates:
  assumes "uint256_api (env_X E)" "NewEVMInterpreter package_tables rules cfg Map.empty = Done (eips, tables, jt)"
    and "unat (Gas c) < fuel"
  shows "interp_Run fuel jt E evm c input ro \<noteq> NoFuel"
  using interp_Run_ok [OF new_interpreter_ok [OF assms(1,2)], of evm c fuel input ro] assms(3) by (auto simp: ends_def)

theorem Run_terminates_witness:
  "interp_Run 22 (package_tables Istanbul) null_env null_evm
     ((NewContract (AccountRef 7) 8 (Some 0) 21)\<lparr>Code := [0x5b, 0x60, 0, 0x56]\<rparr>) [] False \<noteq> NoFuel"
  by (rule Run_terminates [OF _ new_interpreter_plain]) (simp_all add: word.uint256_api_axioms NewContract_def)



text \<open>C10. Along every run, from every machine with at most 1024 stack items: the stack keeps to the
  limit, each step costs gas (so that at most as many steps follow as there is gas), and the depth
  of the EVM and its read-only mode stay.\<close>

theorem run_within_bounds:
  assumes "uint256_api (env_X E)" "NewEVMInterpreter package_tables rules cfg Map.empty = Done (eips, tables, jt)"
    and "machine_steps jt E (interp_Run fuel jt E) n m m'" "length (m_stack m) \<le> 1024"
  shows "length (m_stack m') \<le> 1024 \<and> unat (Gas (m_contract m')) + n \<le> unat (Gas (m_contract m)) \<and>
    depth (m_evm m') = depth (m_evm m) \<and> readOnly (m_evm m') = readOnly (m_evm m)"
proof -
  note t = new_interpreter_ok [OF assms(1,2)]
  from machine_steps_bound [OF t interp_Run_runner [OF t] assms(3,4)] show ?thesis by (simp add: sub_evm_def)
qed

definition jumpdest_machine :: "u64 \<Rightarrow> u64 \<Rightarrow> unit machine" where
  "jumpdest_machine pc gas =
     \<lparr> m_pc = pc, m_evm = null_evm, m_memory = NewMemory, m_stack = newstack, m_rstack = newReturnStack,
       m_contract = (NewContract (AccountRef 7) 8 (Some 0) gas)\<lparr>Code := [JUMPDEST]\<rparr> \<rparr>"

definition frontier_rules :: Rules where
  "frontier_rules =
     \<lparr> IsHomestead = False, IsEIP150 = False, IsEIP155 = False, IsEIP158 = False, IsByzantium = False,
       IsConstantinople = False, IsPetersburg = False, IsIstanbul = False, IsYoloV1 = False \<rparr>"

lemma package_tables_JUMPDEST: "package_tables Frontier JUMPDEST = Some (make_op opJumpdest JumpdestGas 0 0)"
  by (simp add: package_tables_def newFrontierInstructionSet_def frontier_entries_def map_add_Some_iff
      frontier_arithmetic_def frontier_environment_def frontier_stack_def)

lemma new_interpreter_frontier:
  "NewEVMInterpreter package_tables frontier_rules plain_config Map.empty = Done ([], package_tables, package_tables Frontier)"
  by (simp add: NewEVMInterpreter_def plain_config_def frontier_rules_def select_fork_def)

theorem run_within_bounds_witness:
  "length (m_stack (jumpdest_machine 1 4)) \<le> 1024 \<and>
   unat (Gas (m_contract (jumpdest_machine 1 4))) + 1 \<le> unat (Gas (m_contract (jumpdest_machine 0 5))) \<and>
   depth (m_evm (jumpdest_machine 1 4)) = depth (m_evm (jumpdest_machine 0 5)) \<and>
   readOnly (m_evm (jumpdest_machine 1 4)) = readOnly (m_evm (jumpdest_machine 0 5))"
proof (rule run_within_bounds [OF _ new_interpreter_frontier, of null_env 9])
  let ?jt = "package_tables Frontier :: unit JumpTable"
  have "interp_step ?jt null_env (interp_Run 9 ?jt null_env) (jumpdest_machine 0 5) = Done (Next (jumpdest_machine 1 4))"
    by (simp add: interp_step_def jumpdest_machine_def NewContract_def GetOp_def GetByte_def package_tables_JUMPDEST
        make_op_def stack_len_def newstack_def minStack_def maxStack_def write_protected_def null_evm_def UseGas_def
        memory_needed_def charge_dynamic_def grow_memory_def opJumpdest_def continue_def after_execute_def)
  then show "machine_steps ?jt null_env (interp_Run 9 ?jt null_env) 1 (jumpdest_machine 0 5) (jumpdest_machine 1 4)"
    using steps_next [OF steps_none] by simp
qed (simp_all add: word.uint256_api_axioms jumpdest_machine_def newstack_def)

section \<open>Calls and creations\<close>

lemma null_lookup: "lookup word_ext null_db null_state a = None"
  using New_fields(1) [OF New_null]
  by (simp add: lookup_def load_object_def read_account_def trie_account_def null_db_def null_state_def New_def)

lemma null_poor: "fst (GetBalance word_ext null_db a null_state) = 0"
  by (simp add: GetBalance_def getStateObject_eq live_def null_lookup)

lemma lookup_snapshot: "lookup X D (snd (Snapshot_op s)) a = lookup X D s a"
  by (rule lookup_cong) (simp_all add: Snapshot_op_def)

lemma calls_called_ok:
  assumes "table_ok E jt"
    and "Done r \<in> {Call fuel jt E evm clr addr input gas val, CallCode fuel jt E evm clr addr input gas val,
      DelegateCall fuel jt E evm clr addr input gas, StaticCall fuel jt E evm clr addr input gas}"
  shows "called_ok E evm gas r"
  using assms(2) evm_Call_ok evm_CallCode_ok evm_DelegateCall_ok evm_StaticCall_ok interp_Run_runner [OF assms(1), of fuel]
  unfolding Call_def CallCode_def DelegateCall_def StaticCall_def by (metis empty_iff insert_iff)

lemma creates_created_ok:
  assumes "table_ok E jt"
    and "Done r \<in> {Create fuel jt E evm clr code gas val, Create2 fuel jt E evm clr code gas val salt}"
  shows "created_ok E (ref_Address clr) evm gas r"
  using assms(2) evm_Create_ok evm_Create2_ok interp_Run_runner [OF assms(1), of fuel]
  unfolding Create_def Create2_def by (metis empty_iff insert_iff)

text \<open>C9. Every kind of call returns at most the gas it was given, in the depth and the mode it was
  made in, and it keeps the state well formed: its caches agree with the database, and every
  snapshot taken before is still a valid revision.\<close>

theorem calls_keep_invariant:
  assumes "uint256_api X" "addr_hash_inj X" "NewEVMInterpreter package_tables rules cfg Map.empty = Done (eips, tables, jt)"
    and "wf X D (evm_StateDB evm)" "revs_ok (evm_StateDB evm)"
    and "Done (ret, gas', err, evm', jd) \<in>
      {Call fuel jt (core_env X D E) evm clr addr input gas val, CallCode fuel jt (core_env X D E) evm clr addr input gas val,
       DelegateCall fuel jt (core_env X D E) evm clr addr input gas, StaticCall fuel jt (core_env X D E) evm clr addr input gas}"
  shows "gas' \<le> gas \<and> depth evm' = depth evm \<and> readOnly evm' = readOnly evm \<and>
    wf X D (evm_StateDB evm') \<and> revs_ok (evm_StateDB evm') \<and>
    (\<exists>rs. validRevisions (evm_StateDB evm') = validRevisions (evm_StateDB evm) @ rs)"
proof -
  have "table_ok (core_env X D E) jt" by (rule new_interpreter_ok [OF _ assms(3)]) (simp add: assms(1))
  from calls_called_ok [OF this assms(6)]
  have ok: "gas' \<le> gas" "sub_evm (core_env X D E) evm evm'" by (simp_all add: called_ok_def)
  from extends_refl [OF assms(4,5)] ok(2) core_transfers [OF assms(2), of D E]
  have "extends X D (evm_StateDB evm) (evm_StateDB evm')" by (simp add: sub_evm_def grows_def)
  with ok show ?thesis by (auto simp: sub_evm_def extends_def)
qed

theorem calls_keep_invariant_witness:
  "\<exists>evm'. Call 200 (package_tables Istanbul) (core_env word_ext null_db null_env) null_evm (AccountRef 7) 200 [] 100 0 =
      Done ([], 100, None, evm', Map.empty) \<and>
     wf word_ext null_db (evm_StateDB evm') \<and> revs_ok (evm_StateDB evm')"
proof -
  let ?c = "Call 200 (package_tables Istanbul) (core_env word_ext null_db null_env) null_evm (AccountRef 7) 200 [] 100 0"
  have "precompile null_env 200 = None"
    by (simp add: precompile_def istanbul_rules_def PrecompiledContractsIstanbul_def PrecompiledContractsByzantium_def
        PrecompiledContractsHomestead_def)
  moreover have "lookup word_ext null_db (snd (Snapshot_op null_state)) 200 = None"
    using null_lookup by (simp add: lookup_snapshot)
  ultimately obtain evm' where c: "?c = Done ([], 100, None, evm', Map.empty)"
    by (auto simp: Call_def evm_Call_def Let_def plain_config_def null_evm_def lift_state_def istanbul_rules_def Exist_def
        getStateObject_eq live_def case_prod_unfold simp flip: null_env_core)
  then have m: "Done ([], 100, None, evm', Map.empty) \<in> insert ?c S" for S by simp
  from calls_keep_invariant [OF word.uint256_api_axioms addr_hash_inj_word new_interpreter_plain _ _ m]
  have "wf word_ext null_db (evm_StateDB evm') \<and> revs_ok (evm_StateDB evm')" by (simp add: null_evm_def null_state_ok)
  with c show ?thesis by blast
qed

text \<open>C2. A call that fails, for whatever reason, leaves the state as it was: no query tells the state
  after the call from the one before.\<close>

theorem failing_calls_revert:
  assumes "uint256_api X" "addr_hash_inj X" "NewEVMInterpreter package_tables rules cfg Map.empty = Done (eips, tables, jt)"
    and "wf X D (evm_StateDB evm)" "revs_ok (evm_StateDB evm)"
    and "Done (ret, gas', Some err, evm', jd) \<in>
      {Call fuel jt (core_env X D E) evm clr addr input gas val, CallCode fuel jt (core_env X D E) evm clr addr input gas val,
       DelegateCall fuel jt (core_env X D E) evm clr addr input gas, StaticCall fuel jt (core_env X D E) evm clr addr input gas}"
  shows "sim X D (evm_StateDB evm) (evm_StateDB evm')"
proof -
  have "table_ok (core_env X D E) jt" by (rule new_interpreter_ok [OF _ assms(3)]) (simp add: assms(1))
  from calls_called_ok [OF this assms(6)] core_transfers [OF assms(2), of D E] assms(4,5)
  show ?thesis by (simp add: called_ok_def ready_def)
qed

theorem failing_calls_revert_witness:
  "\<exists>evm'. Call 200 (package_tables Istanbul) (core_env word_ext null_db null_env) null_evm (AccountRef 7) 8 [] 100 5 =
      Done ([], 100, Some ErrInsufficientBalance, evm', Map.empty) \<and>
     sim word_ext null_db (evm_StateDB null_evm) (evm_StateDB evm')"
proof -
  let ?c = "Call 200 (package_tables Istanbul) (core_env word_ext null_db null_env) null_evm (AccountRef 7) 8 [] 100 5"
  obtain evm' where c: "?c = Done ([], 100, Some ErrInsufficientBalance, evm', Map.empty)"
    using null_poor
    by (auto simp: Call_def evm_Call_def Let_def plain_config_def null_evm_def lift_state_def CanTransfer_def case_prod_unfold)
  then have m: "Done ([], 100, Some ErrInsufficientBalance, evm', Map.empty) \<in> insert ?c S" for S by simp
  have "sim word_ext null_db (evm_StateDB null_evm) (evm_StateDB evm')"
    by (rule failing_calls_revert [OF word.uint256_api_axioms addr_hash_inj_word new_interpreter_plain _ _ m])
      (simp_all add: null_evm_def null_state_ok)
  with c show ?thesis by blast
qed

text \<open>C7. A creation that fails leaves the state as it was, up to the nonce of the creator, which is
  one higher once the creation was attempted. The one exception is the rule before Homestead, under
  which a creation that cannot pay for its code keeps the account without code.\<close>

theorem failing_creations_revert:
  assumes "uint256_api X" "addr_hash_inj X" "NewEVMInterpreter package_tables rules cfg Map.empty = Done (eips, tables, jt)"
    and "wf X D (evm_StateDB evm)" "revs_ok (evm_StateDB evm)"
    and "Done (ret, addr, gas', Some err, evm', jd) \<in>
      {Create fuel jt (core_env X D E) evm clr code gas val, Create2 fuel jt (core_env X D E) evm clr code gas val salt}"
    and "IsHomestead (chainRules E) \<or> err \<noteq> ErrCodeStoreOutOfGas"
  shows "gas' \<le> gas \<and>
    (sim X D (evm_StateDB evm) (evm_StateDB evm') \<or>
     (\<exists>s1. sim X D (evm_StateDB evm) s1 \<and>
        sim X D (SetNonce X D (ref_Address clr) (fst (GetNonce X D (ref_Address clr) (evm_StateDB evm)) + 1) s1) (evm_StateDB evm')))"
proof -
  have "table_ok (core_env X D E) jt" by (rule new_interpreter_ok [OF _ assms(3)]) (simp add: assms(1))
  from creates_created_ok [OF this assms(6)] core_transfers [OF assms(2), of D E] assms(4,5,7)
  show ?thesis by (cases "IsHomestead (chainRules E)") (simp_all add: created_ok_def ready_def Let_def)
qed

theorem failing_creations_revert_witness:
  "\<exists>evm' gas'. Create2 200 (package_tables Istanbul) (core_env word_ext null_db null_env) null_evm (AccountRef 7) [1] 100 5 0 =
      Done ([], 0, gas', Some ErrInsufficientBalance, evm', Map.empty) \<and> gas' \<le> 100"
proof -
  let ?c = "Create2 200 (package_tables Istanbul) (core_env word_ext null_db null_env) null_evm (AccountRef 7) [1] 100 5 0"
  obtain evm' where c: "?c = Done ([], 0, 100, Some ErrInsufficientBalance, evm', Map.empty)"
    using null_poor
    by (auto simp: Create2_def evm_Create2_def evm_create_def Let_def plain_config_def null_evm_def lift_state_def
        CanTransfer_def case_prod_unfold)
  then have m: "Done ([], 0, 100, Some ErrInsufficientBalance, evm', Map.empty) \<in> {x, ?c}" for x by simp
  from failing_creations_revert [OF word.uint256_api_axioms addr_hash_inj_word new_interpreter_plain _ _ m]
  have "(100::u64) \<le> 100" by (simp add: null_evm_def null_state_ok istanbul_rules_def)
  with c show ?thesis by blast
qed

end
