(* ===== verification/Trie_Encoding.thy ===== *)
theory Trie_Encoding
  imports Common
begin

text \<open>
  \<open>trie/encoding.go\<close>: the three encodings of trie keys. KEYBYTES is the key itself, HEX has one
  byte for each nibble and a terminator 16 at the end of the key of a value, COMPACT packs two
  nibbles into a byte behind a flag nibble. The theorems are the round trips between them and the
  equivalence of the in-place conversion with the allocating one.
\<close>

section \<open>The conversions\<close>

definition hasTerm :: "bytes \<Rightarrow> bool" where
  "hasTerm s = (length s > 0 \<and> s ! (length s - 1) = 16)"

text \<open>\<open>decodeNibbles\<close> writes to the slice it is given; the loop has written \<open>bi\<close> bytes.\<close>

fun decodeNibbles_from :: "nat \<Rightarrow> bytes \<Rightarrow> bytes \<Rightarrow> bytes outcome" where
  "decodeNibbles_from bi [] bs = Done bs"
| "decodeNibbles_from bi [x] bs = Panicked SliceBounds"
| "decodeNibbles_from bi (x # y # nibbles) bs =
     (if bi < length bs then decodeNibbles_from (bi + 1) nibbles (bs[bi := or (push_bit 4 x) y])
      else Panicked SliceBounds)"

definition decodeNibbles :: "bytes \<Rightarrow> bytes \<Rightarrow> bytes outcome" where
  "decodeNibbles nibbles bs = decodeNibbles_from 0 nibbles bs"

definition hexToCompact :: "bytes \<Rightarrow> bytes outcome" where
  "hexToCompact hex =
     (let (terminator, hex) = (if hasTerm hex then (1 :: u8, take (length hex - 1) hex) else (0, hex));
          buf0 = push_bit 5 terminator;
          n = length hex div 2;
          (buf0, hex) = (if odd (length hex) then (or (or buf0 (push_bit 4 1)) (hex ! 0), drop 1 hex) else (buf0, hex))
      in and_then (decodeNibbles hex (replicate n 0)) (\<lambda>rest. Done (buf0 # rest)))"

text \<open>The loop of \<open>hexToCompactInPlace\<close> on the shared buffer.\<close>

function compact_in_place :: "nat \<Rightarrow> nat \<Rightarrow> nat \<Rightarrow> bytes \<Rightarrow> bytes outcome" where
  "compact_in_place hexLen bi ni hex =
     (if ni < hexLen then
        (if ni + 1 < length hex \<and> bi < length hex
         then compact_in_place hexLen (bi + 1) (ni + 2) (hex[bi := or (push_bit 4 (hex ! ni)) (hex ! (ni + 1))])
         else Panicked SliceBounds)
      else Done hex)"
  by pat_completeness auto
termination
  by (relation "measure (\<lambda>(hexLen, bi, ni, hex). hexLen - ni)") auto

declare compact_in_place.simps [simp del]

definition hexToCompactInPlace :: "bytes \<Rightarrow> (nat \<times> bytes) outcome" where
  "hexToCompactInPlace hex =
     (let (firstByte, hexLen) = (if length hex > 0 \<and> hex ! (length hex - 1) = 16
            then (push_bit 5 1 :: u8, length hex - 1) else (0, length hex));
          binLen = hexLen div 2 + 1;
          (firstByte, ni) = (if odd hexLen then (or (or firstByte (push_bit 4 1)) (hex ! 0), 1) else (firstByte, 0))
      in and_then (compact_in_place hexLen 1 ni hex) (\<lambda>hex.
           if 0 < length hex then Done (binLen, hex[0 := firstByte]) else Panicked SliceBounds))"

definition keybytesToHex :: "bytes \<Rightarrow> bytes" where
  "keybytesToHex str = concat (map (\<lambda>b. [b div 16, b mod 16]) str) @ [16]"

definition compactToHex :: "bytes \<Rightarrow> bytes" where
  "compactToHex compact =
     (if length compact = 0 then compact
      else let base = keybytesToHex compact;
               base = (if base ! 0 < 2 then take (length base - 1) base else base);
               chop = 2 - and (base ! 0) 1
           in drop (unat chop) base)"

definition hexToKeybytes :: "bytes \<Rightarrow> bytes outcome" where
  "hexToKeybytes hex =
     (let hex = (if hasTerm hex then take (length hex - 1) hex else hex)
      in if odd (length hex) then Panicked (Explicit ''can't convert hex key of odd length'')
         else decodeNibbles hex (replicate (length hex div 2) 0))"

fun prefixLen :: "bytes \<Rightarrow> bytes \<Rightarrow> nat" where
  "prefixLen (x # a) (y # b) = (if x \<noteq> y then 0 else 1 + prefixLen a b)"
| "prefixLen a b = 0"

section \<open>Nibbles\<close>

text \<open>The reference: two nibbles form a byte. \<open>nibbles\<close> is the property of a key without
  terminator, \<open>hexkey\<close> that of a complete key.\<close>

fun pack :: "bytes \<Rightarrow> bytes" where
  "pack (x # y # ns) = or (push_bit 4 x) y # pack ns"
| "pack ns = []"

definition nibbles :: "bytes \<Rightarrow> bool" where
  "nibbles ns = (\<forall>x\<in>set ns. x < 16)"

definition hexkey :: "bytes \<Rightarrow> bool" where
  "hexkey k = (k \<noteq> [] \<and> last k = 16 \<and> nibbles (butlast k))"

lemma length_pack: "length (pack ns) = length ns div 2"
  by (induction ns rule: pack.induct) auto

lemma decodeNibbles_from_pack:
  "even (length ns) \<Longrightarrow> bi + length ns div 2 \<le> length bs \<Longrightarrow>
     decodeNibbles_from bi ns bs = Done (take bi bs @ pack ns @ drop (bi + length ns div 2) bs)"
proof (induction bi ns bs rule: decodeNibbles_from.induct)
  case (3 bi x y ns bs)
  then have "bi < length bs" by simp
  with 3 show ?case by (simp add: take_Suc_conv_app_nth)
qed auto

lemma decodeNibbles_pack:
  "even (length ns) \<Longrightarrow> length bs = length ns div 2 \<Longrightarrow> decodeNibbles ns bs = Done (pack ns)"
  by (simp add: decodeNibbles_def decodeNibbles_from_pack)

lemma nibble_byte:
  fixes x y :: u8
  assumes "x < 16" "y < 16"
  shows "or (push_bit 4 x) y div 16 = x" "or (push_bit 4 x) y mod 16 = y"
proof -
  have "\<not> bit y n" if "4 \<le> n" for n
  proof -
    from assms(2) have "unat y < 2 ^ 4" by (simp add: word_less_nat_alt)
    then have "unat (take_bit 4 y) = unat y" by (simp add: take_bit_eq_mod unat_mod)
    then have "y = take_bit 4 y" by (metis unsigned_word_eqI)
    with that show ?thesis by (metis bit_take_bit_iff not_le)
  qed
  then have or: "or (push_bit 4 x) y = push_bit 4 x + y"
    by (intro disjunctive_add [symmetric]) (auto simp: bit_simps)
  have b: "unat x < 16" "unat y < 16" using assms by (simp_all add: word_less_nat_alt)
  then have "unat (push_bit 4 x + y) = 16 * unat x + unat y"
    by (simp add: push_bit_eq_mult unat_word_ariths)
  with b or have "unat (or (push_bit 4 x) y div 16) = unat x" "unat (or (push_bit 4 x) y mod 16) = unat y"
    by (simp_all add: unat_div unat_mod)
  then show "or (push_bit 4 x) y div 16 = x" "or (push_bit 4 x) y mod 16 = y"
    by (simp_all only: word_unat_eq_iff)
qed

lemma keybytesToHex_Cons: "keybytesToHex (b # bs) = b div 16 # b mod 16 # keybytesToHex bs"
  by (simp add: keybytesToHex_def)

lemma keybytesToHex_pack:
  "even (length ns) \<Longrightarrow> nibbles ns \<Longrightarrow> keybytesToHex (pack ns) = ns @ [16]"
proof (induction ns rule: pack.induct)
  case (1 x y ns)
  then show ?case by (simp add: keybytesToHex_Cons nibble_byte nibbles_def)
qed (simp_all add: keybytesToHex_def)

lemma byte_nibbles: "b div 16 < (16 :: u8)" "b mod 16 < (16 :: u8)"
proof -
  have "unat b < 256" using unsigned_less [of b] by simp
  then show "b div 16 < (16 :: u8)" "b mod 16 < (16 :: u8)"
    by (simp_all add: word_less_nat_alt unat_div unat_mod less_mult_imp_div_less)
qed

lemma hexkey_keybytesToHex: "hexkey (keybytesToHex bs)"
  by (auto simp: hexkey_def keybytesToHex_def nibbles_def byte_nibbles)

lemma length_keybytesToHex: "length (keybytesToHex bs) = 2 * length bs + 1"
  by (induction bs) (simp_all add: keybytesToHex_def)

lemma pack_keybytes: "pack (butlast (keybytesToHex bs)) = bs"
proof (induction bs)
  case (Cons b bs)
  have n: "b div 16 = drop_bit 4 b" "b mod 16 = take_bit 4 b" by (simp_all add: drop_bit_eq_div take_bit_eq_mod)
  have "or (push_bit 4 (b div 16)) (b mod 16) = b" unfolding n
    by (rule bit_word_eqI) (auto simp: bit_or_iff bit_push_bit_iff bit_drop_bit_eq bit_take_bit_iff)
  moreover have "keybytesToHex bs \<noteq> []" by (simp add: keybytesToHex_def)
  ultimately show ?case using Cons by (simp add: keybytesToHex_Cons)
qed (simp add: keybytesToHex_def)

section \<open>The compact encoding\<close>

text \<open>The flag nibble of a key, and the nibbles the compact encoding packs.\<close>

definition term_key :: "bool \<Rightarrow> bytes \<Rightarrow> bytes" where
  "term_key t ns = ns @ (if t then [16] else [])"

definition flagged :: "bool \<Rightarrow> bytes \<Rightarrow> bytes" where
  "flagged t ns = ((if t then 2 else 0) + (if odd (length ns) then 1 else 0)) # (if odd (length ns) then ns else 0 # ns)"

lemma even_flagged: "even (length (flagged t ns))"
  by (simp add: flagged_def)

lemma nibbles_flagged: "nibbles ns \<Longrightarrow> nibbles (flagged t ns)"
  by (auto simp: nibbles_def flagged_def)

lemma hasTerm_last: "hasTerm s \<longleftrightarrow> s \<noteq> [] \<and> last s = 16"
  by (auto simp: hasTerm_def last_conv_nth)

lemma hasTerm_term_key: "nibbles ns \<Longrightarrow> hasTerm (term_key t ns) = t"
  by (auto simp: hasTerm_last term_key_def nibbles_def dest!: last_in_set)

lemma hexToCompact_flagged:
  assumes "nibbles ns"
  shows "hexToCompact (term_key t ns) = Done (pack (flagged t ns))"
proof -
  have strip: "(if hasTerm (term_key t ns) then (1 :: u8, take (length (term_key t ns) - 1) (term_key t ns)) else (0, term_key t ns)) =
      (if t then 1 else 0, ns)"
    using assms by (auto simp: hasTerm_term_key) (auto simp: term_key_def)
  show ?thesis
  proof (cases "odd (length ns)")
    case True
    then obtain x r where ns: "ns = x # r" by (cases ns) auto
    with True show ?thesis unfolding hexToCompact_def strip
      by (simp add: flagged_def decodeNibbles_pack)
  next
    case False
    then show ?thesis unfolding hexToCompact_def strip by (simp add: flagged_def decodeNibbles_pack)
  qed
qed

lemma compactToHex_flagged:
  assumes "nibbles ns"
  shows "compactToHex (pack (flagged t ns)) = term_key t ns"
proof -
  have base: "keybytesToHex (pack (flagged t ns)) = flagged t ns @ [16]"
    by (intro keybytesToHex_pack even_flagged nibbles_flagged assms)
  have "length (pack (flagged t ns)) \<noteq> 0" by (auto simp: length_pack flagged_def)
  then show ?thesis unfolding compactToHex_def base
    by (simp add: term_key_def flagged_def Let_def)
qed

text \<open>The in-place conversion reads a pair before it writes at or below the second of the two.\<close>

lemma compact_in_place_pack:
  assumes "hexLen \<le> length hex" "even (hexLen - ni)" "bi \<le> ni + 1" "0 < bi"
  shows "\<exists>r. compact_in_place hexLen bi ni hex = Done r \<and> length r = length hex \<and> take bi r = take bi hex \<and>
    take ((hexLen - ni) div 2) (drop bi r) = pack (take (hexLen - ni) (drop ni hex))"
  using assms
proof (induction hexLen bi ni hex rule: compact_in_place.induct)
  case (1 hexLen bi ni hex)
  show ?case
  proof (cases "ni < hexLen")
    case False
    then show ?thesis by (simp add: compact_in_place.simps)
  next
    case True
    define m where "m = hexLen - ni - 2"
    have "hexLen - ni \<noteq> 1" using "1.prems"(2) by (metis odd_one)
    with True have m: "hexLen - ni = Suc (Suc m)" by (simp add: m_def)
    let ?b = "or (push_bit 4 (hex ! ni)) (hex ! (ni + 1))" and ?hex = "hex[bi := or (push_bit 4 (hex ! ni)) (hex ! (ni + 1))]"
    from True m "1.prems" have lt: "ni + 1 < length hex" "bi < length hex" by linarith+
    have m2: "hexLen - (ni + 2) = m" "even m" using m "1.prems"(2) by (simp_all add: m_def)
    from "1.IH" [OF True conjI [OF lt]] "1.prems" obtain r where
      r: "compact_in_place hexLen (bi + 1) (ni + 2) ?hex = Done r" "length r = length hex"
        "take (bi + 1) r = take (bi + 1) ?hex" "take (m div 2) (drop (bi + 1) r) = pack (take m (drop (ni + 2) ?hex))"
      unfolding m2(1) using m2(2) by auto
    have "drop (ni + 2) ?hex = drop (ni + 2) hex" using "1.prems"(3) by simp
    moreover have "take (hexLen - ni) (drop ni hex) = hex ! ni # hex ! (ni + 1) # take m (drop (ni + 2) hex)"
      using lt m by (simp add: Cons_nth_drop_Suc [symmetric])
    moreover have "drop bi r = ?b # drop (bi + 1) r"
      using r(2,3) lt by (metis Cons_nth_drop_Suc Suc_eq_plus1 lessI nth_list_update_eq nth_take)
    moreover have "take bi r = take bi hex"
      using arg_cong [OF r(3), of "take bi"] by simp
    ultimately show ?thesis
      using r lt True m2(2) unfolding m by (simp add: compact_in_place.simps [of hexLen bi ni hex])
  qed
qed

lemma hexToCompactInPlace_flagged:
  assumes "nibbles ns" "term_key t ns \<noteq> []"
  shows "\<exists>r. hexToCompactInPlace (term_key t ns) = Done (length (pack (flagged t ns)), r) \<and>
    take (length (pack (flagged t ns))) r = pack (flagged t ns)"
proof -
  let ?k = "term_key t ns" and ?n = "length ns"
  let ?ni = "if odd ?n then 1 else 0 :: nat"
  have strip: "(if length ?k > 0 \<and> ?k ! (length ?k - 1) = 16 then (push_bit 5 1 :: u8, length ?k - 1) else (0, length ?k)) =
      (if t then 32 else 0, ?n)"
    using hasTerm_term_key [OF assms(1), of t] by (auto simp: hasTerm_def term_key_def)
  have n: "?n \<le> length ?k" "take ?n ?k = ns" by (simp_all add: term_key_def)
  have ev: "even (?n - ?ni)" by simp
  from compact_in_place_pack [OF n(1) ev, of 1] obtain r where
    r: "compact_in_place ?n 1 ?ni ?k = Done r" "length r = length ?k"
      "take ((?n - ?ni) div 2) (drop 1 r) = pack (take (?n - ?ni) (drop ?ni ?k))" by auto
  obtain b r' where br: "r = b # r'" using r(2) assms(2) by (cases r) auto
  have half: "(?n - ?ni) div 2 = ?n div 2" by (auto elim: oddE)
  have ns: "take (?n - ?ni) (drop ?ni ?k) = drop ?ni ns" by (simp add: term_key_def)
  have code: "hexToCompactInPlace ?k = Done (?n div 2 + 1, (if odd ?n then or (if t then 48 else 16) (?k ! 0) else if t then 32 else 0) # r')"
    unfolding hexToCompactInPlace_def strip using r(1) by (cases t; cases "odd ?n") (simp_all add: br)
  have p: "pack (flagged t ns) = (if odd ?n then or (if t then 48 else 16) (?k ! 0) else if t then 32 else 0) # pack (drop ?ni ns)"
    by (cases ns) (simp_all add: flagged_def term_key_def)
  have "length (pack (drop ?ni ns)) = ?n div 2" by (simp add: length_pack half)
  moreover have "take (?n div 2) r' = pack (drop ?ni ns)" using r(3) unfolding half ns by (simp add: br)
  ultimately show ?thesis unfolding code p by simp
qed

section \<open>Properties\<close>

text \<open>C21. The compact encoding is invertible: \<open>compactToHex\<close> gives back every key, with or without
  terminator, that \<open>hexToCompact\<close> encoded.\<close>

theorem compact_round_trip:
  assumes "nibbles ns"
  shows "\<exists>c. hexToCompact (term_key t ns) = Done c \<and> compactToHex c = term_key t ns"
  using hexToCompact_flagged [OF assms] compactToHex_flagged [OF assms] by blast

theorem compact_round_trip_witness:
  "\<exists>c. hexToCompact [1, 2, 3, 16] = Done c \<and> compactToHex c = [1, 2, 3, 16]"
  using compact_round_trip [of "[1, 2, 3]" True] by (simp add: nibbles_def term_key_def)

text \<open>C22. \<open>hexToCompactInPlace\<close> leaves in the first bytes of its buffer what \<open>hexToCompact\<close> allocates, and
  returns their number, for every key but the empty one.\<close>

theorem hexToCompactInPlace_compact:
  assumes "nibbles ns" "term_key t ns \<noteq> []"
  shows "\<exists>c buf. hexToCompact (term_key t ns) = Done c \<and> hexToCompactInPlace (term_key t ns) = Done (length c, buf) \<and>
    take (length c) buf = c"
  using hexToCompact_flagged [OF assms(1)] hexToCompactInPlace_flagged [OF assms] by blast

theorem hexToCompactInPlace_compact_witness:
  "\<exists>c buf. hexToCompact [1, 2, 3, 16] = Done c \<and> hexToCompactInPlace [1, 2, 3, 16] = Done (length c, buf) \<and>
    take (length c) buf = c"
  using hexToCompactInPlace_compact [of "[1, 2, 3]" True] by (simp add: nibbles_def term_key_def)

text \<open>\<open>hexToKeybytes\<close> inverts \<open>keybytesToHex\<close>.\<close>

lemma keybytes_round_trip: "hexToKeybytes (keybytesToHex key) = Done key"
proof -
  have "hexToKeybytes (keybytesToHex key) = Done (pack (butlast (keybytesToHex key)))"
    by (simp add: hexToKeybytes_def hasTerm_last decodeNibbles_pack length_keybytesToHex butlast_conv_take)
      (simp add: keybytesToHex_def)
  then show ?thesis by (simp add: pack_keybytes)
qed

end
