(* ===== verification/Trie_Node.thy ===== *)
theory Trie_Node
  imports Trie_Encoding
begin

text \<open>
  The Merkle Patricia trie of \<open>trie/trie.go\<close> and \<open>trie/node.go\<close>: nodes, lookup, insertion and
  deletion with the loading of nodes from the database. \<open>db.node\<close> is the argument \<open>db\<close>: the node
  with a hash, \<open>None\<close> when the database has none, a panic when its encoding is broken. Nothing in
  the code bounds the descent through a database that refers back to itself, so the recursive
  functions take fuel; \<open>Trie_Spec\<close> shows how much is enough.
\<close>

section \<open>trie/node.go\<close>

record nodeFlag =
  nf_hash :: "bytes option"
  nf_dirty :: bool

text \<open>The nil interface is a constructor of its own; it differs from \<open>valueNode(nil)\<close>.\<close>

datatype node =
    NilNode
  | fullNode "node list" nodeFlag
  | shortNode bytes node nodeFlag
  | hashNode bytes
  | valueNode bytes

fun node_cache :: "node \<Rightarrow> bytes option \<times> bool" where
  "node_cache (fullNode cs f) = (nf_hash f, nf_dirty f)"
| "node_cache (shortNode k v f) = (nf_hash f, nf_dirty f)"
| "node_cache n = (None, True)"

section \<open>Resolving\<close>

datatype trie_error = MissingNodeError hash bytes

type_synonym trie_db = "hash \<Rightarrow> node option outcome"
type_synonym 'a tried = "(trie_error + 'a) outcome"

definition try_then :: "'a tried \<Rightarrow> ('a \<Rightarrow> 'b tried) \<Rightarrow> 'b tried" where
  "try_then m f = and_then m (\<lambda>r. case r of Inl e \<Rightarrow> Done (Inl e) | Inr x \<Rightarrow> f x)"

definition resolveHash :: "trie_db \<Rightarrow> bytes \<Rightarrow> bytes \<Rightarrow> node tried" where
  "resolveHash db n prefix =
     (let h = BytesToHash n
      in and_then (db h) (\<lambda>r. case r of
           Some nd \<Rightarrow> Done (Inr nd)
         | None \<Rightarrow> Done (Inl (MissingNodeError h prefix))))"

definition resolve :: "trie_db \<Rightarrow> node \<Rightarrow> bytes \<Rightarrow> node tried" where
  "resolve db n prefix = (case n of hashNode h \<Rightarrow> resolveHash db h prefix | _ \<Rightarrow> Done (Inr n))"

definition newFlag :: nodeFlag where
  "newFlag = \<lparr> nf_hash = None, nf_dirty = True \<rparr>"

text \<open>\<open>n.Children[i]\<close>, read and written.\<close>

definition get_child :: "node list \<Rightarrow> u8 \<Rightarrow> node outcome" where
  "get_child cs i = (if unat i < length cs then Done (cs ! unat i) else Panicked SliceBounds)"

definition set_child :: "node list \<Rightarrow> u8 \<Rightarrow> node \<Rightarrow> node list outcome" where
  "set_child cs i n = (if unat i < length cs then Done (cs[unat i := n]) else Panicked SliceBounds)"

definition key_at :: "bytes \<Rightarrow> nat \<Rightarrow> u8 outcome" where
  "key_at key pos = (if pos < length key then Done (key ! pos) else Panicked SliceBounds)"

section \<open>Lookup\<close>

text \<open>A nil value is \<open>None\<close>.\<close>

fun tryGet :: "nat \<Rightarrow> trie_db \<Rightarrow> node \<Rightarrow> bytes \<Rightarrow> nat \<Rightarrow> (bytes option \<times> node \<times> bool) tried" where
  "tryGet 0 db origNode key pos = NoFuel"
| "tryGet (Suc fuel) db origNode key pos =
     (case origNode of
        NilNode \<Rightarrow> Done (Inr (None, NilNode, False))
      | valueNode v \<Rightarrow> Done (Inr (Some v, origNode, False))
      | shortNode k val fl \<Rightarrow>
          if length key < pos + length k \<or> k \<noteq> slice key pos (pos + length k) then Done (Inr (None, origNode, False))
          else try_then (tryGet fuel db val key (pos + length k)) (\<lambda>(v, newnode, didResolve).
            Done (Inr (v, if didResolve then shortNode k newnode fl else origNode, didResolve)))
      | fullNode cs fl \<Rightarrow>
          and_then (key_at key pos) (\<lambda>i. and_then (get_child cs i) (\<lambda>child.
            try_then (tryGet fuel db child key (pos + 1)) (\<lambda>(v, newnode, didResolve).
              Done (Inr (v, if didResolve then fullNode (cs[unat i := newnode]) fl else origNode, didResolve)))))
      | hashNode h \<Rightarrow>
          try_then (resolveHash db h (take pos key)) (\<lambda>child.
            try_then (tryGet fuel db child key pos) (\<lambda>(v, newnode, _). Done (Inr (v, newnode, True)))))"

section \<open>Insertion\<close>

definition empty_branch :: "node list" where
  "empty_branch = replicate 17 NilNode"

fun trie_insert :: "nat \<Rightarrow> trie_db \<Rightarrow> node \<Rightarrow> bytes \<Rightarrow> bytes \<Rightarrow> node \<Rightarrow> (bool \<times> node) tried" where
  "trie_insert 0 db n prefix key val = NoFuel"
| "trie_insert (Suc fuel) db n prefix key val =
     (if length key = 0 then
        (case n of
           valueNode v \<Rightarrow> (case val of valueNode w \<Rightarrow> Done (Inr (v \<noteq> w, val)) | _ \<Rightarrow> Panicked TypeAssertion)
         | _ \<Rightarrow> Done (Inr (True, val)))
      else case n of
        shortNode k nval fl \<Rightarrow>
          (let matchlen = prefixLen key k
           in if matchlen = length k then
                try_then (trie_insert fuel db nval (prefix @ take matchlen key) (drop matchlen key) val) (\<lambda>(dirty, nn).
                  Done (Inr (if \<not> dirty then (False, n) else (True, shortNode k nn newFlag))))
              else
                try_then (trie_insert fuel db NilNode (prefix @ take (matchlen + 1) k) (drop (matchlen + 1) k) nval) (\<lambda>(_, c1).
                  and_then (set_child empty_branch (k ! matchlen) c1) (\<lambda>cs1.
                    and_then (key_at key matchlen) (\<lambda>i.
                      try_then (trie_insert fuel db NilNode (prefix @ take (matchlen + 1) key) (drop (matchlen + 1) key) val) (\<lambda>(_, c2).
                        and_then (set_child cs1 i c2) (\<lambda>cs2.
                          let branch = fullNode cs2 newFlag
                          in Done (Inr (True, if matchlen = 0 then branch else shortNode (take matchlen key) branch newFlag))))))))
      | fullNode cs fl \<Rightarrow>
          and_then (get_child cs (key ! 0)) (\<lambda>child.
            try_then (trie_insert fuel db child (prefix @ [key ! 0]) (drop 1 key) val) (\<lambda>(dirty, nn).
              Done (Inr (if \<not> dirty then (False, n) else (True, fullNode (cs[unat (key ! 0) := nn]) newFlag)))))
      | NilNode \<Rightarrow> Done (Inr (True, shortNode key val newFlag))
      | hashNode h \<Rightarrow>
          try_then (resolveHash db h prefix) (\<lambda>rn.
            try_then (trie_insert fuel db rn prefix key val) (\<lambda>(dirty, nn).
              Done (Inr (if \<not> dirty then (False, rn) else (True, nn)))))
      | valueNode v \<Rightarrow> Panicked (Explicit ''invalid node''))"

section \<open>Deletion\<close>

text \<open>The loop over the children: the index of the only one, -2 if there are more, -1 if none.\<close>

fun only_child :: "nat \<Rightarrow> int \<Rightarrow> node list \<Rightarrow> int" where
  "only_child i pos [] = pos"
| "only_child i pos (cld # cs) =
     (if cld \<noteq> NilNode then (if pos = -1 then only_child (i + 1) (int i) cs else -2)
      else only_child (i + 1) pos cs)"

fun trie_delete :: "nat \<Rightarrow> trie_db \<Rightarrow> node \<Rightarrow> bytes \<Rightarrow> bytes \<Rightarrow> (bool \<times> node) tried" where
  "trie_delete 0 db n prefix key = NoFuel"
| "trie_delete (Suc fuel) db n prefix key =
     (case n of
        shortNode k nval fl \<Rightarrow>
          (let matchlen = prefixLen key k
           in if matchlen < length k then Done (Inr (False, n))
              else if matchlen = length key then Done (Inr (True, NilNode))
              else
                try_then (trie_delete fuel db nval (prefix @ take (length k) key) (drop (length k) key)) (\<lambda>(dirty, child).
                  Done (Inr (if \<not> dirty then (False, n)
                    else (True, case child of
                      shortNode ck cval _ \<Rightarrow> shortNode (k @ ck) cval newFlag
                    | _ \<Rightarrow> shortNode k child newFlag)))))
      | fullNode cs fl \<Rightarrow>
          and_then (key_at key 0) (\<lambda>i. and_then (get_child cs i) (\<lambda>child.
            try_then (trie_delete fuel db child (prefix @ [i]) (drop 1 key)) (\<lambda>(dirty, nn).
              if \<not> dirty then Done (Inr (False, n))
              else
                (let cs1 = cs[unat i := nn]; pos = only_child 0 (-1) cs1; rest = cs1 ! nat pos
                 in if pos \<ge> 0 then
                      try_then (if pos \<noteq> 16 then resolve db rest prefix else Done (Inr NilNode)) (\<lambda>cnode.
                        Done (Inr (True, case cnode of
                          shortNode ck cval _ \<Rightarrow> shortNode (of_int pos # ck) cval newFlag
                        | _ \<Rightarrow> shortNode [of_int pos] rest newFlag)))
                    else Done (Inr (True, fullNode cs1 newFlag))))))
      | valueNode v \<Rightarrow> Done (Inr (True, NilNode))
      | NilNode \<Rightarrow> Done (Inr (False, NilNode))
      | hashNode h \<Rightarrow>
          try_then (resolveHash db h prefix) (\<lambda>rn.
            try_then (trie_delete fuel db rn prefix key) (\<lambda>(dirty, nn).
              Done (Inr (if \<not> dirty then (False, rn) else (True, nn))))))"

section \<open>The trie\<close>

record Trie =
  tr_db :: trie_db
  root :: node
  unhashed :: nat

abbreviation trie_emptyRoot :: hash where
  "trie_emptyRoot \<equiv> 0x56e81f171bcc55a6ff8345e692c0f86e5b48e01b996cadc001622fb5e363b421"

definition Trie_New :: "hash \<Rightarrow> trie_db \<Rightarrow> Trie tried" where
  "Trie_New h db =
     (let trie = \<lparr> tr_db = db, root = NilNode, unhashed = 0 \<rparr>
      in if h \<noteq> 0 \<and> h \<noteq> trie_emptyRoot then
           try_then (resolveHash db (Hash_Bytes h) []) (\<lambda>rootnode. Done (Inr (trie\<lparr>root := rootnode\<rparr>)))
         else Done (Inr trie))"

definition TryGet :: "nat \<Rightarrow> bytes \<Rightarrow> Trie \<Rightarrow> ((trie_error + bytes option) \<times> Trie) outcome" where
  "TryGet fuel key t =
     and_then (tryGet fuel (tr_db t) (root t) (keybytesToHex key) 0) (\<lambda>r. case r of
       Inl e \<Rightarrow> Done (Inl e, t)
     | Inr (v, newroot, didResolve) \<Rightarrow> Done (Inr v, if didResolve then t\<lparr>root := newroot\<rparr> else t))"

definition TryDelete :: "nat \<Rightarrow> bytes \<Rightarrow> Trie \<Rightarrow> (trie_error option \<times> Trie) outcome" where
  "TryDelete fuel key t =
     (let t1 = t\<lparr>unhashed := unhashed t + 1\<rparr>
      in and_then (trie_delete fuel (tr_db t) (root t) [] (keybytesToHex key)) (\<lambda>r. case r of
           Inl e \<Rightarrow> Done (Some e, t1)
         | Inr (_, n) \<Rightarrow> Done (None, t1\<lparr>root := n\<rparr>)))"

definition TryUpdate :: "nat \<Rightarrow> bytes \<Rightarrow> bytes \<Rightarrow> Trie \<Rightarrow> (trie_error option \<times> Trie) outcome" where
  "TryUpdate fuel key val t =
     (let t1 = t\<lparr>unhashed := unhashed t + 1\<rparr>; k = keybytesToHex key
      in and_then
           (if length val \<noteq> 0 then trie_insert fuel (tr_db t) (root t) [] k (valueNode val)
            else trie_delete fuel (tr_db t) (root t) [] k) (\<lambda>r. case r of
           Inl e \<Rightarrow> Done (Some e, t1)
         | Inr (_, n) \<Rightarrow> Done (None, t1\<lparr>root := n\<rparr>)))"

definition Trie_Reset :: "Trie \<Rightarrow> Trie" where
  "Trie_Reset t = t\<lparr>root := NilNode, unhashed := 0\<rparr>"

end
