(* ===== verification/Trie_Spec.thy ===== *)
theory Trie_Spec
  imports Trie_Node
begin

text \<open>
  What the trie of \<open>Trie_Node\<close> implements: a map from keys to values. \<open>holds db n k v\<close> says that
  the subtrie \<open>n\<close>, with the nodes of the database behind its hashes, stores \<open>v\<close> under the hex key
  \<open>k\<close>; \<open>wfn\<close> is the invariant of Patricia tries. Lookup, insertion and deletion return with fuel
  that the length of the key bounds, keep the invariant, and act on \<open>holds\<close> as on a map.
\<close>

section \<open>Contents and invariant\<close>

inductive holds :: "trie_db \<Rightarrow> node \<Rightarrow> bytes \<Rightarrow> bytes \<Rightarrow> bool" for db where
  holds_value: "holds db (valueNode v) [] v"
| holds_short: "holds db n s v \<Longrightarrow> holds db (shortNode k n f) (k @ s) v"
| holds_full: "unat i < length cs \<Longrightarrow> holds db (cs ! unat i) s v \<Longrightarrow> holds db (fullNode cs f) (i # s) v"
| holds_hash: "db (BytesToHash h) = Done (Some n) \<Longrightarrow> holds db n s v \<Longrightarrow> holds db (hashNode h) s v"

inductive_simps holds_Nil [simp]: "holds db NilNode s v"
inductive_simps holds_valueNode [simp]: "holds db (valueNode x) s v"
inductive_simps holds_shortNode: "holds db (shortNode k n f) s v"
inductive_simps holds_fullNode: "holds db (fullNode cs f) s v"
inductive_simps holds_hashNode: "holds db (hashNode h) s v"

lemma holds_full_simps [simp]:
  "\<not> holds db (fullNode cs f) [] v"
  "holds db (fullNode cs f) (i # s) v \<longleftrightarrow> unat i < length cs \<and> holds db (cs ! unat i) s v"
  by (auto simp: holds_fullNode)

text \<open>Nodes that may follow the key of an extension: branches, in memory or in the database.\<close>

fun branching :: "trie_db \<Rightarrow> node \<Rightarrow> bool" where
  "branching db (fullNode cs f) = True"
| "branching db (hashNode h) = (\<forall>n. db (BytesToHash h) = Done (Some n) \<longrightarrow> (\<exists>cs f. n = fullNode cs f))"
| "branching db n = False"

definition several :: "node list \<Rightarrow> bool" where
  "several cs = (\<exists>i j. i < j \<and> j < length cs \<and> cs ! i \<noteq> NilNode \<and> cs ! j \<noteq> NilNode)"

text \<open>The flag of \<open>wfn\<close> says that the key ends at this node.\<close>

inductive wfn :: "trie_db \<Rightarrow> bool \<Rightarrow> node \<Rightarrow> bool" for db where
  wfn_nil: "wfn db t NilNode"
| wfn_value: "x \<noteq> [] \<Longrightarrow> wfn db True (valueNode x)"
| wfn_leaf: "hexkey k \<Longrightarrow> x \<noteq> [] \<Longrightarrow> wfn db False (shortNode k (valueNode x) f)"
| wfn_ext: "k \<noteq> [] \<Longrightarrow> nibbles k \<Longrightarrow> wfn db False n \<Longrightarrow> branching db n \<Longrightarrow> wfn db False (shortNode k n f)"
| wfn_full: "length cs = 17 \<Longrightarrow> (\<And>i. i < 17 \<Longrightarrow> wfn db (i = 16) (cs ! i)) \<Longrightarrow> several cs \<Longrightarrow> wfn db False (fullNode cs f)"
| wfn_hash: "db (BytesToHash h) = Done (Some n) \<Longrightarrow> (\<exists>k x f. n = shortNode k x f) \<or> (\<exists>cs f. n = fullNode cs f) \<Longrightarrow>
    wfn db False n \<Longrightarrow> wfn db False (hashNode h)"
| wfn_missing: "db (BytesToHash h) = Done None \<Longrightarrow> wfn db False (hashNode h)"

inductive_simps wfn_short_iff: "wfn db t (shortNode k n f)"
inductive_simps wfn_full_iff: "wfn db t (fullNode cs f)"
inductive_simps wfn_hash_iff: "wfn db t (hashNode h)"
inductive_simps wfn_value_iff [simp]: "wfn db t (valueNode x)"
inductive_simps wfn_Nil_iff [simp]: "wfn db t NilNode"

text \<open>The part of a key that is left at a node.\<close>

definition rest_key :: "bool \<Rightarrow> bytes \<Rightarrow> bool" where
  "rest_key t k = (if t then k = [] else hexkey k)"

definition is_hash :: "node \<Rightarrow> nat" where
  "is_hash n = (case n of hashNode h \<Rightarrow> 1 | _ \<Rightarrow> 0)"

lemma is_hash_simps [simp]:
  "is_hash NilNode = 0" "is_hash (valueNode v) = 0" "is_hash (shortNode k n f) = 0" "is_hash (fullNode cs f) = 0"
  "is_hash (hashNode h) = 1" "is_hash n \<le> 1"
  by (simp_all add: is_hash_def split: node.split)

section \<open>Hex keys\<close>

lemma nibbles_simps [simp]:
  "nibbles []" "nibbles (x # xs) \<longleftrightarrow> x < 16 \<and> nibbles xs" "nibbles (xs @ ys) \<longleftrightarrow> nibbles xs \<and> nibbles ys"
  by (auto simp: nibbles_def)

lemma not_hexkey_Nil [simp]: "\<not> hexkey []"
  by (simp add: hexkey_def)

lemma hexkey_Cons: "hexkey (i # s) \<longleftrightarrow> rest_key (i = 16) s \<and> i \<le> 16"
  by (cases s rule: rev_cases) (auto simp: hexkey_def rest_key_def butlast_append order_le_less)

lemma hexkey_append: "nibbles k \<Longrightarrow> hexkey (k @ s) \<longleftrightarrow> hexkey s"
  by (induction k) (auto simp: hexkey_Cons rest_key_def nibbles_def)

lemma hexkey_prefix: "hexkey k \<Longrightarrow> hexkey (k @ s) \<Longrightarrow> s = []"
  by (induction k) (auto simp: hexkey_Cons rest_key_def split: if_splits)

lemma hexkey_nibbles: "nibbles k \<Longrightarrow> \<not> hexkey k"
  using hexkey_append [of k "[]"] by simp

lemma hexkey_middle: "hexkey (p @ j # r) \<Longrightarrow> nibbles p \<and> rest_key (unat j = 16) r \<and> unat j \<le> 16"
proof (induction p)
  case Nil
  then show ?case by (auto simp: hexkey_Cons word_le_nat_alt word_unat_eq_iff)
next
  case (Cons a p)
  then have "a \<le> 16" "a \<noteq> 16" "hexkey (p @ j # r)" by (auto simp: hexkey_Cons rest_key_def split: if_splits)
  with Cons.IH show ?case by (simp add: order_le_less)
qed

lemma prefixLen_le: "prefixLen a b \<le> length a" "prefixLen a b \<le> length b"
  by (induction a b rule: prefixLen.induct) auto

lemma prefixLen_take: "take (prefixLen a b) a = take (prefixLen a b) b"
  by (induction a b rule: prefixLen.induct) auto

lemma prefixLen_full: "prefixLen a b = length b \<longleftrightarrow> (\<exists>s. a = b @ s)"
  by (induction a b rule: prefixLen.induct) (auto simp: prefixLen_le)

lemma prefixLen_differ:
  "prefixLen a b < length a \<Longrightarrow> prefixLen a b < length b \<Longrightarrow> a ! prefixLen a b \<noteq> b ! prefixLen a b"
  by (induction a b rule: prefixLen.induct) auto

section \<open>Results\<close>

text \<open>\<open>tried db P m\<close>: the call returns, a value with \<open>P\<close> or an error that names a hash which the
  database does not have.\<close>

fun missing :: "trie_db \<Rightarrow> trie_error \<Rightarrow> bool" where
  "missing db (MissingNodeError h path) = (db h = Done None)"

definition tried :: "trie_db \<Rightarrow> ('a \<Rightarrow> bool) \<Rightarrow> 'a tried \<Rightarrow> bool" where
  "tried db P m = (case m of Done (Inl e) \<Rightarrow> missing db e | Done (Inr x) \<Rightarrow> P x | _ \<Rightarrow> False)"

lemma tried_Done [simp]: "tried db P (Done (Inl e)) = missing db e" "tried db P (Done (Inr x)) = P x"
  by (simp_all add: tried_def)

lemma tried_then: "tried db P m \<Longrightarrow> (\<And>x. P x \<Longrightarrow> tried db Q (f x)) \<Longrightarrow> tried db Q (try_then m f)"
proof (cases m)
  case (Done r)
  then show "tried db P m \<Longrightarrow> (\<And>x. P x \<Longrightarrow> tried db Q (f x)) \<Longrightarrow> ?thesis"
    by (cases r) (auto simp: tried_def try_then_def)
qed (simp_all add: tried_def)

lemma triedE:
  assumes "tried db P m"
  obtains (failed) e where "m = Done (Inl e)" "missing db e" | (result) x where "m = Done (Inr x)" "P x"
  using assms by (auto simp: tried_def split: outcome.splits sum.splits)

lemma tried_mono: "tried db P m \<Longrightarrow> (\<And>x. P x \<Longrightarrow> Q x) \<Longrightarrow> tried db Q m"
  by (auto simp: tried_def split: outcome.splits sum.splits)

lemma tried_dirty:
  assumes "tried db P m" "\<And>nn. P (True, nn) \<Longrightarrow> Q (True, g nn)" "\<And>nn. P (False, nn) \<Longrightarrow> Q (False, n0)"
  shows "tried db Q (try_then m (\<lambda>(dirty, nn). Done (Inr (if \<not> dirty then (False, n0) else (True, g nn)))))"
  by (rule tried_then [OF assms(1)]) (use assms(2,3) in \<open>auto split: prod.split\<close>)

lemma tried_dirty2:
  assumes "tried db P m" "\<And>nn. P (True, nn) \<Longrightarrow> tried db Q (g nn)" "\<And>nn. P (False, nn) \<Longrightarrow> Q (False, n0)"
  shows "tried db Q (try_then m (\<lambda>(dirty, nn). if \<not> dirty then Done (Inr (False, n0)) else g nn))"
  by (rule tried_then [OF assms(1)]) (use assms(2,3) in \<open>auto split: prod.split\<close>)

lemma tried_resolveHash:
  assumes "wfn db False (hashNode h)"
  shows "tried db (\<lambda>n. db (BytesToHash h) = Done (Some n) \<and> wfn db False n \<and>
    ((\<exists>k x f. n = shortNode k x f) \<or> (\<exists>cs f. n = fullNode cs f))) (resolveHash db h p)"
  using assms by (auto simp: wfn_hash_iff resolveHash_def Let_def)

section \<open>Lookup\<close>

definition same_node :: "trie_db \<Rightarrow> bool \<Rightarrow> node \<Rightarrow> node \<Rightarrow> bool" where
  "same_node db t n n' =
     (wfn db t n' \<and> (\<forall>k x. holds db n' k x \<longleftrightarrow> holds db n k x) \<and> (n' = NilNode \<longleftrightarrow> n = NilNode) \<and>
      (branching db n \<longrightarrow> branching db n'))"

lemma same_node_refl: "wfn db t n \<Longrightarrow> same_node db t n n"
  by (simp add: same_node_def)

lemma several_update: "several cs \<Longrightarrow> (n = NilNode \<longleftrightarrow> cs ! i = NilNode) \<Longrightarrow> several (cs[i := n])"
proof -
  assume *: "several cs" "n = NilNode \<longleftrightarrow> cs ! i = NilNode"
  have "cs[i := n] ! j = NilNode \<longleftrightarrow> cs ! j = NilNode" if "j < length cs" for j using that *(2) by (cases "i = j") auto
  moreover obtain a b where "a < b" "b < length cs" "cs ! a \<noteq> NilNode" "cs ! b \<noteq> NilNode" using *(1) by (auto simp: several_def)
  ultimately show ?thesis unfolding several_def by (intro exI [of _ a] exI [of _ b]) simp
qed

lemma same_node_full:
  assumes "wfn db False (fullNode cs f)" "unat i < 17" "same_node db (unat i = 16) (cs ! unat i) n'"
  shows "same_node db False (fullNode cs f) (fullNode (cs[unat i := n']) f)"
proof -
  from assms(1) have cs: "length cs = 17" "\<And>j. j < 17 \<Longrightarrow> wfn db (j = 16) (cs ! j)" "several cs"
    by (auto simp: wfn_full_iff)
  then have "wfn db False (fullNode (cs[unat i := n']) f)"
    using assms(2,3) by (auto simp: wfn_full_iff nth_list_update same_node_def intro!: several_update)
  moreover have "holds db (fullNode (cs[unat i := n']) f) k x \<longleftrightarrow> holds db (fullNode cs f) k x" for k x
    using assms(2,3) cs(1) by (auto simp: holds_fullNode nth_list_update same_node_def)
  ultimately show ?thesis by (simp add: same_node_def)
qed

text \<open>The two kinds of short nodes: what the value of a short node is well formed for.\<close>

definition ends_key :: "node \<Rightarrow> bool" where
  "ends_key n = (\<exists>x. n = valueNode x)"

lemma ends_key_simps [simp]:
  "ends_key (valueNode x)" "\<not> ends_key NilNode" "\<not> ends_key (shortNode k n f)" "\<not> ends_key (fullNode cs f)" "\<not> ends_key (hashNode h)"
  by (simp_all add: ends_key_def)

lemma branching_ends_key: "branching db n \<Longrightarrow> \<not> ends_key n"
  by (cases n) simp_all

lemma wfn_short: "wfn db t (shortNode k n f) \<longleftrightarrow>
  \<not> t \<and> wfn db (ends_key n) n \<and> k \<noteq> [] \<and> (if ends_key n then hexkey k else nibbles k \<and> branching db n)"
proof (cases "ends_key n")
  case True
  then obtain x where n: "n = valueNode x" by (auto simp: ends_key_def)
  show ?thesis unfolding n by (subst wfn_short_iff) auto
next
  case False
  then show ?thesis by (subst wfn_short_iff) (auto simp: ends_key_def)
qed

lemma short_rest_key:
  assumes "wfn db False (shortNode k n f)" "hexkey (k @ s)"
  shows "rest_key (ends_key n) s"
  using assms hexkey_prefix [of k s] by (auto simp: wfn_short rest_key_def hexkey_append)

lemma same_node_short:
  assumes "wfn db False (shortNode k n f)" "same_node db (ends_key n) n n'"
  shows "same_node db False (shortNode k n f) (shortNode k n' f)"
proof -
  have "ends_key n' = ends_key n"
  proof (cases "ends_key n")
    case True
    then obtain x where "n = valueNode x" by (auto simp: ends_key_def)
    with assms(2) have "holds db n' [] x" "wfn db True n'" by (auto simp: same_node_def)
    then show ?thesis using True by (cases n') (auto simp: wfn_short wfn_full_iff wfn_hash_iff)
  next
    case False
    with assms(2) show ?thesis by (auto simp: same_node_def ends_key_def)
  qed
  then show ?thesis using assms by (auto simp: same_node_def wfn_short holds_shortNode)
qed

lemma not_prefix_slice:
  "(length key < pos + length k \<or> k \<noteq> slice key pos (pos + length k)) \<longleftrightarrow> (\<nexists>s. drop pos key = k @ s)" if "pos \<le> length key"
proof -
  have "(\<exists>s. drop pos key = k @ s) \<longleftrightarrow> take (length k) (drop pos key) = k \<and> length k \<le> length key - pos"
    by (metis append_take_drop_id append_eq_conv_conj length_append length_drop le_add1)
  then show ?thesis using that by (auto simp: slice_def)
qed

definition got :: "trie_db \<Rightarrow> bool \<Rightarrow> node \<Rightarrow> bytes \<Rightarrow> bytes option \<times> node \<times> bool \<Rightarrow> bool" where
  "got db t n s = (\<lambda>(v, n', did). (\<forall>x. v = Some x \<longleftrightarrow> holds db n s x) \<and> same_node db t n n')"

lemma tryGet_ok:
  assumes "wfn db t n" "rest_key t (drop pos key)" "pos \<le> length key" "2 * (length key - pos) + is_hash n < fuel"
  shows "tried db (got db t n (drop pos key)) (tryGet fuel db n key pos)"
  using assms
proof (induction fuel arbitrary: n pos t)
  case (Suc fuel)
  note prems = Suc.prems
  have IH: "tried db (got db t' n' (drop p key)) (tryGet fuel db n' key p)"
    if "wfn db t' n'" "rest_key t' (drop p key)" "p \<le> length key" "2 * (length key - p) + is_hash n' < fuel" for t' n' p
    by (rule Suc.IH [OF that])
  show ?case
  proof (cases n)
    case NilNode
    then show ?thesis by (simp add: got_def same_node_def)
  next
    case (valueNode x)
    with prems show ?thesis by (auto simp: got_def rest_key_def same_node_refl)
  next
    case (hashNode h)
    with prems have t: "\<not> t" and w: "wfn db False (hashNode h)" by (auto simp: wfn_hash_iff)
    have "tried db (got db False n (drop pos key)) (try_then (tryGet fuel db c key pos) (\<lambda>(v, newnode, _). Done (Inr (v, newnode, True))))"
      if c: "db (BytesToHash h) = Done (Some c) \<and> wfn db False c \<and> ((\<exists>k x f. c = shortNode k x f) \<or> (\<exists>cs f. c = fullNode cs f))" for c
    proof -
      have "is_hash c = 0" using c by auto
      then have "tried db (got db False c (drop pos key)) (tryGet fuel db c key pos)"
        using IH [of False c pos] c prems t by (simp add: hashNode)
      then show ?thesis
        by (rule tried_then) (use c in \<open>auto simp: got_def same_node_def holds_hashNode hashNode\<close>)
    qed
    then show ?thesis using t by (simp add: hashNode) (rule tried_then [OF tried_resolveHash [OF w]])
  next
    case (shortNode k val fl)
    with prems have t: "\<not> t" and w: "wfn db False (shortNode k val fl)" and hk: "hexkey (drop pos key)"
      by (simp_all add: wfn_short rest_key_def)
    show ?thesis
    proof (cases "\<exists>s. drop pos key = k @ s")
      case False
      with prems shortNode show ?thesis
        by (auto simp: not_prefix_slice got_def holds_shortNode same_node_refl)
    next
      case True
      then obtain s where s: "drop pos key = k @ s" by blast
      then have s': "drop (pos + length k) key = s" by (metis add.commute append_eq_conv_conj drop_drop)
      have len: "length key - pos = length k + length s" using arg_cong [OF s, of length] by simp
      have "0 < length k" using w by (simp add: wfn_short)
      then have b: "pos + length k \<le> length key" "2 * (length key - (pos + length k)) + is_hash val < fuel"
        using len prems(3,4) is_hash_simps(6) [of val] by linarith+
      have "tried db (got db (ends_key val) val s) (tryGet fuel db val key (pos + length k))"
        using IH [of "ends_key val" val "pos + length k", unfolded s', OF _ _ b] short_rest_key [OF w, of s] hk w
        by (simp add: wfn_short s)
      then have "tried db (got db False n (drop pos key)) (try_then (tryGet fuel db val key (pos + length k)) (\<lambda>(v, newnode, didResolve).
            Done (Inr (v, if didResolve then shortNode k newnode fl else n, didResolve))))"
        by (rule tried_then)
          (use same_node_short [OF w] w in \<open>auto simp: got_def s holds_shortNode shortNode same_node_refl\<close>)
      then show ?thesis using True prems(3) t not_prefix_slice [of pos key k] unfolding shortNode by simp
    qed
  next
    case (fullNode cs fl)
    with prems have t: "\<not> t" and w: "wfn db False (fullNode cs fl)" and hk: "hexkey (drop pos key)"
      by (auto simp: wfn_full_iff rest_key_def)
    then obtain i s where s: "drop pos key = i # s" by (cases "drop pos key") auto
    then have k: "pos < length key" "key ! pos = i" "drop (pos + 1) key = s"
      by (metis drop_all list.distinct(1) not_less, metis nth_via_drop, metis Suc_eq_plus1 drop_Suc drop_tl list.sel(3))
    from hk have i: "unat i \<le> 16" "rest_key (unat i = 16) s"
      unfolding s hexkey_Cons by (auto simp: word_le_nat_alt word_unat_eq_iff)
    from w have cs: "length cs = 17" "wfn db (unat i = 16) (cs ! unat i)" using i by (auto simp: wfn_full_iff)
    have "tried db (got db (unat i = 16) (cs ! unat i) s) (tryGet fuel db (cs ! unat i) key (pos + 1))"
      using IH [OF cs(2), of "pos + 1"] i(2) k prems(4) is_hash_simps(6) [of "cs ! unat i"] by (auto simp: fullNode)
    then have "tried db (got db False n (drop pos key)) (try_then (tryGet fuel db (cs ! unat i) key (pos + 1)) (\<lambda>(v, newnode, didResolve).
        Done (Inr (v, if didResolve then fullNode (cs[unat i := newnode]) fl else n, didResolve))))"
      by (rule tried_then)
        (use same_node_full [OF w, of i] w i cs in \<open>auto simp: got_def s holds_fullNode fullNode same_node_refl\<close>)
    then show ?thesis using k t i cs unfolding fullNode by (simp add: key_at_def get_child_def)
  qed
qed simp

section \<open>Insertion\<close>

definition stored :: "trie_db \<Rightarrow> bool \<Rightarrow> node \<Rightarrow> bytes \<Rightarrow> bytes \<Rightarrow> bool \<times> node \<Rightarrow> bool" where
  "stored db t n key x = (\<lambda>(dirty, n'). wfn db t n' \<and> n' \<noteq> NilNode \<and>
     (\<forall>k v. holds db n' k v \<longleftrightarrow> (if k = key then v = x else holds db n k v)) \<and>
     (\<not> dirty \<longrightarrow> holds db n key x) \<and> (branching db n \<longrightarrow> branching db n'))"

lemma wfn_True: "wfn db True n \<longleftrightarrow> n = NilNode \<or> (\<exists>x. x \<noteq> [] \<and> n = valueNode x)"
  by (cases n) (auto simp: wfn_short wfn_full_iff wfn_hash_iff)

lemma wfn_short_replace:
  assumes "wfn db False (shortNode k n f)" "wfn db (ends_key n) n'" "n' \<noteq> NilNode" "branching db n \<Longrightarrow> branching db n'"
  shows "wfn db False (shortNode k n' f')"
proof (cases "ends_key n")
  case True
  with assms(2,3) have "ends_key n'" by (auto simp: wfn_True)
  with True assms show ?thesis by (simp add: wfn_short)
next
  case False
  with assms have "branching db n'" by (simp add: wfn_short)
  then have "\<not> ends_key n'" by (rule branching_ends_key)
  with False assms show ?thesis by (simp add: wfn_short)
qed

lemma holds_functional: "holds db n k v \<Longrightarrow> holds db n k w \<Longrightarrow> v = w"
  by (induction arbitrary: w rule: holds.induct) (auto simp: holds_shortNode holds_fullNode holds_hashNode)

lemma several_set: "several cs \<Longrightarrow> n \<noteq> NilNode \<Longrightarrow> several (cs[i := n])"
proof -
  assume *: "several cs" "n \<noteq> NilNode"
  have "cs[i := n] ! j \<noteq> NilNode" if "cs ! j \<noteq> NilNode" "j < length cs" for j using that *(2) by (cases "i = j") auto
  moreover obtain a b where "a < b" "b < length cs" "cs ! a \<noteq> NilNode" "cs ! b \<noteq> NilNode" using *(1) by (auto simp: several_def)
  ultimately show ?thesis unfolding several_def by (intro exI [of _ a] exI [of _ b]) simp
qed

lemma stored_full:
  assumes "wfn db False (fullNode cs f)" "unat i < 17" "stored db (unat i = 16) (cs ! unat i) s x (True, n')"
  shows "stored db False (fullNode cs f) (i # s) x (True, fullNode (cs[unat i := n']) newFlag)"
proof -
  from assms(1) have cs: "length cs = 17" "\<And>j. j < 17 \<Longrightarrow> wfn db (j = 16) (cs ! j)" "several cs"
    by (auto simp: wfn_full_iff)
  then have "wfn db False (fullNode (cs[unat i := n']) newFlag)"
    using assms(2,3) by (auto simp: wfn_full_iff nth_list_update stored_def intro!: several_set)
  moreover have "holds db (fullNode (cs[unat i := n']) newFlag) k v \<longleftrightarrow>
      (if k = i # s then v = x else holds db (fullNode cs f) k v)" for k v
    using assms(2,3) cs(1)
    by (cases k) (auto simp: nth_list_update stored_def word_unat_eq_iff [symmetric])
  ultimately show ?thesis by (simp add: stored_def)
qed

lemma stored_short:
  assumes "wfn db False (shortNode k n f)" "stored db (ends_key n) n s x (True, n')"
  shows "stored db False (shortNode k n f) (k @ s) x (True, shortNode k n' newFlag)"
proof -
  have "wfn db False (shortNode k n' newFlag)" by (rule wfn_short_replace [OF assms(1)]) (use assms(2) in \<open>auto simp: stored_def\<close>)
  moreover have "holds db n' k v \<longleftrightarrow> (if k = s then v = x else holds db n k v)" for k v using assms(2) by (simp add: stored_def)
  then have "holds db (shortNode k n' newFlag) q v \<longleftrightarrow> (if q = k @ s then v = x else holds db (shortNode k n f) q v)" for q v
    by (auto simp: holds_shortNode split: if_splits)
  ultimately show ?thesis by (simp add: stored_def)
qed

lemma stored_clean:
  assumes "wfn db t n" "holds db n key x"
  shows "stored db t n key x (False, n)"
proof -
  have k: "(if k = key then v = x else holds db n k v) = holds db n k v" for k v
    using assms(2) holds_functional [of db n key] by (metis (full_types))
  have "n \<noteq> NilNode" using assms(2) by auto
  then show ?thesis unfolding stored_def k using assms by simp
qed

lemma stored_hash:
  assumes "db (BytesToHash h) = Done (Some c)" "wfn db False c"
  shows "stored db False c key x (True, n) \<Longrightarrow> stored db False (hashNode h) key x (True, n)"
    "stored db False c key x (False, n) \<Longrightarrow> stored db False (hashNode h) key x (False, c)"
proof -
  have h: "holds db (hashNode h) k v \<longleftrightarrow> holds db c k v" for k v using assms(1) by (auto simp: holds_hashNode)
  have b: "branching db (hashNode h) \<Longrightarrow> branching db c" using assms(1) by auto
  show "stored db False c key x (True, n) \<Longrightarrow> stored db False (hashNode h) key x (True, n)"
    using b by (simp add: stored_def h)
  assume "stored db False c key x (False, n)"
  then have "holds db c key x" by (simp add: stored_def)
  from stored_clean [OF assms(2) this] b show "stored db False (hashNode h) key x (False, c)"
    unfolding stored_def h prod.case by blast
qed

text \<open>A key below a branch: the rest of it becomes a short node of its own.\<close>

definition short_rest :: "bytes \<Rightarrow> node \<Rightarrow> node" where
  "short_rest k val = (if k = [] then val else shortNode k val newFlag)"

lemma insert_NilNode: "0 < fuel \<Longrightarrow> trie_insert fuel db NilNode p k val = Done (Inr (True, short_rest k val))"
  by (cases fuel) (auto simp: short_rest_def)

lemma holds_short_rest: "holds db (short_rest k n) s v \<longleftrightarrow> (\<exists>s'. s = k @ s' \<and> holds db n s' v)"
  by (auto simp: short_rest_def holds_shortNode)

lemma wfn_short_rest:
  assumes "wfn db False (shortNode (p @ j # r) n f)"
  shows "wfn db (unat j = 16) (short_rest r n) \<and> short_rest r n \<noteq> NilNode \<and> nibbles p \<and> unat j \<le> 16"
proof -
  have w: "wfn db (ends_key n) n" "n \<noteq> NilNode" using assms by (auto simp: wfn_short)
  show ?thesis
  proof (cases "ends_key n")
    case True
    then have "hexkey (p @ j # r)" using assms by (simp add: wfn_short)
    then have "nibbles p" "rest_key (unat j = 16) r" "unat j \<le> 16" by (auto dest: hexkey_middle)
    then show ?thesis using True w by (auto simp: short_rest_def wfn_short rest_key_def split: if_splits)
  next
    case False
    then have "nibbles p" "j < 16" "nibbles r" "branching db n" using assms by (auto simp: wfn_short)
    then show ?thesis using False w by (auto simp: short_rest_def wfn_short word_less_nat_alt)
  qed
qed

lemma stored_split:
  assumes "wfn db False (shortNode (p @ j # r) n f)" "hexkey (p @ i # s)" "i \<noteq> j" "x \<noteq> []"
    and branch: "branch = fullNode (empty_branch[unat j := short_rest r n, unat i := short_rest s (valueNode x)]) newFlag"
  shows "stored db False (shortNode (p @ j # r) n f) (p @ i # s) x (True, if p = [] then branch else shortNode p branch newFlag)"
proof -
  let ?c1 = "short_rest r n" and ?c2 = "short_rest s (valueNode x)"
  let ?cs = "empty_branch[unat j := ?c1, unat i := ?c2]"
  from wfn_short_rest [OF assms(1)]
  have c1: "wfn db (unat j = 16) ?c1" "?c1 \<noteq> NilNode" "nibbles p" "unat j \<le> 16" by simp_all
  have "wfn db False (shortNode (p @ i # s) (valueNode x) newFlag)" using assms(2,4) by (simp add: wfn_short)
  from wfn_short_rest [OF this] have c2: "wfn db (unat i = 16) ?c2" "?c2 \<noteq> NilNode" "unat i \<le> 16" by simp_all
  have ij: "unat i \<noteq> unat j" using assms(3) by (simp add: word_unat_eq_iff)
  have len: "length ?cs = 17" by (simp add: empty_branch_def)
  have at: "?cs ! m = (if m = unat i then ?c2 else if m = unat j then ?c1 else NilNode)" if "m < 17" for m
    using that c1(4) c2(3) by (auto simp: nth_list_update empty_branch_def)
  have "several ?cs" unfolding several_def
    using at [of "unat i"] at [of "unat j"] ij c1 c2 by (intro exI [of _ "min (unat i) (unat j)"] exI [of _ "max (unat i) (unat j)"]) (auto simp: empty_branch_def min_def max_def)
  then have w: "wfn db False branch" unfolding branch
    by (subst wfn_full_iff) (use len c1(1) c2(1) at in \<open>auto split: if_splits\<close>)
  have hc: "holds db branch (a # q) v \<longleftrightarrow> a = i \<and> q = s \<and> v = x \<or> a = j \<and> (\<exists>s'. q = r @ s' \<and> holds db n s' v)" for a q v
  proof (cases "unat a < 17")
    case True
    show ?thesis unfolding branch holds_full_simps len at [OF True]
      using True ij by (auto simp: holds_short_rest word_unat_eq_iff [symmetric])
  next
    case False
    then show ?thesis using c1(4) c2(3) unfolding branch holds_full_simps len by auto
  qed
  have h: "holds db branch k v \<longleftrightarrow> k = i # s \<and> v = x \<or> (\<exists>s'. k = j # r @ s' \<and> holds db n s' v)" for k v
    by (cases k) (auto simp: hc, simp add: branch)
  have "holds db (if p = [] then branch else shortNode p branch newFlag) k v \<longleftrightarrow>
      (if k = p @ i # s then v = x else holds db (shortNode (p @ j # r) n f) k v)" for k v
    using assms(3) by (auto simp: holds_shortNode h)
  moreover have "wfn db False (if p = [] then branch else shortNode p branch newFlag)"
    using w c1(3) by (auto simp: wfn_short branch)
  ultimately show ?thesis by (simp add: stored_def branch)
qed

lemma prefixLen_split: "i \<noteq> j \<Longrightarrow> prefixLen (q @ i # s) (q @ j # r) = length q"
  by (induction q) auto

lemma insert_split:
  assumes "i \<noteq> j" "unat i \<le> 16" "unat j \<le> 16" "0 < fuel"
    and branch: "branch = fullNode (empty_branch[unat j := short_rest r n, unat i := short_rest s val]) newFlag"
  shows "trie_insert (Suc fuel) db (shortNode (q @ j # r) n f) p (q @ i # s) val =
    Done (Inr (True, if q = [] then branch else shortNode q branch newFlag))"
  using assms(1-4) unfolding branch
  by (simp add: Let_def prefixLen_split insert_NilNode set_child_def key_at_def try_then_def nth_append empty_branch_def)

lemma trie_insert_ok:
  assumes "wfn db t n" "rest_key t key" "x \<noteq> []" "2 * length key + is_hash n < fuel"
  shows "tried db (stored db t n key x) (trie_insert fuel db n p key (valueNode x))"
  using assms
proof (induction fuel arbitrary: n key t p)
  case (Suc fuel)
  note prems = Suc.prems
  show ?case
  proof (cases "key = []")
    case True
    with prems(1,2) have "t" "n = NilNode \<or> (\<exists>y. y \<noteq> [] \<and> n = valueNode y)"
      by (auto simp: rest_key_def wfn_True split: if_splits)
    then show ?thesis using True prems(3) by (auto simp: stored_def)
  next
    case False
    with prems(2) have t: "\<not> t" and hk: "hexkey key" by (auto simp: rest_key_def split: if_splits)
    show ?thesis
    proof (cases n)
      case NilNode
      with t hk False prems(3) show ?thesis by (auto simp: stored_def wfn_short holds_shortNode)
    next
      case (valueNode y)
      with prems t show ?thesis by simp
    next
      case (hashNode h)
      with prems(1) t have w: "wfn db False (hashNode h)" by simp
      have "tried db (stored db False n key x) (try_then (trie_insert fuel db c p key (valueNode x)) (\<lambda>(dirty, nn).
              Done (Inr (if \<not> dirty then (False, c) else (True, nn)))))"
        if c: "db (BytesToHash h) = Done (Some c) \<and> wfn db False c \<and> ((\<exists>k x f. c = shortNode k x f) \<or> (\<exists>cs f. c = fullNode cs f))" for c
      proof -
        have "is_hash c = 0" using c by auto
        then have "tried db (stored db False c key x) (trie_insert fuel db c p key (valueNode x))"
          using Suc.IH [of False c key p] c prems t by (simp add: hashNode)
        then show ?thesis
          unfolding hashNode by (rule tried_dirty) (use c in \<open>auto simp: stored_hash\<close>)
      qed
      then show ?thesis using t False unfolding hashNode by simp (rule tried_then [OF tried_resolveHash [OF w]])
    next
      case (shortNode k val fl)
      with prems(1) t have w: "wfn db False (shortNode k val fl)" by simp
      show ?thesis
      proof (cases "\<exists>s. key = k @ s")
        case True
        then obtain s where s: "key = k @ s" by blast
        have k: "0 < length k" using w by (simp add: wfn_short)
        have "2 * length s + is_hash val < fuel"
          using k prems(4) is_hash_simps(6) [of val] unfolding s shortNode is_hash_simps length_append by arith
        then have "tried db (stored db (ends_key val) val s x) (trie_insert fuel db val (p @ k) s (valueNode x))"
          using Suc.IH [of "ends_key val" val s "p @ k"] short_rest_key [OF w, of s] hk w prems(3)
          by (simp add: wfn_short s shortNode)
        then have "tried db (stored db False n key x) (try_then (trie_insert fuel db val (p @ k) s (valueNode x)) (\<lambda>(dirty, nn).
                  Done (Inr (if \<not> dirty then (False, n) else (True, shortNode k nn newFlag)))))"
          unfolding s shortNode
          by (rule tried_dirty) (erule stored_short [OF w], rule stored_clean [OF w], simp add: stored_def holds_shortNode)
        moreover have "prefixLen key k = length k" using True by (simp add: prefixLen_full)
        ultimately show ?thesis using t k s unfolding shortNode by simp
      next
        case False
        let ?m = "prefixLen key k"
        have m: "?m \<noteq> length k" "?m < length k" using False prefixLen_le(2) [of key k] by (auto simp: prefixLen_full order_le_less)
        have "?m \<noteq> length key"
        proof
          assume "?m = length key"
          then have "k = key @ drop ?m k" using prefixLen_take [of key k] by (metis append_take_drop_id take_all_iff order_refl)
          moreover have "drop ?m k \<noteq> []" using m by simp
          ultimately show False using hk w hexkey_prefix [of key "drop ?m k"] hexkey_nibbles [of key]
            by (metis nibbles_simps(3) wfn_short)
        qed
        then have m': "?m < length key" using prefixLen_le(1) [of key k] by simp
        define q i s j r where "q = take ?m key" "i = key ! ?m" "s = drop (?m + 1) key" "j = k ! ?m" "r = drop (?m + 1) k"
        have "length q = ?m" using m' by (simp add: q_i_s_j_r_def)
        moreover have "key = q @ i # s" "k = q @ j # r" "i \<noteq> j"
          using id_take_nth_drop [OF m'] id_take_nth_drop [OF m(2)] prefixLen_take [of key k] prefixLen_differ [OF m' m(2)] m'
          unfolding q_i_s_j_r_def by (simp_all only: Suc_eq_plus1 simp_thms)
        ultimately have kk: "key = q @ i # s" "k = q @ j # r" "length q = ?m" "i \<noteq> j" by blast+
        have "0 < fuel" using prems(4) \<open>key \<noteq> []\<close> by (cases key) auto
        moreover have "unat i \<le> 16" "unat j \<le> 16"
          using hexkey_middle [of q i s] wfn_short_rest [of db q j r val fl] hk w unfolding kk(1,2) by auto
        ultimately show ?thesis
          using insert_split [OF kk(4) _ _ _ refl] stored_split [OF _ _ kk(4) prems(3) refl] w hk t unfolding shortNode kk(1,2) by simp
      qed
    next
      case (fullNode cs fl)
      with prems(1) t have w: "wfn db False (fullNode cs fl)" by simp
      obtain i s where s: "key = i # s" using False by (cases key) auto
      from hk have i: "unat i \<le> 16" "rest_key (unat i = 16) s"
        unfolding s hexkey_Cons by (auto simp: word_le_nat_alt word_unat_eq_iff)
      from w have cs: "length cs = 17" "wfn db (unat i = 16) (cs ! unat i)" using i by (auto simp: wfn_full_iff)
      have "tried db (stored db (unat i = 16) (cs ! unat i) s x) (trie_insert fuel db (cs ! unat i) (p @ [i]) s (valueNode x))"
        using Suc.IH [OF cs(2) i(2), of "p @ [i]"] prems(3,4) is_hash_simps(6) [of "cs ! unat i"] by (auto simp: fullNode s)
      then have "tried db (stored db False n key x) (try_then (trie_insert fuel db (cs ! unat i) (p @ [i]) s (valueNode x)) (\<lambda>(dirty, nn).
              Done (Inr (if \<not> dirty then (False, n) else (True, fullNode (cs[unat i := nn]) newFlag)))))"
        unfolding s fullNode
        by (rule tried_dirty) (rule stored_full [OF w], use i in simp, assumption, rule stored_clean [OF w], use i cs in \<open>simp add: stored_def\<close>)
      then show ?thesis using t i cs unfolding fullNode s trie_insert.simps nth_Cons_0 by (simp add: get_child_def)
    qed
  qed
qed simp

section \<open>Deletion\<close>

definition removed :: "trie_db \<Rightarrow> bool \<Rightarrow> node \<Rightarrow> bytes \<Rightarrow> bool \<times> node \<Rightarrow> bool" where
  "removed db t n key = (\<lambda>(dirty, n'). wfn db t n' \<and>
     (\<forall>k v. holds db n' k v \<longleftrightarrow> k \<noteq> key \<and> holds db n k v) \<and>
     (\<not> dirty \<longrightarrow> (\<forall>v. \<not> holds db n key v)) \<and>
     (branching db n \<longrightarrow> dirty \<longrightarrow> (\<exists>k x f. n' = shortNode k x f) \<or> (\<exists>cs f. n' = fullNode cs f)))"

lemma only_child_after:
  "0 \<le> pos \<Longrightarrow> only_child i pos cs = (if \<forall>c\<in>set cs. c = NilNode then pos else -2)"
  by (induction cs arbitrary: i) auto

lemma several_Cons: "several (c # cs) \<longleftrightarrow> several cs \<or> c \<noteq> NilNode \<and> (\<exists>d\<in>set cs. d \<noteq> NilNode)"
proof
  assume "several (c # cs)"
  then obtain i j where ij: "i < j" "j < length (c # cs)" "(c # cs) ! i \<noteq> NilNode" "(c # cs) ! j \<noteq> NilNode"
    by (auto simp: several_def)
  then obtain j' where j': "j = Suc j'" "j' < length cs" by (cases j) auto
  show "several cs \<or> c \<noteq> NilNode \<and> (\<exists>d\<in>set cs. d \<noteq> NilNode)"
  proof (cases i)
    case 0
    with ij j' show ?thesis by auto
  next
    case (Suc i')
    with ij j' have "several cs" unfolding several_def by (intro exI [of _ i'] exI [of _ j']) simp
    then show ?thesis ..
  qed
next
  assume "several cs \<or> c \<noteq> NilNode \<and> (\<exists>d\<in>set cs. d \<noteq> NilNode)"
  then show "several (c # cs)"
  proof
    assume "several cs"
    then obtain i j where "i < j" "j < length cs" "cs ! i \<noteq> NilNode" "cs ! j \<noteq> NilNode" by (auto simp: several_def)
    then show ?thesis unfolding several_def by (intro exI [of _ "Suc i"] exI [of _ "Suc j"]) simp
  next
    assume *: "c \<noteq> NilNode \<and> (\<exists>d\<in>set cs. d \<noteq> NilNode)"
    then obtain j where "j < length cs" "cs ! j \<noteq> NilNode" by (auto simp: in_set_conv_nth)
    with * show ?thesis unfolding several_def by (intro exI [of _ 0] exI [of _ "Suc j"]) simp
  qed
qed

definition lone :: "nat \<Rightarrow> node list \<Rightarrow> bool" where
  "lone p cs = (p < length cs \<and> cs ! p \<noteq> NilNode \<and> (\<forall>j<length cs. j \<noteq> p \<longrightarrow> cs ! j = NilNode))"

lemma only_child_spec:
  "only_child i (-1) cs = -2 \<and> several cs \<or> only_child i (-1) cs = -1 \<and> (\<forall>c\<in>set cs. c = NilNode) \<or>
    (\<exists>p. only_child i (-1) cs = int (i + p) \<and> lone p cs)"
proof (induction cs arbitrary: i)
  case (Cons c cs)
  show ?case
  proof (cases "c = NilNode")
    case True
    have "lone (Suc p) (c # cs)" if "lone p cs" for p
      using that True by (auto simp: lone_def less_Suc_eq_0_disj)
    moreover have "only_child i (-1) (c # cs) = only_child (Suc i) (-1) cs" using True by simp
    ultimately show ?thesis using Cons.IH [of "Suc i"] True
      by (metis Suc_eq_plus1 add.assoc add.commute plus_1_eq_Suc set_ConsD several_Cons)
  next
    case False
    have "lone 0 (c # cs)" if "\<forall>d\<in>set cs. d = NilNode"
      using that False by (auto simp: lone_def less_Suc_eq_0_disj)
    then show ?thesis using False by (auto simp: only_child_after several_Cons)
  qed
qed simp

text \<open>The short node that replaces a branch with one child.\<close>

lemma short_prepend:
  assumes "wfn db False (shortNode ck n f)" "nibbles k"
  shows "wfn db False (shortNode (k @ ck) n f')"
  using assms by (auto simp: wfn_short hexkey_append)

lemma holds_lone:
  assumes "lone p cs" "length cs = 17"
  shows "holds db (fullNode cs f) k v \<longleftrightarrow> (\<exists>s. k = of_nat p # s \<and> holds db (cs ! p) s v)"
proof (cases k)
  case (Cons a s)
  have p: "p < 17" "unat (of_nat p :: u8) = p" using assms by (auto simp: lone_def unat_of_nat)
  have "cs ! unat a = NilNode" if "unat a < 17" "unat a \<noteq> p" using that assms by (simp add: lone_def)
  moreover have "a = of_nat p \<longleftrightarrow> unat a = p" using p(2) by (simp add: word_unat_eq_iff)
  ultimately show ?thesis using assms(2) p(1) unfolding Cons by (cases "unat a = p") auto
qed simp

lemma lone_collapse:
  assumes "lone p cs" "length cs = 17" "wfn db (p = 16) (cs ! p)"
  shows "tried db (\<lambda>(dirty, m). dirty \<and> wfn db False m \<and> (\<forall>k v. holds db m k v \<longleftrightarrow> holds db (fullNode cs f) k v) \<and> (\<exists>k x f. m = shortNode k x f))
    (try_then (if int p \<noteq> 16 then resolve db (cs ! p) prefix else Done (Inr NilNode)) (\<lambda>cnode.
       Done (Inr (True, case cnode of
         shortNode ck cval _ \<Rightarrow> shortNode (of_int (int p) # ck) cval newFlag
       | _ \<Rightarrow> shortNode [of_int (int p)] (cs ! p) newFlag))))"
proof -
  have p: "p < 17" "cs ! p \<noteq> NilNode" using assms by (auto simp: lone_def)
  note h = holds_lone [OF assms(1,2)]
  show ?thesis
  proof (cases "p = 16")
    case True
    with assms(3) p show ?thesis
      by (auto simp: try_then_def h holds_shortNode wfn_True wfn_short hexkey_def)
  next
    case False
    with p have n: "nibbles [of_nat p]" by (simp add: word_less_nat_alt unat_of_nat)
    have w: "wfn db False (cs ! p)" using assms(3) False by simp
    show ?thesis
    proof (cases "cs ! p")
      case (shortNode ck cval f')
      have "wfn db False (shortNode ([of_nat p] @ ck) cval newFlag)"
        by (rule short_prepend [OF _ n]) (use w shortNode in auto)
      then show ?thesis using False shortNode by (auto simp: resolve_def try_then_def h holds_shortNode)
    next
      case (fullNode cs' f')
      with w n False show ?thesis by (auto simp: resolve_def try_then_def h holds_shortNode wfn_short)
    next
      case (hashNode hsh)
      have wh: "wfn db False (hashNode hsh)" using w hashNode by simp
      have "tried db (\<lambda>(dirty, m). dirty \<and> wfn db False m \<and> (\<forall>k v. holds db m k v \<longleftrightarrow> holds db (fullNode cs f) k v) \<and> (\<exists>k x f. m = shortNode k x f))
          (Done (Inr (True, case c of shortNode ck cval _ \<Rightarrow> shortNode (of_nat p # ck) cval newFlag
             | _ \<Rightarrow> shortNode [of_nat p] (hashNode hsh) newFlag)))"
        if c: "db (BytesToHash hsh) = Done (Some c) \<and> wfn db False c \<and> ((\<exists>k x f. c = shortNode k x f) \<or> (\<exists>cs f. c = fullNode cs f))" for c
      proof (cases c)
        case (shortNode ck cval f')
        have "wfn db False (shortNode ([of_nat p] @ ck) cval newFlag)"
          by (rule short_prepend [OF _ n]) (use c shortNode in auto)
        then show ?thesis using c unfolding shortNode by (auto simp: h hashNode holds_hashNode holds_shortNode)
      next
        case (fullNode cs' f')
        then have "wfn db False (shortNode [of_nat p] (hashNode hsh) newFlag)" using c n wh by (simp add: wfn_short)
        then show ?thesis unfolding fullNode by (auto simp: h hashNode holds_shortNode)
      qed (use c in auto)
      then have "tried db (\<lambda>(dirty, m). dirty \<and> wfn db False m \<and> (\<forall>k v. holds db m k v \<longleftrightarrow> holds db (fullNode cs f) k v) \<and> (\<exists>k x f. m = shortNode k x f))
          (try_then (resolveHash db hsh prefix) (\<lambda>c. Done (Inr (True, case c of shortNode ck cval _ \<Rightarrow> shortNode (of_nat p # ck) cval newFlag
             | _ \<Rightarrow> shortNode [of_nat p] (hashNode hsh) newFlag))))"
        by (rule tried_then [OF tried_resolveHash [OF wh]])
      moreover have "int p \<noteq> 16" using False by simp
      ultimately show ?thesis unfolding hashNode resolve_def node.case of_int_of_nat_eq if_P [OF \<open>int p \<noteq> 16\<close>] by blast
    qed (use w p in auto)
  qed
qed

lemma removed_clean: "wfn db t n \<Longrightarrow> (\<And>v. \<not> holds db n key v) \<Longrightarrow> removed db t n key (False, n)"
  by (auto simp: removed_def)

lemma removed_hash:
  assumes "db (BytesToHash h) = Done (Some c)" "wfn db False c"
  shows "removed db False c key (True, n) \<Longrightarrow> removed db False (hashNode h) key (True, n)"
    "removed db False c key (False, n) \<Longrightarrow> removed db False (hashNode h) key (False, c)"
proof -
  have h: "holds db (hashNode h) k v \<longleftrightarrow> holds db c k v" for k v using assms(1) by (auto simp: holds_hashNode)
  have b: "branching db (hashNode h) \<Longrightarrow> branching db c" using assms(1) by auto
  show "removed db False c key (True, n) \<Longrightarrow> removed db False (hashNode h) key (True, n)"
    using b by (simp add: removed_def h)
  assume "removed db False c key (False, n)"
  then have "\<not> holds db c key v" for v by (simp add: removed_def)
  from removed_clean [OF assms(2) this] show "removed db False (hashNode h) key (False, c)"
    by (simp add: removed_def h)
qed

definition join_short :: "bytes \<Rightarrow> node \<Rightarrow> node" where
  "join_short k child = (case child of shortNode ck cval _ \<Rightarrow> shortNode (k @ ck) cval newFlag | _ \<Rightarrow> shortNode k child newFlag)"

lemma removed_short:
  assumes "wfn db False (shortNode k n f)" "branching db n" "removed db False n s (True, n')"
  shows "removed db False (shortNode k n f) (k @ s) (True, join_short k n')"
proof -
  have k: "nibbles k" "k \<noteq> []" using assms(1,2) branching_ends_key [OF assms(2)] by (auto simp: wfn_short)
  have n': "wfn db False n'" "(\<exists>k x f. n' = shortNode k x f) \<or> (\<exists>cs f. n' = fullNode cs f)"
    "\<And>q v. holds db n' q v \<longleftrightarrow> q \<noteq> s \<and> holds db n q v"
    using assms(2,3) by (auto simp: removed_def)
  have w: "wfn db False (join_short k n')"
    using n'(1,2) k by (auto simp: join_short_def wfn_short hexkey_append)
  have "holds db (join_short k n') q v \<longleftrightarrow> (\<exists>s'. q = k @ s' \<and> holds db n' s' v)" for q v
    using n'(2) by (auto simp: join_short_def holds_shortNode)
  with w show ?thesis by (auto simp: removed_def n'(3) holds_shortNode)
qed

lemma removed_full:
  assumes "wfn db False (fullNode cs f)" "unat i < 17" "removed db (unat i = 16) (cs ! unat i) s (True, n')"
    and cs1: "cs1 = cs[unat i := n']"
  shows "tried db (removed db False (fullNode cs f) (i # s))
    (let pos = only_child 0 (-1) cs1; rest = cs1 ! nat pos
     in if pos \<ge> 0 then
          try_then (if pos \<noteq> 16 then resolve db rest prefix else Done (Inr NilNode)) (\<lambda>cnode.
            Done (Inr (True, case cnode of
              shortNode ck cval _ \<Rightarrow> shortNode (of_int pos # ck) cval newFlag
            | _ \<Rightarrow> shortNode [of_int pos] rest newFlag)))
        else Done (Inr (True, fullNode cs1 newFlag)))"
proof -
  from assms(1) have cs: "length cs = 17" "\<And>j. j < 17 \<Longrightarrow> wfn db (j = 16) (cs ! j)" "several cs"
    by (auto simp: wfn_full_iff)
  then have c1: "length cs1 = 17" "\<And>j. j < 17 \<Longrightarrow> wfn db (j = 16) (cs1 ! j)"
    using assms(2,3) by (auto simp: cs1 nth_list_update removed_def)
  have h: "holds db (fullNode cs1 f') k v \<longleftrightarrow> k \<noteq> i # s \<and> holds db (fullNode cs f) k v" for k v f'
    using assms(2,3) cs(1) by (cases k) (auto simp: cs1 nth_list_update removed_def word_unat_eq_iff [symmetric])
  consider "only_child 0 (-1) cs1 = -2" "several cs1" | "only_child 0 (-1) cs1 = -1" "\<forall>c\<in>set cs1. c = NilNode"
    | p where "only_child 0 (-1) cs1 = int p" "lone p cs1"
    using only_child_spec [of 0 cs1] by auto
  then show ?thesis
  proof cases
    case 1
    then have "wfn db False (fullNode cs1 newFlag)" using c1 by (auto simp: wfn_full_iff)
    then show ?thesis using 1 h by (simp add: removed_def)
  next
    case 2
    obtain a b where "a < b" "b < 17" "cs ! a \<noteq> NilNode" "cs ! b \<noteq> NilNode" using cs(1,3) by (auto simp: several_def)
    then have "\<exists>m<17. m \<noteq> unat i \<and> cs ! m \<noteq> NilNode" by (metis less_trans nat_neq_iff)
    then obtain m where "m < 17" "cs1 ! m \<noteq> NilNode" by (auto simp: cs1)
    then have "cs1 ! m \<in> set cs1" "cs1 ! m \<noteq> NilNode" using c1(1) by auto
    then show ?thesis using 2 by blast
  next
    case 3
    have "p < 17" using 3(2) c1(1) by (simp add: lone_def)
    note lone_collapse [OF 3(2) c1(1) c1(2) [OF this], of newFlag prefix]
    then have "tried db (removed db False (fullNode cs f) (i # s))
        (try_then (if int p \<noteq> 16 then resolve db (cs1 ! p) prefix else Done (Inr NilNode)) (\<lambda>cnode.
           Done (Inr (True, case cnode of
             shortNode ck cval _ \<Rightarrow> shortNode (of_int (int p) # ck) cval newFlag
           | _ \<Rightarrow> shortNode [of_int (int p)] (cs1 ! p) newFlag))))"
      by (rule tried_mono) (auto simp: removed_def h)
    then show ?thesis unfolding 3(1) Let_def nat_int if_P [OF of_nat_0_le_iff] .
  qed
qed

lemma trie_delete_ok:
  assumes "wfn db t n" "rest_key t key" "2 * length key + is_hash n < fuel"
  shows "tried db (removed db t n key) (trie_delete fuel db n p key)"
  using assms
proof (induction fuel arbitrary: n key t p)
  case (Suc fuel)
  note prems = Suc.prems
  show ?case
  proof (cases n)
    case NilNode
    then show ?thesis by (simp add: removed_def)
  next
    case (valueNode y)
    with prems show ?thesis by (auto simp: removed_def rest_key_def)
  next
    case (hashNode h)
    with prems(1) have t: "\<not> t" and w: "wfn db False (hashNode h)" by (auto simp: wfn_hash_iff)
    have "tried db (removed db False (hashNode h) key) (try_then (trie_delete fuel db c p key) (\<lambda>(dirty, nn).
            Done (Inr (if \<not> dirty then (False, c) else (True, nn)))))"
      if c: "db (BytesToHash h) = Done (Some c) \<and> wfn db False c \<and> ((\<exists>k x f. c = shortNode k x f) \<or> (\<exists>cs f. c = fullNode cs f))" for c
    proof -
      have "is_hash c = 0" using c by auto
      then have "tried db (removed db False c key) (trie_delete fuel db c p key)"
        using Suc.IH [of False c key p] c prems t by (simp add: hashNode)
      then show ?thesis by (rule tried_dirty) (use c removed_hash in blast)+
    qed
    then show ?thesis using t unfolding hashNode by simp (rule tried_then [OF tried_resolveHash [OF w]])
  next
    case (shortNode k val fl)
    with prems(1,2) have t: "\<not> t" and w: "wfn db False (shortNode k val fl)" and hk: "hexkey key"
      by (auto simp: wfn_short rest_key_def)
    show ?thesis
    proof (cases "\<exists>s. key = k @ s")
      case False
      then have "prefixLen key k < length k" using prefixLen_le(2) [of key k] by (auto simp: prefixLen_full order_le_less)
      moreover have "\<not> holds db (shortNode k val fl) key v" for v using False by (auto simp: holds_shortNode)
      ultimately show ?thesis using removed_clean [OF w] t unfolding shortNode by simp
    next
      case True
      then obtain s where s: "key = k @ s" by blast
      have m: "prefixLen key k = length k" using True by (simp add: prefixLen_full)
      show ?thesis
      proof (cases "ends_key val")
        case leaf: True
        then have "s = []" using w hk hexkey_prefix [of k s] by (simp add: wfn_short s)
        then show ?thesis using leaf m t w unfolding shortNode
          by (auto simp: s removed_def holds_shortNode ends_key_def wfn_short)
      next
        case ext: False
        have k: "0 < length k" "branching db val" "wfn db False val" "hexkey s"
          using w hk ext by (auto simp: wfn_short s hexkey_append)
        have "2 * length s + is_hash val < fuel"
          using k prems(3) is_hash_simps(6) [of val] unfolding s shortNode is_hash_simps length_append by arith
        then have "tried db (removed db False val s) (trie_delete fuel db val (p @ k) s)"
          using Suc.IH [of False val s "p @ k"] k by (simp add: rest_key_def)
        then have "tried db (removed db False (shortNode k val fl) (k @ s)) (try_then (trie_delete fuel db val (p @ k) s) (\<lambda>(dirty, child).
            Done (Inr (if \<not> dirty then (False, shortNode k val fl) else (True, join_short k child)))))"
          by (rule tried_dirty) (erule removed_short [OF w k(2)], rule removed_clean [OF w], auto simp: removed_def holds_shortNode)
        then show ?thesis using m t k(4) unfolding shortNode s join_short_def by (auto simp: hexkey_def)
      qed
    qed
  next
    case (fullNode cs fl)
    with prems(1,2) have t: "\<not> t" and w: "wfn db False (fullNode cs fl)" and hk: "hexkey key"
      by (auto simp: wfn_full_iff rest_key_def)
    then obtain i s where s: "key = i # s" by (cases key) auto
    from hk have i: "unat i \<le> 16" "rest_key (unat i = 16) s"
      unfolding s hexkey_Cons by (auto simp: word_le_nat_alt word_unat_eq_iff)
    from w have cs: "length cs = 17" "wfn db (unat i = 16) (cs ! unat i)" using i by (auto simp: wfn_full_iff)
    have "tried db (removed db (unat i = 16) (cs ! unat i) s) (trie_delete fuel db (cs ! unat i) (p @ [i]) s)"
      using Suc.IH [OF cs(2) i(2), of "p @ [i]"] prems(3) is_hash_simps(6) [of "cs ! unat i"] by (auto simp: fullNode s)
    then have "tried db (removed db False (fullNode cs fl) (i # s)) (try_then (trie_delete fuel db (cs ! unat i) (p @ [i]) s) (\<lambda>(dirty, nn).
        if \<not> dirty then Done (Inr (False, fullNode cs fl))
        else (let cs1 = cs[unat i := nn]; pos = only_child 0 (-1) cs1; rest = cs1 ! nat pos
          in if pos \<ge> 0 then
               try_then (if pos \<noteq> 16 then resolve db rest p else Done (Inr NilNode)) (\<lambda>cnode.
                 Done (Inr (True, case cnode of
                   shortNode ck cval _ \<Rightarrow> shortNode (of_int pos # ck) cval newFlag
                 | _ \<Rightarrow> shortNode [of_int pos] rest newFlag)))
             else Done (Inr (True, fullNode cs1 newFlag)))))"
    proof (rule tried_dirty2)
      fix nn
      assume "removed db (unat i = 16) (cs ! unat i) s (True, nn)"
      then show "tried db (removed db False (fullNode cs fl) (i # s))
          (let cs1 = cs[unat i := nn]; pos = only_child 0 (-1) cs1; rest = cs1 ! nat pos
           in if pos \<ge> 0 then
                try_then (if pos \<noteq> 16 then resolve db rest p else Done (Inr NilNode)) (\<lambda>cnode.
                  Done (Inr (True, case cnode of
                    shortNode ck cval _ \<Rightarrow> shortNode (of_int pos # ck) cval newFlag
                  | _ \<Rightarrow> shortNode [of_int pos] rest newFlag)))
              else Done (Inr (True, fullNode cs1 newFlag)))"
        using removed_full [OF w _ _ refl, of i s nn p] i(1) unfolding Let_def by simp
    qed (rule removed_clean [OF w], use i cs in \<open>simp add: removed_def\<close>)
    then show ?thesis using t i cs unfolding fullNode s trie_delete.simps node.case key_at_def get_child_def by simp
  qed
qed simp

section \<open>Properties\<close>

text \<open>The map a trie represents, and its invariant.\<close>

definition trie_ok :: "Trie \<Rightarrow> bool" where
  "trie_ok T = wfn (tr_db T) False (root T)"

definition trie_has :: "Trie \<Rightarrow> bytes \<Rightarrow> bytes \<Rightarrow> bool" where
  "trie_has T k v = holds (tr_db T) (root T) (keybytesToHex k) v"

lemma keybytesToHex_inj: "keybytesToHex a = keybytesToHex b \<longleftrightarrow> a = b"
  by (metis pack_keybytes)

lemma key_fuel: "4 * length key + 3 < fuel \<Longrightarrow> 2 * length (keybytesToHex key) + is_hash n < fuel"
  using is_hash_simps(6) [of n] by (simp add: length_keybytesToHex)

lemma rest_key_hex: "rest_key False (keybytesToHex key)"
  by (simp add: rest_key_def hexkey_keybytesToHex)

lemma TryUpdate_ok:
  assumes "trie_ok T" "4 * length key + 3 < fuel"
  shows "\<exists>err T'. TryUpdate fuel key val T = Done (err, T') \<and> trie_ok T' \<and> tr_db T' = tr_db T \<and>
    (case err of
       None \<Rightarrow> \<forall>k v. holds (tr_db T) (root T') k v \<longleftrightarrow>
         (if k = keybytesToHex key then val \<noteq> [] \<and> v = val else holds (tr_db T) (root T) k v)
     | Some e \<Rightarrow> missing (tr_db T) e \<and> root T' = root T)"
proof (cases "val = []")
  case False
  have "tried (tr_db T) (stored (tr_db T) False (root T) (keybytesToHex key) val)
      (trie_insert fuel (tr_db T) (root T) [] (keybytesToHex key) (valueNode val))"
    using assms False key_fuel by (intro trie_insert_ok rest_key_hex) (simp_all add: trie_ok_def)
  then show ?thesis
    by (cases rule: triedE) (use assms(1) False in \<open>auto simp: TryUpdate_def trie_ok_def stored_def\<close>)
next
  case True
  have "tried (tr_db T) (removed (tr_db T) False (root T) (keybytesToHex key))
      (trie_delete fuel (tr_db T) (root T) [] (keybytesToHex key))"
    using assms key_fuel by (intro trie_delete_ok rest_key_hex) (simp_all add: trie_ok_def)
  then show ?thesis
    by (cases rule: triedE) (use assms(1) True in \<open>auto simp: TryUpdate_def trie_ok_def removed_def\<close>)
qed

text \<open>C6. A trie is a map: with fuel beyond four times the length of the key, \<open>TryUpdate\<close> returns and keeps the
  invariant; without an error the trie has the new value under its key, or none if the value is
  empty, and all other keys keep theirs; an error names a node that the database does not have, and
  the trie is as before.\<close>

theorem TryUpdate_refines:
  assumes "trie_ok T" "4 * length key + 3 < fuel"
  shows "\<exists>err T'. TryUpdate fuel key val T = Done (err, T') \<and> trie_ok T' \<and>
    (case err of
       None \<Rightarrow> \<forall>k v. trie_has T' k v \<longleftrightarrow> (if k = key then val \<noteq> [] \<and> v = val else trie_has T k v)
     | Some e \<Rightarrow> missing (tr_db T) e \<and> root T' = root T)"
proof -
  from TryUpdate_ok [OF assms, of val] obtain err T' where
    T': "TryUpdate fuel key val T = Done (err, T')" "trie_ok T'" "tr_db T' = tr_db T" and
    r: "case err of
       None \<Rightarrow> \<forall>k v. holds (tr_db T) (root T') k v \<longleftrightarrow>
         (if k = keybytesToHex key then val \<noteq> [] \<and> v = val else holds (tr_db T) (root T) k v)
     | Some e \<Rightarrow> missing (tr_db T) e \<and> root T' = root T" by blast
  show ?thesis
    by (rule exI [of _ err], rule exI [of _ T']) (use T' r in \<open>simp add: trie_has_def keybytesToHex_inj split: option.splits\<close>)
qed

definition small_trie :: Trie where
  "small_trie = \<lparr> tr_db = \<lambda>h. Done (Some (shortNode [16] (valueNode [3]) newFlag)), root = shortNode [0, 1, 16] (valueNode [7]) newFlag, unhashed = 0 \<rparr>"

lemma small_trie_ok: "trie_ok small_trie"
  by (simp add: trie_ok_def small_trie_def wfn_short hexkey_def)

lemma small_trie_complete: "\<not> missing (tr_db small_trie) e"
  by (cases e) (simp add: small_trie_def)

theorem TryUpdate_refines_witness:
  "\<exists>T'. TryUpdate 8 [2] [9] small_trie = Done (None, T') \<and> trie_has T' [2] [9]"
  using TryUpdate_refines [OF small_trie_ok, of "[2]" 8 "[9]"] by (auto simp: small_trie_complete split: option.splits)

text \<open>C8. \<open>TryGet\<close> returns the value of the key, and the nodes it loads do not change the map.\<close>

theorem TryGet_refines:
  assumes "trie_ok T" "4 * length key + 3 < fuel"
  shows "\<exists>r T'. TryGet fuel key T = Done (r, T') \<and> trie_ok T' \<and> (\<forall>k v. trie_has T' k v \<longleftrightarrow> trie_has T k v) \<and>
    (case r of Inr v \<Rightarrow> \<forall>x. v = Some x \<longleftrightarrow> trie_has T key x | Inl e \<Rightarrow> missing (tr_db T) e)"
proof -
  have "tried (tr_db T) (got (tr_db T) False (root T) (drop 0 (keybytesToHex key))) (tryGet fuel (tr_db T) (root T) (keybytesToHex key) 0)"
    using assms key_fuel by (intro tryGet_ok) (simp_all add: trie_ok_def rest_key_hex)
  then show ?thesis
    by (cases rule: triedE)
      (use assms(1) in \<open>auto simp: TryGet_def trie_ok_def trie_has_def got_def same_node_def\<close>)
qed

theorem TryGet_refines_witness: "\<exists>T'. TryGet 8 [1] small_trie = Done (Inr (Some [7]), T')"
proof -
  have has: "trie_has small_trie [1] [7]" by (simp add: trie_has_def small_trie_def keybytesToHex_def holds_shortNode)
  obtain r T' where "TryGet 8 [1] small_trie = Done (r, T')"
    "case r of Inr v \<Rightarrow> \<forall>x. v = Some x \<longleftrightarrow> trie_has small_trie [1] x | Inl e \<Rightarrow> missing (tr_db small_trie) e"
    using TryGet_refines [OF small_trie_ok, of "[1]" 8] by auto
  then show ?thesis using has by (cases r) (auto simp: small_trie_complete)
qed

text \<open>Deleting a key is updating it with the empty value.\<close>

lemma TryDelete_update: "TryDelete fuel key T = TryUpdate fuel key [] T"
  by (simp add: TryDelete_def TryUpdate_def)

end
