(* ===== verification/Trie_Hash.thy ===== *)
theory Trie_Hash
  imports Trie_Spec Rlp_Raw External
begin

text \<open>
  \<open>trie/hasher.go\<close> and the root hash of \<open>trie/trie.go\<close>: nodes are encoded in RLP with compact
  keys; an encoding of 32 bytes or more is replaced by its hash in the parent. A hash once computed
  is cached in the flags of the node. The theorem says that the root hash depends on the map that
  the trie represents, and not on the history of updates and hash computations that led to it.
  The goroutines of the parallel hasher write to different children; their result is that of the
  sequential loop.
\<close>

section \<open>Encoding\<close>

text \<open>The Go values \<open>rlp.Encode\<close> sees: a short node is a struct with the exported fields Key and
  Val, a full node encodes an array in which \<open>nilValueNode\<close> stands for a missing child.\<close>

fun node_value :: "node \<Rightarrow> go_value" where
  "node_value NilNode = VNilInterface"
| "node_value (valueNode v) = VBytes v"
| "node_value (hashNode h) = VBytes h"
| "node_value (shortNode k v f) = VStruct [VBytes k, node_value v]"
| "node_value (fullNode cs f) = VSlice (map (\<lambda>c. if c = NilNode then VBytes [] else node_value c) cs)"

definition hashData :: "ext \<Rightarrow> bytes \<Rightarrow> bytes" where
  "hashData X data = Hash_Bytes (keccak256 X data)"

text \<open>\<open>shortnodeToHash\<close> and \<open>fullnodeToHash\<close>.\<close>

definition nodeToHash :: "ext \<Rightarrow> node \<Rightarrow> bool \<Rightarrow> node outcome" where
  "nodeToHash X n force =
     and_then (EncodeToBytes (node_value n)) (\<lambda>r. case r of
       Inl err \<Rightarrow> Panicked (Explicit ''encode error'')
     | Inr tmp \<Rightarrow> Done (if length tmp < 32 \<and> \<not> force then n else hashNode (hashData X tmp)))"

section \<open>Hashing\<close>

fun set_hash :: "node \<Rightarrow> node \<Rightarrow> node" where
  "set_hash hashed (shortNode k v f) = shortNode k v (f\<lparr>nf_hash := (case hashed of hashNode h \<Rightarrow> Some h | _ \<Rightarrow> None)\<rparr>)"
| "set_hash hashed (fullNode cs f) = fullNode cs (f\<lparr>nf_hash := (case hashed of hashNode h \<Rightarrow> Some h | _ \<Rightarrow> None)\<rparr>)"
| "set_hash hashed n = n"

text \<open>The size that decreases.\<close>

fun nsize :: "node \<Rightarrow> nat" where
  "nsize (shortNode k v f) = 2 + nsize v"
| "nsize (fullNode cs f) = 2 + sum_list (map (\<lambda>c. 2 + nsize c) cs)"
| "nsize n = 0"

lemma sum_list_take: "sum_list (map (f :: 'a \<Rightarrow> nat) (take m xs)) \<le> sum_list (map f xs)"
  by (metis append_take_drop_id le_add1 map_append sum_list_append)

function (sequential) hasher_hash :: "ext \<Rightarrow> node \<Rightarrow> bool \<Rightarrow> (node \<times> node) outcome"
  and hashShortNodeChildren :: "ext \<Rightarrow> bytes \<Rightarrow> node \<Rightarrow> nodeFlag \<Rightarrow> (node \<times> node) outcome"
  and hash_children :: "ext \<Rightarrow> node list \<Rightarrow> (node list \<times> node list) outcome" where
  "hasher_hash X n force =
     (case node_cache n of
        (Some h, _) \<Rightarrow> Done (hashNode h, n)
      | (None, _) \<Rightarrow>
          (case n of
             shortNode k val fl \<Rightarrow>
               and_then (hashShortNodeChildren X k val fl) (\<lambda>(collapsed, cached).
                 and_then (nodeToHash X collapsed force) (\<lambda>hashed. Done (hashed, set_hash hashed cached)))
           | fullNode cs fl \<Rightarrow>
               and_then (hash_children X (take 16 cs)) (\<lambda>(cols, cas).
                 and_then (nodeToHash X (fullNode (cols @ drop 16 cs) fl) force) (\<lambda>hashed.
                   Done (hashed, set_hash hashed (fullNode (cas @ drop 16 cs) fl))))
           | NilNode \<Rightarrow> Panicked NilDeref
           | _ \<Rightarrow> Done (n, n)))"
| "hashShortNodeChildren X k val fl =
     and_then (hexToCompact k) (\<lambda>ck. case val of
       fullNode _ _ \<Rightarrow> and_then (hasher_hash X val False) (\<lambda>(col, ca). Done (shortNode ck col fl, shortNode k ca fl))
     | shortNode _ _ _ \<Rightarrow> and_then (hasher_hash X val False) (\<lambda>(col, ca). Done (shortNode ck col fl, shortNode k ca fl))
     | _ \<Rightarrow> Done (shortNode ck val fl, shortNode k val fl))"
| "hash_children X [] = Done ([], [])"
| "hash_children X (child # cs) =
     and_then (if child = NilNode then Done (valueNode [], NilNode) else hasher_hash X child False) (\<lambda>(col, ca).
       and_then (hash_children X cs) (\<lambda>(cols, cas). Done (col # cols, ca # cas)))"
  by pat_completeness auto

termination
proof (relation "measure (\<lambda>x. case x of Inl (X, n, force) \<Rightarrow> nsize n
    | Inr (Inl (X, k, val, fl)) \<Rightarrow> 1 + nsize val | Inr (Inr (X, cs)) \<Rightarrow> 1 + sum_list (map (\<lambda>c. 2 + nsize c) cs))")
qed (auto simp: less_Suc_eq_le sum_list_take)

definition hashRoot :: "ext \<Rightarrow> Trie \<Rightarrow> (node \<times> node \<times> Trie) outcome" where
  "hashRoot X t =
     (if root t = NilNode then Done (hashNode (Hash_Bytes trie_emptyRoot), NilNode, t)
      else and_then (hasher_hash X (root t) True) (\<lambda>(hashed, cached). Done (hashed, cached, t\<lparr>unhashed := 0\<rparr>)))"

definition Trie_Hash :: "ext \<Rightarrow> Trie \<Rightarrow> (hash \<times> Trie) outcome" where
  "Trie_Hash X t =
     and_then (hashRoot X t) (\<lambda>(h, cached, t1). case h of
       hashNode hn \<Rightarrow> Done (BytesToHash hn, t1\<lparr>root := cached\<rparr>)
     | _ \<Rightarrow> Panicked TypeAssertion)"

lemma Trie_Hash_eq:
  "Trie_Hash X t =
     (if root t = NilNode then Done (trie_emptyRoot, t)
      else and_then (hasher_hash X (root t) True) (\<lambda>(hashed, cached).
        case hashed of
          hashNode h \<Rightarrow> Done (BytesToHash h, t\<lparr>root := cached, unhashed := 0\<rparr>)
        | _ \<Rightarrow> Panicked TypeAssertion))"
proof (cases "root t = NilNode")
  case True
  moreover from this have "t\<lparr>root := NilNode\<rparr> = t" by (cases t) simp
  ultimately show ?thesis by (simp add: Trie_Hash_def hashRoot_def)
next
  case False
  then show ?thesis
    by (cases "hasher_hash X (root t) True") (auto simp: Trie_Hash_def hashRoot_def simp del: hasher_hash.simps split: node.split)
qed

section \<open>The shape of a trie is determined by its contents\<close>

fun strip :: "node \<Rightarrow> node" where
  "strip (shortNode k v f) = shortNode k (strip v) newFlag"
| "strip (fullNode cs f) = fullNode (map strip cs) newFlag"
| "strip n = n"

fun loaded :: "node \<Rightarrow> bool" where
  "loaded (shortNode k v f) = loaded v"
| "loaded (fullNode cs f) = (\<forall>c\<in>set cs. loaded c)"
| "loaded (hashNode h) = False"
| "loaded n = True"

definition key_of :: "trie_db \<Rightarrow> node \<Rightarrow> bytes \<Rightarrow> bool" where
  "key_of db n k = (\<exists>v. holds db n k v)"

lemma key_of_simps [simp]:
  "\<not> key_of db NilNode k" "key_of db (valueNode x) k \<longleftrightarrow> k = []"
  "key_of db (shortNode k n f) q \<longleftrightarrow> (\<exists>s. q = k @ s \<and> key_of db n s)"
  "\<not> key_of db (fullNode cs f) []" "key_of db (fullNode cs f) (i # q) \<longleftrightarrow> unat i < length cs \<and> key_of db (cs ! unat i) q"
  by (auto simp: key_of_def holds_shortNode)

lemma loaded_nth: "\<forall>c\<in>set cs. loaded c \<Longrightarrow> i < length cs \<Longrightarrow> loaded (cs ! i)"
  by simp

lemma unat_of_nat_u8: "i < 17 \<Longrightarrow> unat (of_nat i :: u8) = i"
  by (simp add: unat_of_nat)

lemma key_exists: "wfn db t n \<Longrightarrow> loaded n \<Longrightarrow> n \<noteq> NilNode \<Longrightarrow> \<exists>k. key_of db n k"
proof (induction rule: wfn.induct)
  case (wfn_full cs f)
  then obtain i where i: "i < 17" "cs ! i \<noteq> NilNode" by (auto simp: several_def)
  have "loaded (cs ! i)" using wfn_full i by (simp add: loaded_nth)
  with wfn_full.IH [OF i(1)] i(2) obtain q where "key_of db (cs ! i) q" by blast
  then have "key_of db (fullNode cs f) (of_nat i # q)" using i wfn_full.hyps by (simp add: unat_of_nat_u8)
  then show ?case by blast
next
  case (wfn_ext k n f)
  then obtain q where "key_of db n q" by fastforce
  then show ?case by auto
qed auto

lemma full_keys:
  assumes "wfn db False (fullNode cs f)" "loaded (fullNode cs f)"
  shows "\<exists>i q j r. i \<noteq> j \<and> key_of db (fullNode cs f) (i # q) \<and> key_of db (fullNode cs f) (j # r)"
proof -
  from assms(1) have cs: "length cs = 17" "\<And>i. i < 17 \<Longrightarrow> wfn db (i = 16) (cs ! i)" "several cs" by (auto simp: wfn_full_iff)
  have ex: "\<exists>q. key_of db (fullNode cs f) (of_nat i # q)" if "i < 17" "cs ! i \<noteq> NilNode" for i
    using key_exists [OF cs(2) [OF that(1)]] assms(2) that cs(1) by (simp add: unat_of_nat_u8)
  from cs obtain a b where "a < b" "b < 17" "cs ! a \<noteq> NilNode" "cs ! b \<noteq> NilNode" by (auto simp: several_def)
  moreover from this have "of_nat a \<noteq> (of_nat b :: u8)" using unat_of_nat_u8 [of a] unat_of_nat_u8 [of b] by (metis less_trans nat_neq_iff)
  ultimately show ?thesis using ex [of a] ex [of b] by (meson less_trans)
qed

text \<open>Two keys of the branch behind an extension part right after its key.\<close>

lemma ext_keys:
  assumes "wfn db False (shortNode k n f)" "loaded n" "\<not> ends_key n"
  shows "\<exists>i q j r. i \<noteq> j \<and> key_of db (shortNode k n f) (k @ i # q) \<and> key_of db (shortNode k n f) (k @ j # r)"
proof -
  obtain cs g where n: "n = fullNode cs g" using assms by (cases n) (auto simp: wfn_short)
  with assms full_keys [of db cs g] show ?thesis by (simp add: wfn_short)
qed

lemma ext_key_unique:
  assumes "wfn db False (shortNode k n f)" "loaded n" "\<not> ends_key n"
    and "wfn db' False (shortNode k' n' f')" "loaded n'" "\<not> ends_key n'"
    and "\<And>q. key_of db (shortNode k n f) q \<longleftrightarrow> key_of db' (shortNode k' n' f') q"
  shows "k = k'"
proof -
  obtain i q j r where k: "i \<noteq> j" "key_of db (shortNode k n f) (k @ i # q)" "key_of db (shortNode k n f) (k @ j # r)"
    using ext_keys [OF assms(1-3)] by blast
  obtain i' q' j' r' where k': "i' \<noteq> j'" "key_of db' (shortNode k' n' f') (k' @ i' # q')" "key_of db' (shortNode k' n' f') (k' @ j' # r')"
    using ext_keys [OF assms(4-6)] by blast
  from k(2,3) assms(7) obtain u v where u: "k @ i # q = k' @ u" "k @ j # r = k' @ v" by (metis key_of_simps(3))
  from k'(2,3) assms(7) obtain u' v' where u': "k' @ i' # q' = k @ u'" "k' @ j' # r' = k @ v'" by (metis key_of_simps(3))
  from u k(1) have "\<exists>x. k = k' @ x" by (auto simp: append_eq_append_conv2 Cons_eq_append_conv)
  moreover from u' k'(1) have "\<exists>x. k' = k @ x" by (auto simp: append_eq_append_conv2 Cons_eq_append_conv)
  ultimately show ?thesis by auto
qed

lemma strip_unique:
  assumes "wfn db t n" "loaded n" "wfn db' t n'" "loaded n'" "\<And>k v. holds db n k v \<longleftrightarrow> holds db' n' k v"
  shows "strip n = strip n'"
  using assms
proof (induction arbitrary: n' rule: wfn.induct)
  case (wfn_nil t)
  then have "\<not> key_of db' n' k" for k by (simp add: key_of_def)
  then have "n' = NilNode" using key_exists wfn_nil.prems by blast
  then show ?case by simp
next
  case (wfn_value x)
  have "holds db' n' [] x" using wfn_value.prems(4) [of "[]" x] by simp
  with wfn_value.prems have "n' = valueNode x" by (auto simp: wfn_True)
  then show ?case by simp
next
  case (wfn_leaf k x f)
  have h: "holds db' n' q v \<longleftrightarrow> q = k \<and> v = x" for q v
    unfolding wfn_leaf.prems(4) [symmetric] by (auto simp: holds_shortNode)
  have keys: "key_of db' n' q \<longleftrightarrow> q = k" for q unfolding key_of_def h by blast
  show ?case
  proof (cases n')
    case (shortNode k' m f')
    have "ends_key m"
    proof (rule ccontr)
      assume "\<not> ends_key m"
      then obtain i q j r where "i \<noteq> j" "key_of db' n' (k' @ i # q)" "key_of db' n' (k' @ j # r)"
        using ext_keys [of db' k' m f'] wfn_leaf.prems(2,3) unfolding shortNode by auto
      then show False unfolding keys by (metis append_same_eq list.inject same_append_eq)
    qed
    then obtain y where m: "m = valueNode y" by (auto simp: ends_key_def)
    have "holds db' n' k' y" by (simp add: shortNode m holds_shortNode)
    then show ?thesis unfolding h by (simp add: shortNode m)
  next
    case (fullNode cs g)
    then obtain i q j r where "i \<noteq> j" "key_of db' n' (i # q)" "key_of db' n' (j # r)"
      using full_keys [of db' cs g] wfn_leaf.prems(2,3) by auto
    then show ?thesis unfolding keys by (metis list.inject)
  qed (use wfn_leaf.prems(2,3) keys [of k] in auto)
next
  case (wfn_ext k n f)
  have ext: "wfn db False (shortNode k n f)" "\<not> ends_key n" "loaded n"
    using wfn_ext branching_ends_key by (auto intro: wfn.wfn_ext)
  have keys: "key_of db (shortNode k n f) q \<longleftrightarrow> key_of db' n' q" for q using wfn_ext.prems by (simp add: key_of_def)
  obtain i q j r where two: "i \<noteq> j" "key_of db' n' (k @ i # q)" "key_of db' n' (k @ j # r)"
    using ext_keys [OF ext(1,3,2)] unfolding keys by blast
  show ?case
  proof (cases n')
    case (shortNode k' m f')
    have m: "\<not> ends_key m" using two by (auto simp: shortNode ends_key_def)
    have w: "wfn db' False (shortNode k' m f')" "loaded m" using wfn_ext.prems shortNode by auto
    have "k = k'" by (rule ext_key_unique [OF ext(1,3,2) w m]) (use keys shortNode in simp)
    moreover from this wfn_ext.prems have "holds db n s v \<longleftrightarrow> holds db' m s v" for s v
      by (metis holds_short holds_shortNode same_append_eq shortNode)
    then have "strip n = strip m" using wfn_ext.IH ext(3) w m by (auto simp: wfn_short)
    ultimately show ?thesis by (simp add: shortNode)
  next
    case (fullNode cs g)
    with full_keys [of db' cs g] wfn_ext.prems obtain a s b u where ab: "a \<noteq> b" "key_of db' n' (a # s)" "key_of db' n' (b # u)" by auto
    with keys [of "a # s"] keys [of "b # u"] wfn_ext.hyps(1) show ?thesis by (auto simp: Cons_eq_append_conv)
  qed (use two wfn_ext.prems in auto)
next
  case (wfn_full cs f)
  have full: "wfn db False (fullNode cs f)" "loaded (fullNode cs f)" using wfn_full by (auto intro: wfn.wfn_full)
  have keys: "key_of db (fullNode cs f) q \<longleftrightarrow> key_of db' n' q" for q using wfn_full.prems by (simp add: key_of_def)
  obtain i q j r where two: "i \<noteq> j" "key_of db' n' (i # q)" "key_of db' n' (j # r)"
    using full_keys [OF full] unfolding keys by blast
  show ?case
  proof (cases n')
    case (shortNode k' m f')
    then have "k' \<noteq> []" using wfn_full.prems by (simp add: wfn_short)
    with two show ?thesis by (auto simp: shortNode Cons_eq_append_conv)
  next
    case (fullNode cs' g)
    with wfn_full.prems have cs': "length cs' = 17" "\<And>i. i < 17 \<Longrightarrow> wfn db' (i = 16) (cs' ! i)" by (auto simp: wfn_full_iff)
    have "strip (cs ! i) = strip (cs' ! i)" if i: "i < 17" for i
    proof (rule wfn_full.IH [OF i])
      show "loaded (cs ! i)" "loaded (cs' ! i)" using wfn_full fullNode cs' i by auto
      show "holds db (cs ! i) k v \<longleftrightarrow> holds db' (cs' ! i) k v" for k v
        using wfn_full.prems(4) [of "of_nat i # k" v] i wfn_full.hyps(1) cs'(1) unfolding fullNode by (simp add: unat_of_nat_u8)
    qed (use cs' i in auto)
    then have "map strip cs = map strip cs'" using wfn_full.hyps(1) cs'(1) by (intro nth_equalityI) auto
    then show ?thesis by (simp add: fullNode)
  qed (use two wfn_full.prems in auto)
qed auto

section \<open>Cached hashes\<close>

declare hasher_hash.simps [simp del] hashShortNodeChildren.simps [simp del] hash_children.simps [simp del]

text \<open>The results of the hasher up to flags, and the invariant of cached hashes: each is the hash that
  would be computed from scratch.\<close>

definition hashed_of :: "(node \<times> node) outcome \<Rightarrow> node outcome" where
  "hashed_of m = and_then m (\<lambda>(hashed, cached). Done (strip hashed))"

fun cached_hash :: "node \<Rightarrow> bytes option" where
  "cached_hash (shortNode k v f) = nf_hash f"
| "cached_hash (fullNode cs f) = nf_hash f"
| "cached_hash n = None"

definition top_ok :: "ext \<Rightarrow> bool \<Rightarrow> node \<Rightarrow> bool" where
  "top_ok X force n = (\<forall>h. cached_hash n = Some h \<longrightarrow> hashed_of (hasher_hash X (strip n) force) = Done (hashNode h))"

fun flags_ok :: "ext \<Rightarrow> node \<Rightarrow> bool" where
  "flags_ok X (shortNode k v f) = (flags_ok X v \<and> top_ok X False (shortNode k v f))"
| "flags_ok X (fullNode cs f) = ((\<forall>c\<in>set cs. flags_ok X c) \<and> top_ok X False (fullNode cs f))"
| "flags_ok X n = True"

fun children_ok :: "ext \<Rightarrow> node \<Rightarrow> bool" where
  "children_ok X (shortNode k v f) = flags_ok X v"
| "children_ok X (fullNode cs f) = (\<forall>c\<in>set cs. flags_ok X c)"
| "children_ok X n = True"

lemma flags_ok_iff: "flags_ok X n \<longleftrightarrow> children_ok X n \<and> top_ok X False n"
  by (cases n) (auto simp: top_ok_def)

lemma strip_strip [simp]: "strip (strip n) = strip n"
  by (induction n rule: strip.induct) simp_all

lemma strip_NilNode [simp]: "strip n = NilNode \<longleftrightarrow> n = NilNode"
  by (cases n) simp_all

lemma node_value_strip: "node_value (strip n) = node_value n"
  by (induction n rule: strip.induct) (auto simp: comp_def)

lemma nodeToHash_strip:
  "and_then (nodeToHash X (strip n) force) (\<lambda>h. Done (strip h)) = and_then (nodeToHash X n force) (\<lambda>h. Done (strip h))"
  by (cases "EncodeToBytes (node_value n)") (auto simp: nodeToHash_def node_value_strip split: sum.splits)

lemma strip_set_hash [simp]: "strip (set_hash h c) = strip c"
  by (cases c) simp_all

lemma hasher_hash_cached: "cached_hash n = Some h \<Longrightarrow> hasher_hash X n force = Done (hashNode h, n)"
  by (cases n) (simp_all add: hasher_hash.simps)

lemma cached_hash_strip [simp]: "cached_hash (strip n) = None"
  by (cases n) (simp_all add: newFlag_def)

lemma hasher_hash_short:
  "nf_hash fl = None \<Longrightarrow> hasher_hash X (shortNode k val fl) force =
     and_then (hashShortNodeChildren X k val fl) (\<lambda>(collapsed, cached).
       and_then (nodeToHash X collapsed force) (\<lambda>hashed. Done (hashed, set_hash hashed cached)))"
  by (simp add: hasher_hash.simps)

lemma hasher_hash_full:
  "nf_hash fl = None \<Longrightarrow> hasher_hash X (fullNode cs fl) force =
     and_then (hash_children X (take 16 cs)) (\<lambda>(cols, cas).
       and_then (nodeToHash X (fullNode (cols @ drop 16 cs) fl) force) (\<lambda>hashed.
         Done (hashed, set_hash hashed (fullNode (cas @ drop 16 cs) fl))))"
  by (simp add: hasher_hash.simps)

lemma hasher_hash_others:
  "hasher_hash X (valueNode v) force = Done (valueNode v, valueNode v)"
  "hasher_hash X (hashNode v) force = Done (hashNode v, hashNode v)"
  "hasher_hash X NilNode force = Panicked NilDeref"
  by (simp_all add: hasher_hash.simps)

definition hash_spec :: "ext \<Rightarrow> node \<Rightarrow> bool \<Rightarrow> bool" where
  "hash_spec X n force =
     (hashed_of (hasher_hash X n force) = hashed_of (hasher_hash X (strip n) force) \<and>
      (\<forall>h ca. hasher_hash X n force = Done (h, ca) \<longrightarrow> strip ca = strip n \<and> children_ok X ca \<and> top_ok X force ca))"

lemma hash_spec_cached: "cached_hash n = Some h \<Longrightarrow> children_ok X n \<Longrightarrow> top_ok X force n \<Longrightarrow> hash_spec X n force"
  by (auto simp: hash_spec_def hasher_hash_cached top_ok_def hashed_of_def [of "Done _"])

lemma top_ok_set_hash:
  assumes "hasher_hash X n force = Done (hashed, ca)" "hashed_of (hasher_hash X n force) = hashed_of (hasher_hash X (strip n) force)"
    and "strip c = strip n" "ca = set_hash hashed c"
  shows "top_ok X force ca"
proof -
  have strip: "strip (set_hash hashed c) = strip n" using assms(3) by simp
  have "hashed = hashNode h" if "cached_hash ca = Some h" "c = shortNode k v f \<or> c = fullNode cs f" for h k v f cs
    using that assms(4) by (auto split: node.splits)
  moreover have "hashed_of (hasher_hash X (strip ca) force) = Done (strip hashed)"
    using assms(1,2) strip assms(4) by (simp add: hashed_of_def)
  ultimately show ?thesis using assms(4) by (cases c) (auto simp: top_ok_def)
qed

lemma newFlag_no_hash: "nf_hash newFlag = None"
  by (simp add: newFlag_def)

lemma hash_spec_short:
  assumes "nf_hash fl = None"
    and col: "and_then (hashShortNodeChildren X k val fl) (\<lambda>(c, ca). Done (strip c)) =
      and_then (hashShortNodeChildren X k (strip val) newFlag) (\<lambda>(c, ca). Done (strip c))"
    and ca: "\<And>c ca. hashShortNodeChildren X k val fl = Done (c, ca) \<Longrightarrow>
      \<exists>v. ca = shortNode k v fl \<and> strip v = strip val \<and> flags_ok X v"
  shows "hash_spec X (shortNode k val fl) force"
proof -
  let ?h = "\<lambda>m. and_then m (\<lambda>(c, ca). and_then (nodeToHash X c force) (\<lambda>hashed. Done (strip hashed)))"
  have eq: "?h m = and_then (and_then m (\<lambda>(c, ca). Done (strip c))) (\<lambda>c. and_then (nodeToHash X c force) (\<lambda>hashed. Done (strip hashed)))"
    for m :: "(node \<times> node) outcome"
    by (cases m) (auto simp: nodeToHash_strip)
  have hashed: "hashed_of (hasher_hash X (shortNode k v f) force) = ?h (hashShortNodeChildren X k v f)" if "nf_hash f = None" for v f
    using that by (simp add: hasher_hash_short hashed_of_def and_then_assoc case_prod_unfold)
  have same: "hashed_of (hasher_hash X (shortNode k val fl) force) = hashed_of (hasher_hash X (strip (shortNode k val fl)) force)"
    unfolding strip.simps hashed [OF assms(1)] hashed [OF newFlag_no_hash] eq col ..
  have "strip ca = strip (shortNode k val fl) \<and> children_ok X ca \<and> top_ok X force ca"
    if r: "hasher_hash X (shortNode k val fl) force = Done (h, ca)" for h ca
  proof -
    from r obtain c v where v: "hashShortNodeChildren X k val fl = Done (c, shortNode k v fl)" "strip v = strip val" "flags_ok X v"
      "ca = set_hash h (shortNode k v fl)"
      using ca by (auto simp: hasher_hash_short assms(1) and_then_Done_iff)
    then show ?thesis using top_ok_set_hash [OF r same _ v(4)] by simp
  qed
  with same show ?thesis by (simp add: hash_spec_def)
qed

lemma hash_spec_full:
  assumes "nf_hash fl = None" "\<forall>c\<in>set cs. flags_ok X c"
    and col: "and_then (hash_children X (take 16 cs)) (\<lambda>(cols, cas). Done (map strip cols)) =
      and_then (hash_children X (map strip (take 16 cs))) (\<lambda>(cols, cas). Done (map strip cols))"
    and ca: "\<And>cols cas. hash_children X (take 16 cs) = Done (cols, cas) \<Longrightarrow>
      map strip cas = map strip (take 16 cs) \<and> (\<forall>c\<in>set cas. flags_ok X c)"
  shows "hash_spec X (fullNode cs fl) force"
proof -
  let ?h = "\<lambda>cs f m. and_then m (\<lambda>(cols, cas). and_then (nodeToHash X (fullNode (cols @ drop 16 cs) f) force) (\<lambda>hashed. Done (strip hashed)))"
  have eq: "?h cs f m = and_then (and_then m (\<lambda>(cols, cas). Done (map strip cols)))
      (\<lambda>cols. and_then (nodeToHash X (fullNode (cols @ map strip (drop 16 cs)) newFlag) force) (\<lambda>hashed. Done (strip hashed)))"
    for m :: "(node list \<times> node list) outcome" and cs f
    using nodeToHash_strip [of X "fullNode (_ @ drop 16 cs) f" force] by (cases m) auto
  have hashed: "hashed_of (hasher_hash X (fullNode cs f) force) = ?h cs f (hash_children X (take 16 cs))" if "nf_hash f = None" for cs f
    using that by (simp add: hasher_hash_full hashed_of_def and_then_assoc case_prod_unfold)
  have same: "hashed_of (hasher_hash X (fullNode cs fl) force) = hashed_of (hasher_hash X (strip (fullNode cs fl)) force)"
    unfolding strip.simps hashed [OF assms(1)] hashed [OF newFlag_no_hash] eq by (simp add: take_map drop_map comp_def col)
  have "strip ca = strip (fullNode cs fl) \<and> children_ok X ca \<and> top_ok X force ca"
    if r: "hasher_hash X (fullNode cs fl) force = Done (h, ca)" for h ca
  proof -
    from r obtain cols cas where v: "hash_children X (take 16 cs) = Done (cols, cas)" "ca = set_hash h (fullNode (cas @ drop 16 cs) fl)"
      by (auto simp: hasher_hash_full assms(1) and_then_Done_iff)
    then have s: "strip (fullNode (cas @ drop 16 cs) fl) = strip (fullNode cs fl)"
      using ca [of cols cas] by (simp flip: take_map drop_map)
    have "children_ok X ca" using ca [OF v(1)] assms(2) v(2) by (auto dest: in_set_dropD)
    then show ?thesis using top_ok_set_hash [OF r same s v(2)] s v(2) by simp
  qed
  with same show ?thesis by (simp add: hash_spec_def)
qed

text \<open>One turn of the loop over the children.\<close>

definition child_entry :: "ext \<Rightarrow> node \<Rightarrow> (node \<times> node) outcome" where
  "child_entry X child = (if child = NilNode then Done (valueNode [], NilNode) else hasher_hash X child False)"

lemma child_entry_ok:
  assumes "child \<noteq> NilNode \<Longrightarrow> flags_ok X child \<Longrightarrow> hash_spec X child False" "flags_ok X child"
  shows "hashed_of (child_entry X child) = hashed_of (child_entry X (strip child))"
    "child_entry X child = Done (h, ca) \<Longrightarrow> strip ca = strip child \<and> flags_ok X ca"
proof -
  show "hashed_of (child_entry X child) = hashed_of (child_entry X (strip child))"
    using assms by (simp add: child_entry_def hash_spec_def)
  show "strip ca = strip child \<and> flags_ok X ca" if "child_entry X child = Done (h, ca)"
  proof (cases "child = NilNode")
    case True
    with that show ?thesis by (simp add: child_entry_def)
  next
    case False
    with that have "hasher_hash X child False = Done (h, ca)" by (simp add: child_entry_def)
    with assms(1) [OF False assms(2)] show ?thesis unfolding hash_spec_def flags_ok_iff [of X ca] by blast
  qed
qed

lemma hash_children_cols:
  "and_then (hash_children X (child # cs)) (\<lambda>(cols, cas). Done (map strip cols)) =
     and_then (hashed_of (child_entry X child)) (\<lambda>h.
       and_then (and_then (hash_children X cs) (\<lambda>(cols, cas). Done (map strip cols))) (\<lambda>cols. Done (h # cols)))"
  by (simp add: hash_children.simps child_entry_def [symmetric] hashed_of_def and_then_assoc case_prod_unfold)

lemma hash_children_Cons:
  assumes "child \<noteq> NilNode \<Longrightarrow> flags_ok X child \<Longrightarrow> hash_spec X child False"
    and rest: "\<And>h ca. \<forall>c\<in>set cs. flags_ok X c \<Longrightarrow> child_entry X child = Done (h, ca) \<Longrightarrow>
      and_then (hash_children X cs) (\<lambda>(cols, cas). Done (map strip cols)) =
        and_then (hash_children X (map strip cs)) (\<lambda>(cols, cas). Done (map strip cols)) \<and>
      (\<forall>cols cas. hash_children X cs = Done (cols, cas) \<longrightarrow> map strip cas = map strip cs \<and> (\<forall>c\<in>set cas. flags_ok X c))"
  shows "(\<forall>c\<in>set (child # cs). flags_ok X c) \<longrightarrow>
     and_then (hash_children X (child # cs)) (\<lambda>(cols, cas). Done (map strip cols)) =
       and_then (hash_children X (map strip (child # cs))) (\<lambda>(cols, cas). Done (map strip cols)) \<and>
     (\<forall>cols cas. hash_children X (child # cs) = Done (cols, cas) \<longrightarrow>
        map strip cas = map strip (child # cs) \<and> (\<forall>c\<in>set cas. flags_ok X c))"
proof (intro impI conjI allI)
  assume ok: "\<forall>c\<in>set (child # cs). flags_ok X c"
  have entry: "hashed_of (child_entry X child) = hashed_of (child_entry X (strip child))"
    "\<And>h ca. child_entry X child = Done (h, ca) \<Longrightarrow> strip ca = strip child \<and> flags_ok X ca"
    by (rule child_entry_ok; use assms(1) ok in simp)+
  show "and_then (hash_children X (child # cs)) (\<lambda>(cols, cas). Done (map strip cols)) =
      and_then (hash_children X (map strip (child # cs))) (\<lambda>(cols, cas). Done (map strip cols))"
  proof (cases "child_entry X child")
    case (Done r)
    then show ?thesis using rest [of "fst r" "snd r"] ok unfolding list.map hash_children_cols entry(1) by simp
  qed (simp_all add: hash_children_cols entry(1) [symmetric] hashed_of_def [of "Panicked _"] hashed_of_def [of NoFuel])
  fix cols cas
  assume "hash_children X (child # cs) = Done (cols, cas)"
  then obtain h ca cols' cas' where "child_entry X child = Done (h, ca)" "hash_children X cs = Done (cols', cas')" "cas = ca # cas'"
    by (auto simp: hash_children.simps child_entry_def [symmetric] and_then_Done_iff)
  then show "map strip cas = map strip (child # cs)" "\<forall>c\<in>set cas. flags_ok X c"
    using entry(2) rest ok by auto
qed

lemma hasher_ok:
  "children_ok X n \<longrightarrow> top_ok X force n \<longrightarrow> hash_spec X n force"
  "flags_ok X val \<longrightarrow>
     and_then (hashShortNodeChildren X k val fl) (\<lambda>(c, ca). Done (strip c)) =
       and_then (hashShortNodeChildren X k (strip val) newFlag) (\<lambda>(c, ca). Done (strip c)) \<and>
     (\<forall>c ca. hashShortNodeChildren X k val fl = Done (c, ca) \<longrightarrow> (\<exists>v. ca = shortNode k v fl \<and> strip v = strip val \<and> flags_ok X v))"
  "(\<forall>c\<in>set cs. flags_ok X c) \<longrightarrow>
     and_then (hash_children X cs) (\<lambda>(cols, cas). Done (map strip cols)) =
       and_then (hash_children X (map strip cs)) (\<lambda>(cols, cas). Done (map strip cols)) \<and>
     (\<forall>cols cas. hash_children X cs = Done (cols, cas) \<longrightarrow> map strip cas = map strip cs \<and> (\<forall>c\<in>set cas. flags_ok X c))"
proof (induction X n force and X k val fl and X cs rule: hasher_hash_hashShortNodeChildren_hash_children.induct)
  case (1 X n force)
  show ?case
  proof (cases "cached_hash n")
    case None
    show ?thesis
    proof (cases n)
      case (shortNode k val fl)
      with None 1(2) [of None "nf_dirty fl" k val fl] show ?thesis
        by (auto intro!: hash_spec_short)
    next
      case (fullNode cs fl)
      with None 1(1) [of None "nf_dirty fl" cs fl] show ?thesis
        by (auto intro!: hash_spec_full dest: in_set_takeD)
    qed (auto simp: hash_spec_def hasher_hash_others hashed_of_def top_ok_def)
  qed (auto intro: hash_spec_cached)
next
  case (2 X k val fl)
  show ?case
  proof (cases "hexToCompact k")
    case (Done ck)
    show ?thesis
    proof (cases "(\<exists>cs f. val = fullNode cs f) \<or> (\<exists>j v f. val = shortNode j v f)")
      case True
      have short: "hashShortNodeChildren X k v f = and_then (hasher_hash X v False) (\<lambda>(col, ca). Done (shortNode ck col f, shortNode k ca f))"
        if "strip v = strip val" for v f
        using that True Done by (cases v) (auto simp: hashShortNodeChildren.simps)
      have col: "and_then (hashShortNodeChildren X k v f) (\<lambda>(c, ca). Done (strip c)) =
          and_then (hashed_of (hasher_hash X v False)) (\<lambda>c. Done (shortNode ck c newFlag))" if "strip v = strip val" for v f
        unfolding short [OF that] hashed_of_def by (simp add: and_then_assoc case_prod_unfold)
      show ?thesis
      proof (intro impI conjI allI)
        assume "flags_ok X val"
        then have spec: "hash_spec X val False" using True 2(1,2) [OF Done] by (auto simp: flags_ok_iff)
        show "and_then (hashShortNodeChildren X k val fl) (\<lambda>(c, ca). Done (strip c)) =
            and_then (hashShortNodeChildren X k (strip val) newFlag) (\<lambda>(c, ca). Done (strip c))"
          unfolding col [OF refl] col [OF strip_strip] using spec by (simp add: hash_spec_def)
        fix c ca
        assume "hashShortNodeChildren X k val fl = Done (c, ca)"
        then obtain h v where "hasher_hash X val False = Done (h, v)" "ca = shortNode k v fl"
          unfolding short [OF refl] by (auto simp: and_then_Done_iff)
        then show "\<exists>v. ca = shortNode k v fl \<and> strip v = strip val \<and> flags_ok X v"
          using spec by (auto simp: hash_spec_def flags_ok_iff)
      qed
    next
      case False
      then show ?thesis using Done by (cases val) (auto simp: hashShortNodeChildren.simps)
    qed
  qed (simp_all add: hashShortNodeChildren.simps)
next
  case (3 X)
  then show ?case by (simp add: hash_children.simps)
next
  case (4 X child cs)
  show ?case
  proof (rule hash_children_Cons)
    show "hash_spec X child False" if "child \<noteq> NilNode" "flags_ok X child"
      using 4(1) that by (simp add: flags_ok_iff)
    show "and_then (hash_children X cs) (\<lambda>(cols, cas). Done (map strip cols)) =
        and_then (hash_children X (map strip cs)) (\<lambda>(cols, cas). Done (map strip cols)) \<and>
      (\<forall>cols cas. hash_children X cs = Done (cols, cas) \<longrightarrow> map strip cas = map strip cs \<and> (\<forall>c\<in>set cas. flags_ok X c))"
      if "\<forall>c\<in>set cs. flags_ok X c" "child_entry X child = Done (h, ca)" for h ca
      by (rule 4(2) [OF that(2) [unfolded child_entry_def] refl, THEN mp, OF that(1)])
  qed
qed

section \<open>Updates of a loaded trie\<close>

definition clean :: "ext \<Rightarrow> bool \<Rightarrow> node \<Rightarrow> bool" where
  "clean X force n = (loaded n \<and> children_ok X n \<and> top_ok X force n)"

lemma clean_simps [simp]:
  "clean X force NilNode" "clean X force (valueNode x)" "\<not> clean X force (hashNode h)"
  "clean X force (shortNode k v newFlag) \<longleftrightarrow> clean X False v"
  "clean X force (fullNode cs newFlag) \<longleftrightarrow> (\<forall>c\<in>set cs. clean X False c)"
  by (auto simp: clean_def top_ok_def flags_ok_iff newFlag_def)

lemma clean_children:
  "clean X force (shortNode k v f) \<Longrightarrow> clean X False v"
  "clean X force (fullNode cs f) \<Longrightarrow> c \<in> set cs \<Longrightarrow> clean X False c"
  by (auto simp: clean_def flags_ok_iff)

text \<open>\<open>sound P m\<close>: the call does not fail with an error, and a value it returns has \<open>P\<close>.\<close>

definition sound :: "('a \<Rightarrow> bool) \<Rightarrow> 'a tried \<Rightarrow> bool" where
  "sound P m = ((\<forall>e. m \<noteq> Done (Inl e)) \<and> (\<forall>x. m = Done (Inr x) \<longrightarrow> P x))"

lemma sound_simps [simp]:
  "sound P (Done (Inr x)) = P x" "sound P (Panicked p)" "sound P NoFuel"
  by (simp_all add: sound_def)

lemma sound_try: "sound P m \<Longrightarrow> (\<And>x. P x \<Longrightarrow> sound Q (f x)) \<Longrightarrow> sound Q (try_then m f)"
proof (cases m)
  case (Done r)
  then show "sound P m \<Longrightarrow> (\<And>x. P x \<Longrightarrow> sound Q (f x)) \<Longrightarrow> ?thesis"
    by (cases r) (auto simp: sound_def try_then_def)
qed (simp_all add: try_then_def)

lemma sound_and_then: "(\<And>x. m = Done x \<Longrightarrow> sound Q (f x)) \<Longrightarrow> sound Q (and_then m f)"
  by (cases m) simp_all

lemma clean_update: "\<forall>c\<in>set cs. clean X False c \<Longrightarrow> clean X False n \<Longrightarrow> \<forall>c\<in>set (cs[i := n]). clean X False c"
  using set_update_subset_insert [of cs i n] by auto

lemma clean_short_rest: "clean X False v \<Longrightarrow> clean X False (short_rest k v)"
  by (simp add: short_rest_def)

lemma clean_empty_branch: "\<forall>c\<in>set empty_branch. clean X False c"
  by (simp add: empty_branch_def)

lemma get_child_clean: "get_child cs i = Done c \<Longrightarrow> clean X force (fullNode cs f) \<Longrightarrow> clean X False c \<and> (\<forall>c\<in>set cs. clean X False c)"
  by (auto simp: get_child_def clean_children split: if_splits)

lemma set_child_clean: "set_child cs i n = Done cs' \<Longrightarrow> \<forall>c\<in>set cs. clean X False c \<Longrightarrow> clean X False n \<Longrightarrow> \<forall>c\<in>set cs'. clean X False c"
  by (auto simp: set_child_def split: if_splits dest: clean_update)

lemma sound_insert_NilNode: "clean X False v \<Longrightarrow> sound (\<lambda>(d, n'). clean X False n') (trie_insert fuel db NilNode p k v)"
  using insert_NilNode [of fuel db p k v] by (cases fuel) (simp_all add: clean_short_rest)

lemma split_clean:
  assumes "clean X False v" "clean X False w"
  shows "sound (\<lambda>(d, n'). clean X force n')
    (try_then (trie_insert fuel db NilNode p1 k1 v) (\<lambda>(_, c1).
       and_then (set_child empty_branch i c1) (\<lambda>cs1. and_then (key_at key m) (\<lambda>j.
         try_then (trie_insert fuel db NilNode p2 k2 w) (\<lambda>(_, c2). and_then (set_child cs1 j c2) (\<lambda>cs2.
           Done (Inr (True, if m = 0 then fullNode cs2 newFlag else shortNode q (fullNode cs2 newFlag) newFlag))))))))"
proof -
  have last: "sound (\<lambda>(d, n'). clean X force n')
      (Done (Inr (True, if m = 0 then fullNode cs2 newFlag else shortNode q (fullNode cs2 newFlag) newFlag)))"
    if "clean X False c1" "set_child empty_branch i c1 = Done cs1" "clean X False c2" "set_child cs1 j c2 = Done cs2" for c1 cs1 j c2 cs2
    using set_child_clean [OF that(4) set_child_clean [OF that(2) clean_empty_branch that(1)] that(3)] by simp
  have "sound (\<lambda>(d, n'). clean X force n') (try_then (trie_insert fuel db NilNode p2 k2 w) (\<lambda>(_, c2). and_then (set_child cs1 j c2) (\<lambda>cs2.
      Done (Inr (True, if m = 0 then fullNode cs2 newFlag else shortNode q (fullNode cs2 newFlag) newFlag)))))"
    if "clean X False c1" "set_child empty_branch i c1 = Done cs1" for c1 cs1 j
    by (rule sound_try [OF sound_insert_NilNode [OF assms(2)]]) (auto intro!: sound_and_then last [OF that] simp del: sound_simps)
  then show ?thesis
    by (intro sound_try [OF sound_insert_NilNode [OF assms(1)]]) (auto intro!: sound_and_then simp del: sound_simps)
qed

lemma insert_clean:
  "clean X force n \<Longrightarrow> sound (\<lambda>(d, n'). clean X force n') (trie_insert fuel db n p key (valueNode x))"
proof (induction fuel arbitrary: force n p key)
  case (Suc fuel)
  show ?case
  proof (cases n)
    case (shortNode k v f)
    have v: "clean X False v" using Suc.prems shortNode by (auto dest: clean_children)
    have val: "clean X False (valueNode x)" by simp
    have match: "sound (\<lambda>(d, n'). clean X force n') (try_then (trie_insert fuel db v p' key' (valueNode x)) (\<lambda>(dirty, nn).
        Done (Inr (if \<not> dirty then (False, shortNode k v f) else (True, shortNode k nn newFlag)))))" for p' key'
      by (rule sound_try [OF Suc.IH [OF v]]) (use Suc.prems shortNode in auto)
    show ?thesis using match split_clean [OF v val] unfolding trie_insert.simps shortNode node.case Let_def by auto
  next
    case (fullNode cs f)
    have "sound (\<lambda>(d, n'). clean X force n') (try_then (trie_insert fuel db c p' key' (valueNode x)) (\<lambda>(dirty, nn).
        Done (Inr (if \<not> dirty then (False, fullNode cs f) else (True, fullNode (cs[unat i := nn]) newFlag)))))"
      if c: "get_child cs i = Done c" for p' key' i c
    proof -
      have all: "clean X False c" "\<forall>c\<in>set cs. clean X False c" using get_child_clean [OF c] Suc.prems fullNode by auto
      show ?thesis
        by (rule sound_try [OF Suc.IH [OF all(1)]]) (use Suc.prems fullNode clean_update [OF all(2)] in auto)
    qed
    then show ?thesis unfolding trie_insert.simps fullNode node.case by (auto intro!: sound_and_then)
  qed (use Suc.prems in \<open>auto split: node.split\<close>)
qed simp

lemma delete_clean:
  "clean X force n \<Longrightarrow> sound (\<lambda>(d, n'). clean X force n') (trie_delete fuel db n p key)"
proof (induction fuel arbitrary: force n p key)
  case (Suc fuel)
  show ?case
  proof (cases n)
    case (shortNode k v f)
    have v: "clean X False v" using Suc.prems shortNode by (auto dest: clean_children)
    have "sound (\<lambda>(d, n'). clean X force n') (try_then (trie_delete fuel db v p' key') (\<lambda>(dirty, child).
        Done (Inr (if \<not> dirty then (False, shortNode k v f)
          else (True, case child of
            shortNode ck cval _ \<Rightarrow> shortNode (k @ ck) cval newFlag
          | _ \<Rightarrow> shortNode k child newFlag)))))" for p' key'
      by (rule sound_try [OF Suc.IH [OF v]]) (use Suc.prems shortNode in \<open>auto split: node.split dest: clean_children\<close>)
    then show ?thesis using Suc.prems unfolding shortNode trie_delete.simps node.case Let_def by auto
  next
    case (fullNode cs f)
    have "sound (\<lambda>(d, n'). clean X force n') (try_then (trie_delete fuel db c p' key') (\<lambda>(dirty, nn).
        if \<not> dirty then Done (Inr (False, fullNode cs f))
        else (let cs1 = cs[unat i := nn]; pos = only_child 0 (-1) cs1; rest = cs1 ! nat pos
          in if pos \<ge> 0 then
               try_then (if pos \<noteq> 16 then resolve db rest p else Done (Inr NilNode)) (\<lambda>cnode.
                 Done (Inr (True, case cnode of
                   shortNode ck cval _ \<Rightarrow> shortNode (of_int pos # ck) cval newFlag
                 | _ \<Rightarrow> shortNode [of_int pos] rest newFlag)))
             else Done (Inr (True, fullNode cs1 newFlag)))))"
      if c: "get_child cs i = Done c" for p' key' i c
    proof (rule sound_try [OF Suc.IH], rule conjunct1 [OF get_child_clean [OF c]], use Suc.prems fullNode in simp, clarify)
      fix dirty nn
      assume nn: "clean X False nn"
      let ?cs = "cs[unat i := nn]" and ?pos = "only_child 0 (-1) (cs[unat i := nn])"
      have "\<forall>c\<in>set cs. clean X False c" using get_child_clean [OF c] Suc.prems fullNode by auto
      then have all: "\<forall>c\<in>set ?cs. clean X False c" using nn by (rule clean_update)
      have "clean X False (?cs ! nat ?pos)" if "0 \<le> ?pos"
        using only_child_spec [of 0 ?cs] that all by (auto simp: lone_def)
      then have collapse: "sound (\<lambda>(d, n'). clean X force n')
          (try_then (if ?pos \<noteq> 16 then resolve db (?cs ! nat ?pos) p else Done (Inr NilNode)) (\<lambda>cnode.
             Done (Inr (True, case cnode of
               shortNode ck cval _ \<Rightarrow> shortNode (of_int ?pos # ck) cval newFlag
             | _ \<Rightarrow> shortNode [of_int ?pos] (?cs ! nat ?pos) newFlag))))" if "0 \<le> ?pos"
        using that by (cases "?cs ! nat ?pos") (auto simp: resolve_def try_then_def dest: clean_children)
      then show "sound (\<lambda>(d, n'). clean X force n')
          (if \<not> dirty then Done (Inr (False, fullNode cs f))
           else (let cs1 = ?cs; pos = only_child 0 (-1) cs1; rest = cs1 ! nat pos
             in if pos \<ge> 0 then
                  try_then (if pos \<noteq> 16 then resolve db rest p else Done (Inr NilNode)) (\<lambda>cnode.
                    Done (Inr (True, case cnode of
                      shortNode ck cval _ \<Rightarrow> shortNode (of_int pos # ck) cval newFlag
                    | _ \<Rightarrow> shortNode [of_int pos] rest newFlag)))
                else Done (Inr (True, fullNode cs1 newFlag))))"
        using Suc.prems fullNode all unfolding Let_def by (cases dirty; cases "0 \<le> ?pos") simp_all
    qed
    then show ?thesis unfolding fullNode trie_delete.simps node.case by (auto intro!: sound_and_then)
  qed (use Suc.prems in auto)
qed simp

section \<open>Flags do not matter for the contents\<close>

lemma holds_strip: "holds db (strip n) k v \<longleftrightarrow> holds db n k v"
proof (induction n arbitrary: k rule: strip.induct)
  case (2 cs f)
  then show ?case by (cases k) auto
qed (simp_all add: holds_shortNode)

lemma loaded_strip: "loaded (strip n) = loaded n"
  by (induction n rule: strip.induct) simp_all

lemma ends_key_strip [simp]: "ends_key (strip n) = ends_key n"
  by (cases n) simp_all

lemma branching_strip [simp]: "branching db (strip n) = branching db n"
  by (cases n) simp_all

lemma several_strip: "several (map strip cs) = several cs"
  unfolding several_def by (rule ex_cong1, rule ex_cong1) auto

lemma wfn_strip: "wfn db t (strip n) \<longleftrightarrow> wfn db t n"
proof (induction n arbitrary: t rule: strip.induct)
  case (2 cs f)
  have "(\<forall>i<17. wfn db (i = 16) (map strip cs ! i)) \<longleftrightarrow> (\<forall>i<17. wfn db (i = 16) (cs ! i))" if "length cs = 17"
    using that 2 by simp
  then show ?case by (auto simp: wfn_full_iff several_strip)
qed (simp_all add: wfn_short)

section \<open>Histories\<close>

datatype trie_call = CallUpdate bytes bytes | CallGet bytes | CallHash

primrec trie_calls :: "ext \<Rightarrow> nat \<Rightarrow> trie_call list \<Rightarrow> Trie \<Rightarrow> Trie outcome" where
  "trie_calls X fuel [] T = Done T"
| "trie_calls X fuel (c # cs) T =
     and_then
       (case c of
          CallUpdate k v \<Rightarrow> and_then (TryUpdate fuel k v T) (\<lambda>(err, T'). Done T')
        | CallGet k \<Rightarrow> and_then (TryGet fuel k T) (\<lambda>(r, T'). Done T')
        | CallHash \<Rightarrow> and_then (Trie_Hash X T) (\<lambda>(h, T'). Done T'))
       (trie_calls X fuel cs)"

fun map_call :: "trie_call \<Rightarrow> (bytes \<Rightarrow> bytes option) \<Rightarrow> (bytes \<Rightarrow> bytes option)" where
  "map_call (CallUpdate k v) m = m(k := if v = [] then None else Some v)"
| "map_call c m = m"

definition map_calls :: "trie_call list \<Rightarrow> bytes \<Rightarrow> bytes option" where
  "map_calls cs = fold map_call cs Map.empty"

fun call_fits :: "nat \<Rightarrow> trie_call \<Rightarrow> bool" where
  "call_fits fuel (CallUpdate k v) = (4 * length k + 3 < fuel)"
| "call_fits fuel (CallGet k) = (4 * length k + 3 < fuel)"
| "call_fits fuel CallHash = True"

definition represents :: "ext \<Rightarrow> Trie \<Rightarrow> (bytes \<Rightarrow> bytes option) \<Rightarrow> bool" where
  "represents X T m = (trie_ok T \<and> clean X True (root T) \<and>
     (\<forall>k v. holds (tr_db T) (root T) k v \<longleftrightarrow> (\<exists>b. k = keybytesToHex b \<and> m b = Some v)))"

lemma represents_update:
  assumes "represents X T m" "4 * length k + 3 < fuel" "TryUpdate fuel k v T = Done (err, T')"
  shows "represents X T' (map_call (CallUpdate k v) m)"
proof -
  have c: "clean X True (root T)" using assms(1) by (simp add: represents_def)
  let ?m = "if length v \<noteq> 0 then trie_insert fuel (tr_db T) (root T) [] (keybytesToHex k) (valueNode v)
    else trie_delete fuel (tr_db T) (root T) [] (keybytesToHex k)"
  have "sound (\<lambda>(d, n'). clean X True n') ?m" using insert_clean [OF c] delete_clean [OF c] by simp
  moreover from assms(3) obtain r where "?m = Done r" unfolding TryUpdate_def Let_def by (cases ?m) auto
  ultimately obtain d n where m: "?m = Done (Inr (d, n))" "clean X True n" by (cases r) (auto simp: sound_def)
  have T': "err = None" "root T' = n" using assms(3) unfolding TryUpdate_def Let_def m(1) by auto
  from TryUpdate_ok [OF _ assms(2), of T v] assms(1,3) T'(1)
  have ok: "trie_ok T'" "tr_db T' = tr_db T" and h: "\<And>q w. holds (tr_db T) (root T') q w \<longleftrightarrow>
      (if q = keybytesToHex k then v \<noteq> [] \<and> w = v else holds (tr_db T) (root T) q w)"
    by (auto simp: represents_def)
  have "holds (tr_db T) (root T') q w \<longleftrightarrow> (\<exists>b. q = keybytesToHex b \<and> map_call (CallUpdate k v) m b = Some w)" for q w
    unfolding h using assms(1) by (auto simp: represents_def keybytesToHex_inj)
  with ok m(2) T'(2) show ?thesis unfolding represents_def by simp
qed

lemma tryGet_loaded: "loaded n \<Longrightarrow> sound (\<lambda>(v, n', did). \<not> did) (tryGet fuel db n key pos)"
proof (induction fuel arbitrary: n pos)
  case (Suc fuel)
  show ?case
  proof (cases n)
    case (shortNode k val f)
    with Suc.prems have "sound (\<lambda>(v, n', did). \<not> did) (try_then (tryGet fuel db val key p) (\<lambda>(v, newnode, didResolve).
        Done (Inr (v, if didResolve then shortNode k newnode f else shortNode k val f, didResolve))))" for p
      by (intro sound_try [OF Suc.IH]) auto
    then show ?thesis unfolding tryGet.simps shortNode node.case by simp
  next
    case (fullNode cs f)
    have "sound (\<lambda>(v, n', did). \<not> did) (try_then (tryGet fuel db c key p) (\<lambda>(v, newnode, didResolve).
        Done (Inr (v, if didResolve then fullNode (cs[unat i := newnode]) f else fullNode cs f, didResolve))))"
      if "get_child cs i = Done c" for c p i
    proof (rule sound_try [OF Suc.IH])
      show "loaded c" using that Suc.prems fullNode by (auto simp: get_child_def split: if_splits)
    qed auto
    then show ?thesis unfolding tryGet.simps fullNode node.case by (intro sound_and_then) auto
  qed (use Suc.prems in auto)
qed simp

lemma represents_get:
  assumes "represents X T m" "TryGet fuel k T = Done (r, T')"
  shows "T' = T"
proof -
  have "sound (\<lambda>(v, n', did). \<not> did) (tryGet fuel (tr_db T) (root T) (keybytesToHex k) 0)"
    using assms(1) by (intro tryGet_loaded) (simp add: represents_def clean_def)
  moreover from assms(2) obtain x where "tryGet fuel (tr_db T) (root T) (keybytesToHex k) 0 = Done x"
    by (auto simp: TryGet_def and_then_Done_iff)
  ultimately show ?thesis using assms(2) by (cases x) (auto simp: TryGet_def sound_def)
qed

lemma represents_hash:
  assumes "represents X T m" "Trie_Hash X T = Done (h, T')"
  shows "represents X T' m"
proof (cases "root T = NilNode")
  case True
  then show ?thesis using assms by (simp add: Trie_Hash_eq)
next
  case False
  with assms(2) obtain a b where "hasher_hash X (root T) True = Done (a, b)" by (auto simp: Trie_Hash_eq and_then_Done_iff)
  with assms(2) False obtain hn where hn: "hasher_hash X (root T) True = Done (hashNode hn, root T')" "tr_db T' = tr_db T"
    by (cases a) (auto simp: Trie_Hash_eq)
  have c: "children_ok X (root T)" "top_ok X True (root T)" "loaded (root T)" using assms(1) by (simp_all add: represents_def clean_def)
  with hasher_ok(1) [of X "root T" True] hn(1)
  have s: "strip (root T') = strip (root T)" "children_ok X (root T')" "top_ok X True (root T')" by (auto simp: hash_spec_def)
  have "loaded (root T')" using c(3) s(1) by (metis loaded_strip)
  moreover have "holds db (root T') k v = holds db (root T) k v" "wfn db t (root T') = wfn db t (root T)" for db k v t
    using s(1) by (metis holds_strip, metis wfn_strip)
  ultimately show ?thesis using assms(1) s hn(2) by (simp add: represents_def trie_ok_def clean_def)
qed

lemma trie_calls_represent:
  "represents X T m \<Longrightarrow> \<forall>c\<in>set cs. call_fits fuel c \<Longrightarrow> trie_calls X fuel cs T = Done T' \<Longrightarrow> represents X T' (fold map_call cs m)"
proof (induction cs arbitrary: T m)
  case (Cons c cs)
  then obtain T1 where T1: "trie_calls X fuel cs T1 = Done T'"
    "(case c of CallUpdate k v \<Rightarrow> and_then (TryUpdate fuel k v T) (\<lambda>(err, T'). Done T')
      | CallGet k \<Rightarrow> and_then (TryGet fuel k T) (\<lambda>(r, T'). Done T')
      | CallHash \<Rightarrow> and_then (Trie_Hash X T) (\<lambda>(h, T'). Done T')) = Done T1"
    by (auto simp: and_then_Done_iff)
  have "represents X T1 (map_call c m)"
  proof (cases c)
    case (CallUpdate k v)
    with T1(2) obtain err where "TryUpdate fuel k v T = Done (err, T1)" by (auto simp: and_then_Done_iff)
    from represents_update [OF Cons.prems(1) _ this] Cons.prems(2) show ?thesis unfolding CallUpdate by (simp del: map_call.simps)
  next
    case (CallGet k)
    with T1(2) obtain r where "TryGet fuel k T = Done (r, T1)" by (auto simp: and_then_Done_iff)
    from represents_get [OF Cons.prems(1) this] Cons.prems(1) CallGet show ?thesis by simp
  next
    case CallHash
    with T1(2) obtain h where "Trie_Hash X T = Done (h, T1)" by (auto simp: and_then_Done_iff)
    from represents_hash [OF Cons.prems(1) this] CallHash show ?thesis by simp
  qed
  from Cons.IH [OF this _ T1(1)] Cons.prems(2) show ?case by simp
qed simp

section \<open>Properties\<close>

definition root_hash :: "ext \<Rightarrow> Trie \<Rightarrow> hash outcome" where
  "root_hash X T = and_then (Trie_Hash X T) (\<lambda>(h, T'). Done h)"

definition empty_trie :: "trie_db \<Rightarrow> Trie" where
  "empty_trie db = \<lparr> tr_db = db, root = NilNode, unhashed = 0 \<rparr>"

lemma represents_empty: "represents X (empty_trie db) Map.empty"
  by (simp add: represents_def empty_trie_def trie_ok_def)

lemma root_hash_hashed:
  assumes "represents X T m"
  shows "root_hash X T = (if root T = NilNode then Done trie_emptyRoot else
    and_then (hashed_of (hasher_hash X (strip (root T)) True)) (\<lambda>h. case h of hashNode b \<Rightarrow> Done (BytesToHash b) | _ \<Rightarrow> Panicked TypeAssertion))"
proof -
  have "hash_spec X (root T) True" using hasher_ok(1) assms by (simp add: represents_def clean_def)
  then have "hashed_of (hasher_hash X (strip (root T)) True) = hashed_of (hasher_hash X (root T) True)" by (simp add: hash_spec_def)
  then show ?thesis
    by (cases "hasher_hash X (root T) True") (auto simp: root_hash_def Trie_Hash_eq hashed_of_def split: node.split prod.split)
qed

lemma represents_root_hash:
  assumes "represents X T m" "represents X T' m"
  shows "root_hash X T = root_hash X T'"
proof -
  have "strip (root T) = strip (root T')"
    by (rule strip_unique [where db = "tr_db T" and db' = "tr_db T'" and t = False])
      (use assms in \<open>auto simp: represents_def trie_ok_def clean_def\<close>)
  moreover from this have "root T = NilNode \<longleftrightarrow> root T' = NilNode" by (metis strip_NilNode)
  ultimately show ?thesis using assms by (simp add: root_hash_hashed)
qed

text \<open>C5. The root hash depends on the final map only: two histories of updates, lookups and hash
  computations on an empty trie that lead to the same map lead to the same root hash, whatever
  the order of the updates and whichever hashes were cached on the way.\<close>

theorem root_hash_of_map:
  assumes "\<forall>c\<in>set cs \<union> set cs'. call_fits fuel c" "map_calls cs = map_calls cs'"
    and "trie_calls X fuel cs (empty_trie db) = Done T" "trie_calls X fuel cs' (empty_trie db') = Done T'"
  shows "root_hash X T = root_hash X T'"
proof (rule represents_root_hash)
  show "represents X T (map_calls cs)" unfolding map_calls_def
    by (rule trie_calls_represent [OF represents_empty _ assms(3)]) (use assms(1) in auto)
  show "represents X T' (map_calls cs)" unfolding assms(2) unfolding map_calls_def
    by (rule trie_calls_represent [OF represents_empty _ assms(4)]) (use assms(1) in auto)
qed

lemma one_update:
  assumes "represents X T m" "4 * length k + 3 < fuel"
  obtains T' where "trie_calls X fuel [CallUpdate k v] T = Done T'" "represents X T' (map_call (CallUpdate k v) m)"
proof -
  from assms TryUpdate_ok [of T k fuel v] obtain err T' where u: "TryUpdate fuel k v T = Done (err, T')" by (auto simp: represents_def)
  from that [OF _ represents_update [OF assms this]] u show ?thesis by simp
qed

theorem root_hash_of_map_witness:
  "\<exists>T T'. trie_calls word_ext 8 [CallUpdate [1] [5], CallUpdate [2] [6]] (empty_trie (\<lambda>h. Done None)) = Done T \<and>
     trie_calls word_ext 8 [CallUpdate [2] [6], CallUpdate [1] [5]] (empty_trie (\<lambda>h. Done None)) = Done T' \<and>
     root_hash word_ext T = root_hash word_ext T'"
proof -
  have two: "\<exists>T. trie_calls word_ext 8 [CallUpdate [a] v, CallUpdate [b] w] (empty_trie (\<lambda>h. Done None)) = Done T" for a b v w
  proof -
    obtain T1 where "trie_calls word_ext 8 [CallUpdate [a] v] (empty_trie (\<lambda>h. Done None)) = Done T1"
      and r: "represents word_ext T1 (map_call (CallUpdate [a] v) Map.empty)"
      by (rule one_update [OF represents_empty, of "[a]" 8]) auto
    moreover obtain T2 where "trie_calls word_ext 8 [CallUpdate [b] w] T1 = Done T2"
      by (rule one_update [OF r, of "[b]" 8]) auto
    ultimately show ?thesis by (auto simp: and_then_Done_iff)
  qed
  from two obtain T where T: "trie_calls word_ext 8 [CallUpdate [1] [5], CallUpdate [2] [6]] (empty_trie (\<lambda>h. Done None)) = Done T" by blast
  from two obtain T' where T': "trie_calls word_ext 8 [CallUpdate [2] [6], CallUpdate [1] [5]] (empty_trie (\<lambda>h. Done None)) = Done T'" by blast
  have "map_calls [CallUpdate [1] [5], CallUpdate [2] [6]] = map_calls [CallUpdate [2] [6], CallUpdate [1] [5]]"
    by (simp add: map_calls_def fun_upd_twist)
  from root_hash_of_map [OF _ this T T'] T T' show ?thesis by auto
qed

end
