(* ===== verification/State_Balance.thy ===== *)
theory State_Balance
  imports State_Spec
begin

text \<open>
  The ledger of \<open>core/state\<close>: balance, nonce and code of every account, as a function of the address.
  Each operation of \<open>StateDB\<close> that moves value is shown to implement its update of the ledger: whether
  the account is cached, in the database, deleted or new makes no difference.
\<close>

section \<open>The ledger\<close>

record entry_view =
  ev_balance :: int
  ev_nonce :: u64
  ev_code :: "bytes option"

definition no_account :: entry_view where
  "no_account = \<lparr> ev_balance = 0, ev_nonce = 0, ev_code = None \<rparr>"

definition obj_entry :: "ext \<Rightarrow> 't Database \<Rightarrow> 't stateObject \<Rightarrow> entry_view" where
  "obj_entry X D so =
     \<lparr> ev_balance = acc_Balance (so_data so), ev_nonce = acc_Nonce (so_data so), ev_code = code_view X D so \<rparr>"

definition ledger :: "ext \<Rightarrow> 't Database \<Rightarrow> 't StateDB \<Rightarrow> address \<Rightarrow> entry_view" where
  "ledger X D s a = (case live X D s a of None \<Rightarrow> no_account | Some so \<Rightarrow> obj_entry X D so)"

lemma live_upd:
  assumes "sd_snap s = sd_snap t" "sd_trie s = sd_trie t" "stateObjects t = (stateObjects s)(b \<mapsto> so)" "\<not> deleted so"
  shows "live X D t a = (if a = b then Some so else live X D s a)"
  using lookup_upd [OF assms(1,2,3), of X D a] assms(4) by (simp add: live_def)

lemma live_cong:
  assumes "sd_snap s = sd_snap t" "sd_trie s = sd_trie t" "stateObjects s = stateObjects t"
  shows "live X D s a = live X D t a"
  using lookup_cong [OF assms(1,2), of a X D] assms(3) by (simp add: live_def)

lemma ledger_cong:
  assumes "sd_snap s = sd_snap t" "sd_trie s = sd_trie t" "stateObjects s = stateObjects t"
  shows "ledger X D s = ledger X D t"
  using live_cong [OF assms] by (simp add: ledger_def fun_eq_iff)

lemma live_cached [simp]: "live X D (cached X D b s) a = live X D s a"
  by (simp add: live_def)

lemma ledger_cached [simp]: "ledger X D (cached X D b s) = ledger X D s"
  by (simp add: ledger_def fun_eq_iff)

lemma ledger_write:
  assumes "sd_snap s = sd_snap t" "sd_trie s = sd_trie t" "stateObjects t = (stateObjects s)(a \<mapsto> so)" "\<not> deleted so"
  shows "ledger X D t = (ledger X D s)(a := obj_entry X D so)"
  using live_upd [OF assms] by (simp add: ledger_def fun_eq_iff)

lemma new_account_entry [simp]: "obj_entry X D (new_account X a) = no_account"
  by (simp add: obj_entry_def no_account_def new_account_def newObject_def code_view_def obj_Code_def obj_setNonce_def)

section \<open>The getters read it\<close>

lemma ledger_reads:
  "fst (GetBalance X D a s) = ev_balance (ledger X D s a)" "fst (GetNonce X D a s) = ev_nonce (ledger X D s a)"
  "fst (GetCode X D a s) = ev_code (ledger X D s a)"
  by (simp_all add: GetBalance_def GetNonce_def GetCode_def getStateObject_eq ledger_def no_account_def obj_entry_def
      code_view_def case_prod_unfold Let_def split: option.split)

lemma ledger_kept:
  "ledger X D (snd (GetBalance X D a s)) = ledger X D s" "ledger X D (snd (GetNonce X D a s)) = ledger X D s"
  "ledger X D (snd (Exist X D a s)) = ledger X D s"
  by (simp_all add: GetBalance_def GetNonce_def Exist_def getStateObject_eq Let_def)

lemma Snapshot_keeps: "ledger X D (snd (Snapshot_op s)) = ledger X D s"
  by (rule ledger_cong) (simp_all add: Snapshot_op_def)

lemma GetCode_keeps:
  assumes "wf X D s"
  shows "ledger X D (snd (GetCode X D a s)) = ledger X D s"
proof (cases "live X D s a")
  case None
  then show ?thesis by (simp add: GetCode_def getStateObject_eq)
next
  case (Some so)
  obtain code so1 where c: "obj_Code X D so = (code, so1)" by fastforce
  have sim: "obj_sim X D s so so1" using obj_Code_cached [of X D s so] c by simp
  have a: "so_address so1 = a" using sim live_wf [OF assms Some] by (simp add: obj_sim_def)
  have e: "obj_entry X D so1 = obj_entry X D so" "\<not> deleted so1"
    using sim live_SomeD [OF Some] by (simp_all add: obj_entry_def obj_sim_def)
  have "ledger X D (setStateObject so1 (cached X D a s)) = (ledger X D (cached X D a s))(a := obj_entry X D so1)"
    by (rule ledger_write) (simp_all add: a e)
  moreover have "ledger X D s a = obj_entry X D so1" using Some e by (simp add: ledger_def)
  ultimately have "ledger X D (setStateObject so1 (cached X D a s)) = ledger X D s" by (simp only: ledger_cached fun_upd_idem)
  with Some c show ?thesis by (simp add: GetCode_def getStateObject_eq)
qed

section \<open>The setters update it\<close>

lemma createObject_ledger:
  "ledger X D (snd (snd (createObject X D a s))) = (ledger X D s)(a := no_account)"
proof -
  let ?t = "snd (snd (createObject X D a s))"
  have "sd_snap ?t = sd_snap s" "sd_trie ?t = sd_trie s" "stateObjects ?t = (stateObjects s)(a \<mapsto> new_account X a)"
    by (cases "lookup X D s a"; simp add: createObject_None createObject_Some)+
  then show ?thesis using ledger_write [of s ?t a "new_account X a" X D] by simp
qed

lemma GetOrNew_ledger:
  assumes "GetOrNewStateObject X D a s = (so, s1)"
  shows "ledger X D s1 = ledger X D s" "obj_entry X D so = ledger X D s a" "stateObjects s1 a = Some so" "\<not> deleted so"
    "refund s1 = refund s"
proof -
  have "ledger X D s1 = ledger X D s \<and> obj_entry X D so = ledger X D s a \<and> stateObjects s1 a = Some so \<and> \<not> deleted so \<and>
    refund s1 = refund s"
  proof (cases "live X D s a")
    case (Some o1)
    then have "so = o1" "s1 = cached X D a s" using assms by (simp_all add: GetOrNewStateObject_def getStateObject_eq)
    moreover have "ledger X D s a = obj_entry X D o1" using Some by (simp add: ledger_def)
    ultimately show ?thesis using live_SomeD [OF Some] by simp
  next
    case None
    let ?c = "createObject X D a (cached X D a s)"
    have "so = fst ?c \<and> s1 = snd (snd ?c)"
      using None assms by (auto simp: GetOrNewStateObject_def getStateObject_eq case_prod_unfold Let_def)
    moreover have "refund (snd (snd ?c)) = refund s"
      by (cases "lookup X D s a"; simp add: createObject_None createObject_Some)
    moreover have "ledger X D s a = no_account" using None by (simp add: ledger_def)
    moreover from this have "ledger X D (snd (snd ?c)) = ledger X D s"
      by (simp only: createObject_ledger ledger_cached fun_upd_idem)
    ultimately show ?thesis
      using createObject_new [of X D a "cached X D a s"] by (simp only: new_account_entry new_account_wf option.inject not_False_eq_True)
  qed
  then show "ledger X D s1 = ledger X D s" "obj_entry X D so = ledger X D s a" "stateObjects s1 a = Some so" "\<not> deleted so"
    "refund s1 = refund s" by blast+
qed

definition move :: "address \<Rightarrow> int \<Rightarrow> (address \<Rightarrow> entry_view) \<Rightarrow> address \<Rightarrow> entry_view" where
  "move a v l = l(a := (l a)\<lparr>ev_balance := ev_balance (l a) + v\<rparr>)"

lemma move_0 [simp]: "move a 0 l = l"
  by (simp add: move_def)

lemma move_entry [simp]:
  "ev_balance (move a v l b) = ev_balance (l b) + (if a = b then v else 0)" "ev_nonce (move a v l b) = ev_nonce (l b)"
  "ev_code (move a v l b) = ev_code (l b)"
  by (simp_all add: move_def)

lemma obj_SetBalance_ledger:
  assumes "so_address so = a" "\<not> deleted so" "obj_entry X D so = ledger X D s a"
  shows "ledger X D (obj_SetBalance (acc_Balance (so_data so) + v) so s) = move a v (ledger X D s)"
proof -
  have "ledger X D (obj_SetBalance (acc_Balance (so_data so) + v) so s) =
      (ledger X D s)(a := obj_entry X D (obj_setBalance (acc_Balance (so_data so) + v) so))"
    by (rule ledger_write) (simp_all add: obj_SetBalance_def assms)
  also have "obj_entry X D (obj_setBalance (acc_Balance (so_data so) + v) so) =
      (obj_entry X D so)\<lparr>ev_balance := ev_balance (obj_entry X D so) + v\<rparr>"
    by (simp add: obj_entry_def)
  finally show ?thesis unfolding move_def assms(3) .
qed

text \<open>A well-formed state, and where its accounts stand after \<open>AddBalance\<close>, \<open>SubBalance\<close>, \<open>SetNonce\<close>
  and \<open>CreateAccount\<close>.\<close>

lemma ledger_setters:
  assumes "wf X D s" "addr_hash_inj X"
  shows "ledger X D (AddBalance X D a v s) = move a v (ledger X D s)"
    and "ledger X D (SubBalance X D a v s) = move a (- v) (ledger X D s)"
    and "ledger X D (SetNonce X D a n s) = (ledger X D s)(a := (ledger X D s a)\<lparr>ev_nonce := n\<rparr>)"
proof -
  obtain so s1 where g: "GetOrNewStateObject X D a s = (so, s1)" by fastforce
  note l = GetOrNew_ledger [OF g] and addr = GetOrNew_address [OF assms g]
  have e: "obj_entry X D so = ledger X D s1 a" by (simp only: l)
  note bal = obj_SetBalance_ledger [OF addr l(4) e, unfolded l(1)]
  have "ledger X D (obj_touch so s1) = ledger X D s1" by (rule ledger_cong) (simp_all add: obj_touch_def Let_def)
  then show "ledger X D (AddBalance X D a v s) = move a v (ledger X D s)"
    using bal [of v] l(1) by (simp add: AddBalance_def g obj_AddBalance_def)
  show "ledger X D (SubBalance X D a v s) = move a (- v) (ledger X D s)"
    using bal [of "- v"] l(1) by (simp add: SubBalance_def g obj_SubBalance_def)
  have "ledger X D (obj_SetNonce n so s1) = (ledger X D s1)(a := obj_entry X D (obj_setNonce n so))"
    by (rule ledger_write) (simp_all add: obj_SetNonce_def addr l)
  also have "obj_entry X D (obj_setNonce n so) = (obj_entry X D so)\<lparr>ev_nonce := n\<rparr>"
    by (simp add: obj_entry_def)
  finally show "ledger X D (SetNonce X D a n s) = (ledger X D s)(a := (ledger X D s a)\<lparr>ev_nonce := n\<rparr>)"
    unfolding SetNonce_def g Let_def prod.case l(1,2) .
qed

lemma refund_setters [simp]:
  "refund (AddBalance X D a v s) = refund s" "refund (SubBalance X D a v s) = refund s" "refund (SetNonce X D a n s) = refund s"
proof -
  obtain so s1 where g: "GetOrNewStateObject X D a s = (so, s1)" by fastforce
  note r = GetOrNew_ledger(5) [OF g]
  show "refund (AddBalance X D a v s) = refund s" "refund (SubBalance X D a v s) = refund s" "refund (SetNonce X D a n s) = refund s"
    by (simp_all add: AddBalance_def SubBalance_def SetNonce_def g r obj_AddBalance_def obj_SubBalance_def obj_SetBalance_def
        obj_SetNonce_def obj_touch_def Let_def)
qed

lemma CreateAccount_new:
  assumes "live X D s a = None"
  shows "ledger X D (CreateAccount X D a s) = ledger X D s" "refund (CreateAccount X D a s) = refund s"
proof -
  have "CreateAccount X D a s = snd (snd (createObject X D a s))"
    using assms by (cases "lookup X D s a")
      (auto simp: CreateAccount_def createObject_None createObject_Some live_def split: if_splits)
  moreover have "ledger X D s a = no_account" using assms by (simp add: ledger_def)
  moreover from this have "(ledger X D s)(a := no_account) = ledger X D s" by (rule fun_upd_idem)
  moreover have "refund (snd (snd (createObject X D a s))) = refund s"
    by (cases "lookup X D s a"; simp add: createObject_None createObject_Some)
  ultimately show "ledger X D (CreateAccount X D a s) = ledger X D s" "refund (CreateAccount X D a s) = refund s"
    by (simp_all only: createObject_ledger)
qed

end
