(* ===== verification/Core_Transition.thy ===== *)
theory Core_Transition
  imports Vm_Spec State_Balance
begin

text \<open>
  \<open>core/gaspool.go\<close> and \<open>core/state_transition.go\<close>: the application of a message to the state. Gas is
  taken from the pool of the block and paid by the sender, the call or creation runs, and what is
  left goes back. The field \<open>state\<close> of \<open>StateTransition\<close> is the \<open>StateDB\<close> of its EVM. The theorems
  compose with those of \<open>Vm_Spec\<close>: the gas of a block is accounted for exactly.
\<close>

section \<open>core/gaspool.go\<close>

datatype core_error =
    ErrGasLimitReached
  | ErrNonceTooLow
  | ErrNonceTooHigh
  | ErrInsufficientFunds
  | ErrInsufficientFundsForTransfer
  | ErrIntrinsicGas
  | ErrGasUintOverflow_core

definition AddGas :: "u64 \<Rightarrow> u64 \<Rightarrow> u64 outcome" where
  "AddGas amount gp = (if gp > MaxUint64 - amount then Panicked GasPoolOverflow else Done (gp + amount))"

definition SubGas :: "u64 \<Rightarrow> u64 \<Rightarrow> core_error + u64" where
  "SubGas amount gp = (if gp < amount then Inl ErrGasLimitReached else Inr (gp - amount))"

section \<open>core/state_transition.go\<close>

record Message =
  msg_From :: address
  msg_To :: "address option"
  msg_GasPrice :: int
  msg_Gas :: u64
  msg_Value :: int
  msg_Nonce :: u64
  msg_CheckNonce :: bool
  msg_Data :: bytes

record ExecutionResult =
  UsedGas :: u64
  res_Err :: "evm_error option"
  ReturnData :: bytes

record 't StateTransition =
  st_gp :: u64
  st_msg :: Message
  st_gas :: u64
  st_gasPrice :: int
  st_initialGas :: u64
  st_value :: int
  st_data :: bytes
  st_evm :: "'t EVM"

definition res_Failed :: "ExecutionResult \<Rightarrow> bool" where
  "res_Failed result = (res_Err result \<noteq> None)"

definition res_Return :: "ExecutionResult \<Rightarrow> bytes" where
  "res_Return result = (if res_Err result \<noteq> None then [] else ReturnData result)"

definition res_Revert :: "ExecutionResult \<Rightarrow> bytes" where
  "res_Revert result = (if res_Err result \<noteq> Some ErrExecutionReverted then [] else ReturnData result)"

definition IntrinsicGas :: "bytes \<Rightarrow> bool \<Rightarrow> bool \<Rightarrow> bool \<Rightarrow> core_error + u64" where
  "IntrinsicGas data contractCreation isHomestead isEIP2028 =
     (let gas = (if contractCreation \<and> isHomestead then TxGasContractCreation else TxGas)
      in if length data > 0 then
           (let nz = fold (\<lambda>byt nz. if byt \<noteq> 0 then nz + 1 else nz) data (0 :: u64);
                nonZeroGas = (if isEIP2028 then TxDataNonZeroGasEIP2028 else TxDataNonZeroGasFrontier)
            in if (MaxUint64 - gas) div nonZeroGas < nz then Inl ErrGasUintOverflow_core
               else
                 (let gas = gas + nz * nonZeroGas; z = of_nat (length data) - nz
                  in if (MaxUint64 - gas) div TxDataZeroGas < z then Inl ErrGasUintOverflow_core
                     else Inr (gas + z * TxDataZeroGas)))
         else Inr gas)"

definition NewStateTransition :: "'t EVM \<Rightarrow> Message \<Rightarrow> u64 \<Rightarrow> 't StateTransition" where
  "NewStateTransition evm msg gp =
     \<lparr> st_gp = gp, st_msg = msg, st_gas = 0, st_gasPrice = msg_GasPrice msg, st_initialGas = 0,
       st_value = msg_Value msg, st_data = msg_Data msg, st_evm = evm \<rparr>"

definition st_to :: "'t StateTransition \<Rightarrow> address" where
  "st_to st = (case msg_To (st_msg st) of None \<Rightarrow> 0 | Some a \<Rightarrow> a)"

definition gasUsed :: "'t StateTransition \<Rightarrow> u64" where
  "gasUsed st = st_initialGas st - st_gas st"

text \<open>A method that returns an error and changes its receiver returns both.\<close>

definition buyGas :: "'t env \<Rightarrow> 't StateTransition \<Rightarrow> core_error option \<times> 't StateTransition" where
  "buyGas E st =
     (let X = env_X E; D = env_D E; msg = st_msg st;
          mgval = int (unat (msg_Gas msg)) * st_gasPrice st;
          (balance, evm1) = lift_state (GetBalance X D (msg_From msg)) (st_evm st);
          st1 = st\<lparr>st_evm := evm1\<rparr>
      in if balance < mgval then (Some ErrInsufficientFunds, st1)
         else case SubGas (msg_Gas msg) (st_gp st1) of
           Inl err \<Rightarrow> (Some err, st1)
         | Inr gp \<Rightarrow>
             (None, st1\<lparr>st_gp := gp, st_gas := st_gas st1 + msg_Gas msg, st_initialGas := msg_Gas msg,
                        st_evm := on_state (SubBalance X D (msg_From msg) mgval) (st_evm st1)\<rparr>))"

definition preCheck :: "'t env \<Rightarrow> 't StateTransition \<Rightarrow> core_error option \<times> 't StateTransition" where
  "preCheck E st =
     (let msg = st_msg st
      in if msg_CheckNonce msg then
           (let (nonce, evm1) = lift_state (GetNonce (env_X E) (env_D E) (msg_From msg)) (st_evm st);
                st1 = st\<lparr>st_evm := evm1\<rparr>
            in if nonce < msg_Nonce msg then (Some ErrNonceTooHigh, st1)
               else if nonce > msg_Nonce msg then (Some ErrNonceTooLow, st1)
               else buyGas E st1)
         else buyGas E st)"

definition refundGas :: "'t env \<Rightarrow> 't StateTransition \<Rightarrow> 't StateTransition outcome" where
  "refundGas E st =
     (let refund = gasUsed st div 2;
          limit = GetRefund (evm_StateDB (st_evm st));
          refund = (if refund > limit then limit else refund);
          st1 = st\<lparr>st_gas := st_gas st + refund\<rparr>;
          remaining = int (unat (st_gas st1)) * st_gasPrice st1;
          st2 = st1\<lparr>st_evm := on_state (AddBalance (env_X E) (env_D E) (msg_From (st_msg st1)) remaining) (st_evm st1)\<rparr>
      in and_then (AddGas (st_gas st2) (st_gp st2)) (\<lambda>gp. Done (st2\<lparr>st_gp := gp\<rparr>)))"

text \<open>The part of \<open>TransitionDb\<close> that runs the message: \<open>Create\<close>, or the nonce and \<open>Call\<close>.\<close>

definition run_message ::
    "nat \<Rightarrow> 't JumpTable \<Rightarrow> 't env \<Rightarrow> 't StateTransition \<Rightarrow> (bytes \<times> evm_error option \<times> 't StateTransition) outcome" where
  "run_message fuel jt E st =
     (let X = env_X E; D = env_D E; msg = st_msg st; sender = AccountRef (msg_From msg)
      in if msg_To msg = None then
           and_then (Create fuel jt E (st_evm st) sender (st_data st) (st_gas st) (st_value st)) (\<lambda>(ret, addr, gas, vmerr, evm, jd).
             Done (ret, vmerr, st\<lparr>st_gas := gas, st_evm := evm\<rparr>))
         else
           (let (nonce, evm1) = lift_state (GetNonce X D (ref_Address sender)) (st_evm st);
                evm2 = on_state (SetNonce X D (msg_From msg) (nonce + 1)) evm1
            in and_then (Call fuel jt E evm2 sender (st_to st) (st_data st) (st_gas st) (st_value st)) (\<lambda>(ret, gas, vmerr, evm, jd).
                 Done (ret, vmerr, st\<lparr>st_gas := gas, st_evm := evm\<rparr>))))"

definition TransitionDb ::
    "nat \<Rightarrow> 't JumpTable \<Rightarrow> 't env \<Rightarrow> 't StateTransition \<Rightarrow> ((core_error + ExecutionResult) \<times> 't StateTransition) outcome" where
  "TransitionDb fuel jt E st =
     (case preCheck E st of
        (Some err, st1) \<Rightarrow> Done (Inl err, st1)
      | (None, st1) \<Rightarrow>
          (let msg = st_msg st1; rules = chainRules E
           in case IntrinsicGas (st_data st1) (msg_To msg = None) (IsHomestead rules) (IsIstanbul rules) of
                Inl err \<Rightarrow> Done (Inl err, st1)
              | Inr gas \<Rightarrow>
                  if st_gas st1 < gas then Done (Inl ErrIntrinsicGas, st1)
                  else
                    (let st2 = st1\<lparr>st_gas := st_gas st1 - gas\<rparr>;
                         (able, evm3) = (if msg_Value msg > 0
                           then lift_state (\<lambda>s. ctx_CanTransfer E s (msg_From msg) (msg_Value msg)) (st_evm st2)
                           else (True, st_evm st2));
                         st3 = st2\<lparr>st_evm := evm3\<rparr>
                     in if \<not> able then Done (Inl ErrInsufficientFundsForTransfer, st3)
                        else
                          and_then (run_message fuel jt E st3) (\<lambda>(ret, vmerr, st4).
                            and_then (refundGas E st4) (\<lambda>st5.
                              let fee = int (unat (gasUsed st5)) * st_gasPrice st5;
                                  st6 = st5\<lparr>st_evm := on_state (AddBalance (env_X E) (env_D E) (Coinbase E) fee) (st_evm st5)\<rparr>
                              in Done (Inr \<lparr> UsedGas = gasUsed st6, res_Err = vmerr, ReturnData = ret \<rparr>, st6))))))"

definition ApplyMessage ::
    "nat \<Rightarrow> 't JumpTable \<Rightarrow> 't env \<Rightarrow> 't EVM \<Rightarrow> Message \<Rightarrow> u64 \<Rightarrow> ((core_error + ExecutionResult) \<times> 't StateTransition) outcome" where
  "ApplyMessage fuel jt E evm msg gp = TransitionDb fuel jt E (NewStateTransition evm msg gp)"

section \<open>Intrinsic gas\<close>

definition intrinsic_total :: "bytes \<Rightarrow> bool \<Rightarrow> bool \<Rightarrow> bool \<Rightarrow> nat" where
  "intrinsic_total data contractCreation isHomestead isEIP2028 =
     (if contractCreation \<and> isHomestead then 53000 else 21000) +
     (if isEIP2028 then 16 else 68) * length (filter (\<lambda>b. b \<noteq> 0) data) + 4 * length (filter (\<lambda>b. b = 0) data)"

lemma fold_nonzero: "fold (\<lambda>byt nz. if byt \<noteq> 0 then nz + 1 else nz) data c = c + of_nat (length (filter (\<lambda>b. b \<noteq> 0) data))"
  for data :: bytes and c :: u64
  by (induction data arbitrary: c) auto

text \<open>The guard \<open>(MaxUint64 - gas) / price < n\<close> is exact.\<close>

lemma guarded_charge:
  fixes gas price n :: u64
  assumes "0 < price"
  shows "(MaxUint64 - gas) div price < n \<longleftrightarrow> 2 ^ 64 \<le> unat gas + unat price * unat n"
    and "unat gas + unat price * unat n < 2 ^ 64 \<Longrightarrow> unat (gas + n * price) = unat gas + unat price * unat n"
proof -
  have g: "unat gas < 2 ^ 64" using u64_less [of gas] by simp
  have m: "unat (MaxUint64 - gas) = 2 ^ 64 - 1 - unat gas"
    using g by (subst unat_sub) (simp_all add: word_le_nat_alt)
  have p: "0 < unat price" using assms by (simp add: word_less_nat_alt)
  have "(MaxUint64 - gas) div price < n \<longleftrightarrow> (2 ^ 64 - 1 - unat gas) div unat price < unat n"
    by (simp only: word_less_nat_alt unat_div m)
  also have "\<dots> \<longleftrightarrow> 2 ^ 64 - 1 - unat gas < unat n * unat price" using p by (simp only: div_less_iff_less_mult)
  also have "\<dots> \<longleftrightarrow> 2 ^ 64 \<le> unat gas + unat price * unat n" using g by (auto simp: mult.commute)
  finally show "(MaxUint64 - gas) div price < n \<longleftrightarrow> 2 ^ 64 \<le> unat gas + unat price * unat n" .
  assume *: "unat gas + unat price * unat n < 2 ^ 64"
  then have "unat (n * price) = unat n * unat price" by (subst unat_mult_lem [THEN iffD1]) (simp_all add: mult.commute)
  with * show "unat (gas + n * price) = unat gas + unat price * unat n"
    by (subst unat_add_le) (simp_all add: mult.commute)
qed

lemma IntrinsicGas_total:
  assumes "length data < 2 ^ 64"
  shows "IntrinsicGas data cc hs eip =
    (let total = intrinsic_total data cc hs eip in if total < 2 ^ 64 then Inr (of_nat total) else Inl ErrGasUintOverflow_core)"
proof (cases "data = []")
  case True
  then show ?thesis by (simp add: IntrinsicGas_def intrinsic_total_def)
next
  case False
  let ?nz = "length (filter (\<lambda>b. b \<noteq> 0) data)" and ?z = "length (filter (\<lambda>b. b = 0) data)"
  define gas :: u64 where "gas = (if cc \<and> hs then 53000 else 21000)"
  define price :: u64 where "price = (if eip then 16 else 68)"
  have len: "?nz + ?z = length data" using sum_length_filter_compl [of "\<lambda>b. b \<noteq> 0" data] by simp
  have nz: "unat (of_nat ?nz :: u64) = ?nz" using assms len by (simp add: unat_of_nat)
  have "unat (of_nat (length data) - of_nat ?nz :: u64) = length data - ?nz"
    using assms len nz by (subst unat_sub) (simp_all add: word_le_nat_alt unat_of_nat)
  then have z: "unat (of_nat (length data) - of_nat ?nz :: u64) = ?z" using len by simp
  have price: "0 < price" by (simp add: price_def)
  have total: "intrinsic_total data cc hs eip = unat gas + unat price * ?nz + 4 * ?z"
    by (simp add: intrinsic_total_def gas_def price_def)
  note c1 = guarded_charge [OF price, of gas "of_nat ?nz", unfolded nz]
  note c2 = guarded_charge [of 4 "gas + of_nat ?nz * price" "of_nat (length data) - of_nat ?nz", unfolded z]
  have code: "IntrinsicGas data cc hs eip =
      (if (MaxUint64 - gas) div price < of_nat ?nz then Inl ErrGasUintOverflow_core
       else if (MaxUint64 - (gas + of_nat ?nz * price)) div 4 < of_nat (length data) - of_nat ?nz then Inl ErrGasUintOverflow_core
       else Inr (gas + of_nat ?nz * price + (of_nat (length data) - of_nat ?nz) * 4))"
    using False unfolding IntrinsicGas_def fold_nonzero Let_def gas_def price_def by simp
  consider "2 ^ 64 \<le> unat gas + unat price * ?nz" | "unat gas + unat price * ?nz < 2 ^ 64" by linarith
  then show ?thesis
  proof cases
    case 1
    then show ?thesis unfolding code c1(1) total by simp
  next
    case 2
    have 4: "unat (4 :: u64) = 4" by simp
    note c1(2) [OF 2]
    show ?thesis
    proof (cases "2 ^ 64 \<le> unat gas + unat price * ?nz + 4 * ?z")
      case True
      then show ?thesis using 2 c2(1) unfolding code c1(1) total c1(2) [OF 2] 4 by simp
    next
      case False
      then have "unat (gas + of_nat ?nz * price + (of_nat (length data) - of_nat ?nz) * 4) = unat gas + unat price * ?nz + 4 * ?z"
        using c2(2) unfolding c1(2) [OF 2] 4 by simp
      then have "gas + of_nat ?nz * price + (of_nat (length data) - of_nat ?nz) * 4 = of_nat (unat gas + unat price * ?nz + 4 * ?z)"
        by (metis of_nat_unat ucast_id)
      then show ?thesis using 2 False c2(1) unfolding code c1(1) total c1(2) [OF 2] 4 by simp
    qed
  qed
qed

section \<open>Gas of a message\<close>

lemma interp_Run_called_out:
  assumes "table_ok E jt" "called_out (interp_Run fuel jt E) gas"
  shows "fuel \<le> unat gas"
  using assms interp_Run_ok [OF assms(1)] unfolding called_out_def ends_def by metis

text \<open>Running a message gives back at most the gas it was given, and it runs out of fuel only with
  less fuel than gas.\<close>

definition ran_message :: "'t StateTransition \<Rightarrow> bytes \<times> evm_error option \<times> 't StateTransition \<Rightarrow> bool" where
  "ran_message st = (\<lambda>(ret, err, st'). st_gas st' \<le> st_gas st \<and> st_gp st' = st_gp st \<and>
     st_initialGas st' = st_initialGas st \<and> st_msg st' = st_msg st \<and> st_gasPrice st' = st_gasPrice st)"

lemma run_message_ok:
  assumes "table_ok E jt"
  shows "ends (ran_message st) (fuel \<le> unat (st_gas st)) (run_message fuel jt E st)"
proof -
  have call: "ends (called_ok E evm gas) (fuel \<le> unat gas) (Call fuel jt E evm clr a inp gas v)" for evm clr a inp gas v
    using calls_called_ok [OF assms, of _ fuel evm clr a inp gas v] evm_Call_only [of "interp_Run fuel jt E" gas E evm clr a inp v]
      interp_Run_called_out [OF assms]
    unfolding ends_def Call_def by auto
  have create: "ends (created_ok E (ref_Address clr) evm gas) (fuel \<le> unat gas) (Create fuel jt E evm clr code gas v)"
    for evm clr code gas v
    using creates_created_ok [OF assms, of _ fuel evm clr code gas v] evm_Create_only [of "interp_Run fuel jt E" gas E evm clr code v]
      interp_Run_called_out [OF assms]
    unfolding ends_def Create_def by auto
  show ?thesis
    unfolding run_message_def Let_def
  proof (rule ends_if)
    show "ends (ran_message st) (fuel \<le> unat (st_gas st))
        (and_then (Create fuel jt E (st_evm st) (AccountRef (msg_From (st_msg st))) (st_data st) (st_gas st) (st_value st))
          (\<lambda>(ret, addr, gas, vmerr, evm, jd). Done (ret, vmerr, st\<lparr>st_gas := gas, st_evm := evm\<rparr>)))"
      by (rule ends_bind [OF create]) (auto simp: created_ok_def ran_message_def Let_def)
  next
    show "ends (ran_message st) (fuel \<le> unat (st_gas st))
        (case lift_state (GetNonce (env_X E) (env_D E) (ref_Address (AccountRef (msg_From (st_msg st))))) (st_evm st) of
          (nonce, evm1) \<Rightarrow> and_then (Call fuel jt E (on_state (SetNonce (env_X E) (env_D E) (msg_From (st_msg st)) (nonce + 1)) evm1)
            (AccountRef (msg_From (st_msg st))) (st_to st) (st_data st) (st_gas st) (st_value st))
          (\<lambda>(ret, gas, vmerr, evm, jd). Done (ret, vmerr, st\<lparr>st_gas := gas, st_evm := evm\<rparr>)))"
      by (rule ends_prod, rule ends_bind [OF call]) (auto simp: called_ok_def ran_message_def)
  qed
qed

text \<open>The transition after \<open>preCheck\<close> has succeeded: the gas of the message is out of the pool and
  in the transition.\<close>

definition bought :: "u64 \<Rightarrow> 't StateTransition \<Rightarrow> bool" where
  "bought gp st \<longleftrightarrow> st_gas st \<le> st_initialGas st \<and> st_initialGas st = msg_Gas (st_msg st) \<and>
     msg_Gas (st_msg st) \<le> gp \<and> st_gp st = gp - msg_Gas (st_msg st)"

lemma preCheck_bought:
  assumes "preCheck E (NewStateTransition evm msg gp) = (None, st)"
  shows "bought gp st \<and> st_msg st = msg \<and> st_gas st = msg_Gas msg \<and> st_data st = msg_Data msg"
  using assms
  by (auto simp: preCheck_def buyGas_def NewStateTransition_def bought_def SubGas_def Let_def not_less
      split: prod.splits if_splits)

text \<open>The refund is at most half of the gas used, so nothing wraps and the pool takes the rest back.\<close>

lemma refundGas_ok:
  assumes "bought gp st"
  obtains st' where "refundGas E st = Done st'" "st_msg st' = st_msg st" "st_initialGas st' = st_initialGas st"
    "st_gas st' = st_gas st + min (gasUsed st div 2) (GetRefund (evm_StateDB (st_evm st)))"
    "st_gas st' \<le> st_initialGas st'" "unat (gasUsed st) \<le> 2 * unat (gasUsed st')"
    "unat (st_gp st') + unat (gasUsed st') = unat gp" "st_gasPrice st' = st_gasPrice st"
    "st_evm st' = on_state (AddBalance (env_X E) (env_D E) (msg_From (st_msg st))
       (int (unat (st_gas st')) * st_gasPrice st)) (st_evm st)"
proof -
  let ?r = "min (gasUsed st div 2) (GetRefund (evm_StateDB (st_evm st)))" and ?g = "unat (msg_Gas (st_msg st))"
  have b: "st_gas st \<le> msg_Gas (st_msg st)" "st_initialGas st = msg_Gas (st_msg st)" "msg_Gas (st_msg st) \<le> gp"
    "st_gp st = gp - msg_Gas (st_msg st)"
    using assms by (auto simp: bought_def)
  have used: "unat (gasUsed st) = ?g - unat (st_gas st)" "unat (st_gas st) \<le> ?g"
    using b by (simp_all add: gasUsed_def unat_sub word_le_nat_alt)
  have r: "unat ?r \<le> unat (gasUsed st) div 2"
    using min.cobounded1 [of "gasUsed st div 2" "GetRefund (evm_StateDB (st_evm st))"] by (simp only: word_le_nat_alt unat_div) simp
  have lt: "unat (st_gas st) + unat ?r \<le> ?g" using used r by linarith
  have sum: "unat (st_gas st + ?r) = unat (st_gas st) + unat ?r"
    using lt u64_less [of "msg_Gas (st_msg st)"] by (intro unat_add_le) simp
  have gp: "unat (st_gp st) = unat gp - ?g" "?g \<le> unat gp" using b by (simp_all add: unat_sub word_le_nat_alt)
  have room: "unat (st_gp st) + unat (st_gas st + ?r) < 2 ^ 64" using gp lt sum u64_less [of gp] by simp
  then have fits: "\<not> MaxUint64 - (st_gas st + ?r) < st_gp st"
    using u64_less [of "st_gas st + ?r"] by (simp add: word_less_nat_alt unat_sub word_le_nat_alt)
  define st' where "st' = st\<lparr>st_gas := st_gas st + ?r, st_gp := st_gp st + (st_gas st + ?r),
    st_evm := on_state (AddBalance (env_X E) (env_D E) (msg_From (st_msg st))
      (int (unat (st_gas st + ?r)) * st_gasPrice st)) (st_evm st)\<rparr>"
  have used': "unat (gasUsed st') = ?g - unat (st_gas st) - unat ?r"
    using lt sum b by (simp add: gasUsed_def st'_def unat_sub word_le_nat_alt)
  have min: "(if GetRefund (evm_StateDB (st_evm st)) < gasUsed st div 2 then GetRefund (evm_StateDB (st_evm st))
    else gasUsed st div 2) = ?r" by (simp add: min_def not_less[symmetric])
  show ?thesis
  proof (rule that [of st'])
    show "refundGas E st = Done st'"
      using fits unfolding refundGas_def Let_def AddGas_def min by (simp add: st'_def)
    show "st_gas st' \<le> st_initialGas st'" using lt sum b by (simp add: st'_def word_le_nat_alt)
    show "unat (gasUsed st) \<le> 2 * unat (gasUsed st')" unfolding used(1) used' using r used by linarith
    have "unat (st_gp st') = unat (st_gp st) + unat (st_gas st + ?r)"
      using room by (simp add: st'_def unat_add_le)
    then show "unat (st_gp st') + unat (gasUsed st') = unat gp" unfolding used' sum using gp lt by linarith
  qed (simp_all add: st'_def)
qed

text \<open>The three ways of \<open>TransitionDb\<close>: the checks reject the message, the message is rejected once its
  gas is bought, or it runs.\<close>

definition message_intrinsic :: "'t env \<Rightarrow> Message \<Rightarrow> core_error + u64" where
  "message_intrinsic E msg = IntrinsicGas (msg_Data msg) (msg_To msg = None) (IsHomestead (chainRules E)) (IsIstanbul (chainRules E))"

definition finish_message ::
    "'t env \<Rightarrow> bytes \<times> evm_error option \<times> 't StateTransition \<Rightarrow> ((core_error + ExecutionResult) \<times> 't StateTransition) outcome" where
  "finish_message E = (\<lambda>(ret, vmerr, st4). and_then (refundGas E st4) (\<lambda>st5.
     let st6 = st5\<lparr>st_evm := on_state (AddBalance (env_X E) (env_D E) (Coinbase E) (int (unat (gasUsed st5)) * st_gasPrice st5)) (st_evm st5)\<rparr>
     in Done (Inr \<lparr> UsedGas = gasUsed st6, res_Err = vmerr, ReturnData = ret \<rparr>, st6)))"

lemma ApplyMessage_cases:
  obtains (rejected) err st1 where "preCheck E (NewStateTransition evm msg gp) = (Some err, st1)"
      "ApplyMessage fuel jt E evm msg gp = Done (Inl err, st1)"
  | (late) err st1 where "err \<in> {ErrIntrinsicGas, ErrGasUintOverflow_core, ErrInsufficientFundsForTransfer}"
      "ApplyMessage fuel jt E evm msg gp = Done (Inl err, st1)" "msg_Gas msg \<le> gp" "st_gp st1 = gp - msg_Gas msg"
  | (runs) g st3 where "message_intrinsic E msg = Inr g" "g \<le> msg_Gas msg" "bought gp st3" "st_msg st3 = msg"
      "st_gas st3 = msg_Gas msg - g"
      "ApplyMessage fuel jt E evm msg gp = and_then (run_message fuel jt E st3) (finish_message E)"
proof (cases "preCheck E (NewStateTransition evm msg gp)")
  case (Pair e st1)
  show thesis
  proof (cases e)
    case (Some err)
    with Pair show ?thesis by (intro rejected) (simp_all add: ApplyMessage_def TransitionDb_def)
  next
    case None
    with Pair have pre: "preCheck E (NewStateTransition evm msg gp) = (None, st1)" by simp
    note b = preCheck_bought [OF pre]
    have late': thesis if "err \<in> {ErrIntrinsicGas, ErrGasUintOverflow_core, ErrInsufficientFundsForTransfer}"
      "ApplyMessage fuel jt E evm msg gp = Done (Inl err, st2)" "st_gp st2 = st_gp st1" for err st2
      using that b by (intro late [of err st2]) (auto simp: bought_def)
    show ?thesis
    proof (cases "message_intrinsic E msg")
      case (Inl err)
      moreover from this have "err = ErrGasUintOverflow_core"
        by (auto simp: message_intrinsic_def IntrinsicGas_def Let_def split: if_splits)
      ultimately show ?thesis
        using b pre by (intro late' [of err st1]) (simp_all add: ApplyMessage_def TransitionDb_def message_intrinsic_def Let_def)
    next
      case (Inr g)
      show ?thesis
      proof (cases "msg_Gas msg < g")
        case True
        then show ?thesis
          using b pre Inr by (intro late' [of ErrIntrinsicGas st1]) (simp_all add: ApplyMessage_def TransitionDb_def message_intrinsic_def Let_def)
      next
        case False
        define st2 where "st2 = st1\<lparr>st_gas := msg_Gas msg - g\<rparr>"
        obtain able evm3 where able: "(if msg_Value msg > 0
            then lift_state (\<lambda>s. ctx_CanTransfer E s (msg_From msg) (msg_Value msg)) (st_evm st2) else (True, st_evm st2)) = (able, evm3)"
          by fastforce
        have eq: "ApplyMessage fuel jt E evm msg gp = (if \<not> able then Done (Inl ErrInsufficientFundsForTransfer, st2\<lparr>st_evm := evm3\<rparr>)
            else and_then (run_message fuel jt E (st2\<lparr>st_evm := evm3\<rparr>)) (finish_message E))"
          using b pre Inr False able
          by (simp add: ApplyMessage_def TransitionDb_def message_intrinsic_def Let_def finish_message_def cong: if_cong split del: if_split flip: st2_def)
        show ?thesis
        proof (cases able)
          case True
          have "msg_Gas msg - g \<le> msg_Gas msg" using False by (simp add: word_le_nat_alt unat_sub not_less)
          with b True False Inr eq show ?thesis
            by (intro runs [of g "st2\<lparr>st_evm := evm3\<rparr>"]) (auto simp: st2_def bought_def)
        qed (use eq in \<open>auto intro: late' simp: st2_def\<close>)
      qed
    qed
  qed
qed

text \<open>The checks that reject a message before its gas is bought change nothing.\<close>

lemma sim_GetBalance: "sim X D s (snd (GetBalance X D a s))"
  by (simp add: GetBalance_def getStateObject_eq sim_cached)

lemma preCheck_rejects:
  assumes "preCheck E (NewStateTransition evm msg gp) = (Some err, st)"
  shows "err \<in> {ErrNonceTooLow, ErrNonceTooHigh, ErrInsufficientFunds, ErrGasLimitReached} \<and> st_gp st = gp \<and>
    sim (env_X E) (env_D E) (evm_StateDB evm) (evm_StateDB (st_evm st))"
proof -
  let ?X = "env_X E" and ?D = "env_D E"
  have buy: "err \<in> {ErrInsufficientFunds, ErrGasLimitReached} \<and> st_gp st = st_gp st0 \<and>
      sim ?X ?D (evm_StateDB (st_evm st0)) (evm_StateDB (st_evm st))" if "buyGas E st0 = (Some err, st)" for st0
    using that sim_GetBalance [of ?X ?D "evm_StateDB (st_evm st0)" "msg_From (st_msg st0)"]
    by (auto simp: buyGas_def SubGas_def Let_def lift_state_def split: prod.splits if_splits)
  show ?thesis
  proof (cases "msg_CheckNonce msg")
    case True
    obtain nonce evm1 where n: "lift_state (GetNonce ?X ?D (msg_From msg)) evm = (nonce, evm1)" by fastforce
    have s1: "sim ?X ?D (evm_StateDB evm) (evm_StateDB evm1)" using sim_reads(1) [OF n] by blast
    let ?st1 = "(NewStateTransition evm msg gp)\<lparr>st_evm := evm1\<rparr>"
    have "(if nonce < msg_Nonce msg then (Some ErrNonceTooHigh, ?st1)
       else if nonce > msg_Nonce msg then (Some ErrNonceTooLow, ?st1) else buyGas E ?st1) = (Some err, st)"
      using assms True n by (simp add: preCheck_def NewStateTransition_def Let_def cong: if_cong split del: if_split)
    with s1 buy [of ?st1] sim_trans [OF s1] show ?thesis
      by (auto simp: NewStateTransition_def split: if_splits)
  next
    case False
    with assms have "buyGas E (NewStateTransition evm msg gp) = (Some err, st)" by (simp add: preCheck_def NewStateTransition_def)
    from buy [OF this] show ?thesis by (auto simp: NewStateTransition_def)
  qed
qed

section \<open>A transfer\<close>

definition accounts :: "'t env \<Rightarrow> 't EVM \<Rightarrow> address \<Rightarrow> entry_view" where
  "accounts E evm = ledger (env_X E) (env_D E) (evm_StateDB evm)"

lemma wf_steps: "steps X D s s' \<Longrightarrow> wf X D s \<Longrightarrow> wf X D s'"
  by (simp add: steps_def)

text \<open>A call to an account without code moves the value and nothing else.\<close>

lemma Call_transfers:
  fixes E0 :: "'t env"
  assumes inj: "addr_hash_inj X" and wf: "wf X D (evm_StateDB evm)" and E: "E = core_env X D E0"
    and depth: "depth evm = 0" and p: "precompile E addr = None"
    and rich: "val \<le> ev_balance (accounts E evm (ref_Address clr))" and code: "code_bytes (ev_code (accounts E evm addr)) = []"
  obtains evm' jd where "Call fuel jt E evm clr addr input gas val = Done ([], gas, None, evm', jd)"
    "accounts E evm' = move addr val (move (ref_Address clr) (- val) (accounts E evm))"
    "wf X D (evm_StateDB evm')" "refund (evm_StateDB evm') = refund (evm_StateDB evm)"
proof -
  let ?s = "evm_StateDB evm" and ?from = "ref_Address clr"
  define s1 where "s1 = (if val \<noteq> 0 then snd (GetBalance X D ?from ?s) else ?s)"
  define s2 where "s2 = snd (Exist X D addr (snd (Snapshot_op s1)))"
  have acc: "accounts E evm = ledger X D ?s" by (simp add: accounts_def E)
  have s1: "wf X D s1" "ledger X D s1 = ledger X D ?s" "refund s1 = refund ?s"
    by (simp_all add: s1_def wf ledger_kept GetBalance_def getStateObject_eq wf_cached)
  have s2: "wf X D s2" "ledger X D s2 = ledger X D ?s" "refund s2 = refund ?s"
    using wf_Snapshot [OF s1(1)] s1(2,3) Snapshot_keeps [of X D s1]
    by (simp_all add: s2_def ledger_kept Exist_def getStateObject_eq wf_cached) (simp_all add: Snapshot_op_def)
  have live: "live X D s2 addr = live X D (snd (Snapshot_op s1)) addr" by (simp add: s2_def Exist_def getStateObject_eq)
  define s4 where "s4 = (if live X D s2 addr = None then CreateAccount X D addr s2 else s2)"
  have s4: "wf X D s4" "ledger X D s4 = ledger X D ?s" "refund s4 = refund ?s"
    using s2 CreateAccount_new [of X D s2 addr] wf_steps [OF steps_CreateAccount [OF inj, of D s2 addr]] by (simp_all add: s4_def)
  define s5 where "s5 = AddBalance X D addr val (SubBalance X D ?from val s4)"
  have w5: "wf X D (SubBalance X D ?from val s4)" "wf X D s5"
    using s4(1) wf_steps [OF steps_setters(1) [OF inj]] wf_steps [OF steps_setters(2) [OF inj]] unfolding s5_def by blast+
  have s5: "ledger X D s5 = move addr val (move ?from (- val) (ledger X D ?s))" "refund s5 = refund ?s"
    unfolding s5_def using s4 by (simp_all add: ledger_setters(1) [OF w5(1) inj] ledger_setters(2) [OF s4(1) inj])
  define s6 where "s6 = snd (GetCode X D addr s5)"
  have w6: "wf X D s6" unfolding s6_def by (rule wf_steps [OF steps_GetCode w5(2)])
  have "ledger X D s6 = ledger X D s5" unfolding s6_def by (rule GetCode_keeps [OF w5(2)])
  moreover have "refund s6 = refund s5" unfolding s6_def
    by (simp add: GetCode_def getStateObject_eq case_prod_unfold Let_def split: option.split)
  ultimately have s6: "ledger X D s6 = move addr val (move ?from (- val) (ledger X D ?s))" "refund s6 = refund ?s"
    using s5 by simp_all
  have code': "code_bytes (fst (GetCode X D addr s5)) = []" using code by (simp add: ledger_reads s5(1) acc)
  have able: "val \<le> fst (GetBalance X D ?from ?s)" using rich by (simp add: ledger_reads acc)
  have e158: "ledger X D s2 = move addr val (move ?from (- val) (ledger X D ?s))" if "val = 0" using that s2(2) by simp
  let ?evm' = "evm\<lparr>evm_StateDB := if live X D s2 addr = None \<and> IsEIP158 (chainRules E) \<and> val = 0 then s2 else s6\<rparr>"
  let ?set = "\<lambda>s. evm\<lparr>evm_StateDB := s\<rparr>"
  have c1: "(if val \<noteq> 0 then lift_state (\<lambda>s. ctx_CanTransfer E s ?from val) evm else (True, evm)) = (True, ?set s1)"
    using able by (simp add: E lift_state_def CanTransfer_def s1_def case_prod_unfold Let_def)
  have c2: "lift_state Snapshot_op (?set s1) = (fst (Snapshot_op s1), ?set (snd (Snapshot_op s1)))"
    by (simp add: lift_state_def case_prod_unfold Let_def)
  have c3: "lift_state (Exist X D addr) (?set (snd (Snapshot_op s1))) = (live X D s2 addr \<noteq> None, ?set s2)"
    unfolding live by (simp add: lift_state_def s2_def Exist_def getStateObject_eq)
  have c4: "(if \<not> live X D s2 addr \<noteq> None then on_state (CreateAccount X D addr) (?set s2) else ?set s2) = ?set s4"
    by (simp add: on_state_def s4_def)
  have c5: "on_state (\<lambda>s. ctx_Transfer E s ?from addr val) (?set s4) = ?set s5"
    by (simp add: E on_state_def Transfer_def s5_def)
  have c6: "lift_state (GetCode X D addr) (?set s5) = (fst (GetCode X D addr s5), ?set s6)"
    by (simp add: lift_state_def s6_def case_prod_unfold Let_def)
  have X: "env_X E = X" "env_D E = D" by (simp_all add: E)
  have "Call fuel jt E evm clr addr input gas val = Done ([], gas, None, ?evm', ref_map clr)"
    unfolding Call_def evm_Call_def Let_def X c1 prod.case c2 c3 c4 c5 c6 p
    using depth code' by (auto simp: end_call_def)
  then show thesis
    by (rule that) (use s2 s6 w6 e158 in \<open>auto simp: accounts_def E\<close>)
qed

text \<open>Buying the gas of a message that passes the checks.\<close>

lemma preCheck_buys:
  fixes E0 :: "'t env"
  assumes inj: "addr_hash_inj X" and wf: "wf X D (evm_StateDB evm)" and E: "E = core_env X D E0"
    and nonce: "ev_nonce (accounts E evm (msg_From msg)) = msg_Nonce msg"
    and rich: "int (unat (msg_Gas msg)) * msg_GasPrice msg \<le> ev_balance (accounts E evm (msg_From msg))"
    and pool: "msg_Gas msg \<le> gp"
  obtains st where "preCheck E (NewStateTransition evm msg gp) = (None, st)"
    "accounts E (st_evm st) = move (msg_From msg) (- (int (unat (msg_Gas msg)) * msg_GasPrice msg)) (accounts E evm)"
    "wf X D (evm_StateDB (st_evm st))" "refund (evm_StateDB (st_evm st)) = refund (evm_StateDB evm)"
    "depth (st_evm st) = depth evm" "st_gasPrice st = msg_GasPrice msg" "st_value st = msg_Value msg"
proof -
  let ?a = "msg_From msg" and ?cost = "int (unat (msg_Gas msg)) * msg_GasPrice msg" and ?s = "evm_StateDB evm"
  define s1 where "s1 = (if msg_CheckNonce msg then snd (GetNonce X D ?a ?s) else ?s)"
  define s2 where "s2 = snd (GetBalance X D ?a s1)"
  have acc: "accounts E evm = ledger X D ?s" by (simp add: accounts_def E)
  have s1: "wf X D s1" "ledger X D s1 = ledger X D ?s" "refund s1 = refund ?s"
    by (simp_all add: s1_def wf ledger_kept GetNonce_def getStateObject_eq wf_cached)
  have s2: "wf X D s2" "ledger X D s2 = ledger X D ?s" "refund s2 = refund ?s"
    using s1 by (simp_all add: s2_def ledger_kept GetBalance_def getStateObject_eq wf_cached)
  have b: "fst (GetBalance X D ?a s1) = ev_balance (ledger X D ?s ?a)" by (simp add: ledger_reads s1)
  have n: "fst (GetNonce X D ?a ?s) = msg_Nonce msg" using nonce by (simp add: ledger_reads acc)
  let ?st = "(NewStateTransition evm msg gp)\<lparr>st_evm := evm\<lparr>evm_StateDB := SubBalance X D ?a ?cost s2\<rparr>,
    st_gp := gp - msg_Gas msg, st_gas := msg_Gas msg, st_initialGas := msg_Gas msg\<rparr>"
  have buy: "buyGas E ((NewStateTransition evm msg gp)\<lparr>st_evm := evm\<lparr>evm_StateDB := s1\<rparr>\<rparr>) = (None, ?st)"
    using rich b pool acc
    by (simp add: buyGas_def E NewStateTransition_def lift_state_def on_state_def SubGas_def s2_def case_prod_unfold Let_def not_less)
  have pre: "preCheck E (NewStateTransition evm msg gp) = (None, ?st)"
  proof (cases "msg_CheckNonce msg")
    case True
    then show ?thesis using buy n
      by (simp add: preCheck_def E NewStateTransition_def lift_state_def s1_def case_prod_unfold Let_def)
  next
    case False
    then show ?thesis using buy by (simp add: preCheck_def s1_def NewStateTransition_def)
  qed
  show thesis
  proof (rule that [OF pre])
    show "wf X D (evm_StateDB (st_evm ?st))" using wf_steps [OF steps_setters(2) [OF inj] s2(1)] by simp
    show "accounts E (st_evm ?st) = move ?a (- ?cost) (accounts E evm)"
      using ledger_setters(2) [OF s2(1) inj, of ?a ?cost] s2(2) by (simp add: accounts_def E)
  qed (simp_all add: s2 NewStateTransition_def)
qed

lemma run_message_transfers:
  fixes E0 :: "'t env"
  assumes inj: "addr_hash_inj X" and wf: "wf X D (evm_StateDB (st_evm st))" and E: "E = core_env X D E0"
    and depth: "depth (st_evm st) = 0" and to: "msg_To (st_msg st) = Some addr" and p: "precompile E addr = None"
    and rich: "st_value st \<le> ev_balance (accounts E (st_evm st) (msg_From (st_msg st)))"
    and code: "code_bytes (ev_code (accounts E (st_evm st) addr)) = []"
  obtains evm' where "run_message fuel jt E st = Done ([], None, st\<lparr>st_evm := evm'\<rparr>)"
    "accounts E evm' = move addr (st_value st) (move (msg_From (st_msg st)) (- st_value st)
       ((accounts E (st_evm st))(msg_From (st_msg st) := (accounts E (st_evm st) (msg_From (st_msg st)))
          \<lparr>ev_nonce := ev_nonce (accounts E (st_evm st) (msg_From (st_msg st))) + 1\<rparr>)))"
    "wf X D (evm_StateDB evm')" "refund (evm_StateDB evm') = refund (evm_StateDB (st_evm st))"
proof -
  let ?evm = "st_evm st" and ?a = "msg_From (st_msg st)" and ?s = "evm_StateDB (st_evm st)"
  define s1 where "s1 = snd (GetNonce X D ?a ?s)"
  define n where "n = ev_nonce (accounts E ?evm ?a)"
  define evm2 where "evm2 = ?evm\<lparr>evm_StateDB := SetNonce X D ?a (n + 1) s1\<rparr>"
  have acc: "accounts E evm = ledger X D (evm_StateDB evm)" for evm :: "'t EVM" by (simp add: accounts_def E)
  have s1: "wf X D s1" "ledger X D s1 = ledger X D ?s" "refund s1 = refund ?s"
    by (simp_all add: s1_def wf ledger_kept) (simp_all add: GetNonce_def getStateObject_eq wf wf_cached)
  have w2: "wf X D (evm_StateDB evm2)" using wf_steps [OF steps_setters(4) [OF inj] s1(1)] by (simp add: evm2_def)
  have a2: "accounts E evm2 = (accounts E ?evm)(?a := (accounts E ?evm ?a)\<lparr>ev_nonce := n + 1\<rparr>)"
    using ledger_setters(3) [OF s1(1) inj] s1(2) by (simp add: acc evm2_def)
  have same: "ev_balance (accounts E evm2 b) = ev_balance (accounts E ?evm b)"
    "ev_code (accounts E evm2 b) = ev_code (accounts E ?evm b)" for b by (simp_all add: a2)
  obtain evm' jd where c: "Call fuel jt E evm2 (AccountRef ?a) addr (st_data st) (st_gas st) (st_value st) =
      Done ([], st_gas st, None, evm', jd)"
    "accounts E evm' = move addr (st_value st) (move ?a (- st_value st) (accounts E evm2))"
    "wf X D (evm_StateDB evm')" "refund (evm_StateDB evm') = refund (evm_StateDB evm2)"
    using Call_transfers [OF inj w2 E, of addr "st_value st" "AccountRef ?a" fuel jt "st_data st" "st_gas st"]
      depth p rich code same by (auto simp: evm2_def)
  have "lift_state (GetNonce X D ?a) ?evm = (n, ?evm\<lparr>evm_StateDB := s1\<rparr>)"
    by (simp add: lift_state_def s1_def n_def acc ledger_reads case_prod_unfold Let_def)
  with c(1) to have "run_message fuel jt E st = Done ([], None, st\<lparr>st_evm := evm'\<rparr>)"
    by (simp add: run_message_def E st_to_def on_state_def evm2_def Let_def)
  from that [OF this] c a2 s1 show thesis by (simp add: evm2_def n_def)
qed

text \<open>The message up to the point where its gas is given back.\<close>

lemma transfer_runs:
  fixes E0 :: "'t env"
  assumes inj: "addr_hash_inj X" and wf: "wf X D (evm_StateDB evm)" and E: "E = core_env X D E0"
    and fresh: "depth evm = 0" "refund (evm_StateDB evm) = 0"
    and to: "msg_To msg = Some addr" "precompile E addr = None" "code_bytes (ev_code (accounts E evm addr)) = []"
    and sender: "ev_nonce (accounts E evm (msg_From msg)) = msg_Nonce msg" "0 \<le> msg_Value msg"
      "int (unat (msg_Gas msg)) * msg_GasPrice msg + msg_Value msg \<le> ev_balance (accounts E evm (msg_From msg))"
    and gas: "msg_Gas msg \<le> gp" "g \<le> msg_Gas msg" "message_intrinsic E msg = Inr g"
  obtains st where "ApplyMessage fuel jt E evm msg gp = finish_message E ([], None, st)"
    "accounts E (st_evm st) = move addr (msg_Value msg) (move (msg_From msg) (- msg_Value msg)
       (let l = move (msg_From msg) (- (int (unat (msg_Gas msg)) * msg_GasPrice msg)) (accounts E evm)
        in l(msg_From msg := (l (msg_From msg))\<lparr>ev_nonce := ev_nonce (l (msg_From msg)) + 1\<rparr>)))"
    "wf X D (evm_StateDB (st_evm st))" "refund (evm_StateDB (st_evm st)) = 0" "bought gp st" "st_msg st = msg"
    "st_gas st = msg_Gas msg - g" "st_gasPrice st = msg_GasPrice msg"
proof -
  let ?a = "msg_From msg" and ?p = "msg_GasPrice msg" and ?v = "msg_Value msg"
  have acc: "accounts E evm = ledger X D (evm_StateDB evm)" for evm :: "'t EVM" by (simp add: accounts_def E)
  have rich: "int (unat (msg_Gas msg)) * ?p \<le> ev_balance (accounts E evm ?a)" using sender by simp
  obtain st1 where pre: "preCheck E (NewStateTransition evm msg gp) = (None, st1)"
    and 1: "accounts E (st_evm st1) = move ?a (- (int (unat (msg_Gas msg)) * ?p)) (accounts E evm)"
      "wf X D (evm_StateDB (st_evm st1))" "refund (evm_StateDB (st_evm st1)) = 0" "depth (st_evm st1) = 0"
      "st_gasPrice st1 = ?p" "st_value st1 = ?v"
    using preCheck_buys [OF inj wf E sender(1) rich gas(1)] fresh by metis
  note b = preCheck_bought [OF pre]
  define s3 where "s3 = (if ?v > 0 then snd (GetBalance X D ?a (evm_StateDB (st_evm st1))) else evm_StateDB (st_evm st1))"
  define st3 where "st3 = st1\<lparr>st_gas := msg_Gas msg - g, st_evm := (st_evm st1)\<lparr>evm_StateDB := s3\<rparr>\<rparr>"
  have rich1: "?v \<le> ev_balance (accounts E (st_evm st1) ?a)" using sender 1(1) by simp
  have able: "(if ?v > 0 then lift_state (\<lambda>s. ctx_CanTransfer E s ?a ?v) (st_evm st1) else (True, st_evm st1)) =
      (True, (st_evm st1)\<lparr>evm_StateDB := s3\<rparr>)"
    using rich1 by (simp add: E lift_state_def CanTransfer_def s3_def case_prod_unfold Let_def accounts_def ledger_reads)
  have 3: "wf X D s3" "ledger X D s3 = accounts E (st_evm st1)" "refund s3 = 0"
    using 1 by (simp_all add: s3_def acc ledger_kept) (simp_all add: GetBalance_def getStateObject_eq wf_cached)
  have intr: "IntrinsicGas (st_data st1) (msg_To (st_msg st1) = None) (IsHomestead (chainRules E)) (IsIstanbul (chainRules E)) = Inr g"
    using gas b by (simp add: message_intrinsic_def)
  have run: "ApplyMessage fuel jt E evm msg gp = and_then (run_message fuel jt E st3) (finish_message E)"
    using b able gas(2) intr unfolding ApplyMessage_def TransitionDb_def pre prod.case option.case Let_def
    by (simp add: finish_message_def st3_def not_less [symmetric] Let_def cong: if_cong split del: if_split)
  have 30: "st_msg st3 = msg" "st_value st3 = ?v" "accounts E (st_evm st3) = accounts E (st_evm st1)"
    using b 1 3 by (simp_all add: st3_def acc)
  obtain evm4 where r: "run_message fuel jt E st3 = Done ([], None, st3\<lparr>st_evm := evm4\<rparr>)"
    and 4: "accounts E evm4 = move addr ?v (move ?a (- ?v) ((accounts E (st_evm st1))(?a :=
        (accounts E (st_evm st1) ?a)\<lparr>ev_nonce := ev_nonce (accounts E (st_evm st1) ?a) + 1\<rparr>)))"
      "wf X D (evm_StateDB evm4)" "refund (evm_StateDB evm4) = 0"
    using run_message_transfers [OF inj _ E, of st3 addr fuel jt] to sender 1 3 30 rich1 by (simp add: st3_def) metis
  have "msg_Gas msg - g \<le> msg_Gas msg" using gas(2) by (simp add: word_le_nat_alt unat_sub)
  then have "bought gp (st3\<lparr>st_evm := evm4\<rparr>)" using b by (auto simp: bought_def st3_def)
  from that [OF _ _ _ _ this] show thesis using run r 4 1 b by (simp add: st3_def Let_def)
qed

lemma transfer_result:
  fixes E :: "'t env"
  assumes "addr_hash_inj X" "wf X D (evm_StateDB evm)" "depth evm = 0" "refund (evm_StateDB evm) = 0"
    and "msg_To msg = Some addr" "precompile (core_env X D E) addr = None"
    and "code_bytes (fst (GetCode X D addr (evm_StateDB evm))) = []"
    and "fst (GetNonce X D (msg_From msg) (evm_StateDB evm)) = msg_Nonce msg" "0 \<le> msg_Value msg"
    and "int (unat (msg_Gas msg)) * msg_GasPrice msg + msg_Value msg \<le> fst (GetBalance X D (msg_From msg) (evm_StateDB evm))"
    and "msg_Gas msg \<le> gp" "g \<le> msg_Gas msg"
    and "IntrinsicGas (msg_Data msg) False (IsHomestead (chainRules E)) (IsIstanbul (chainRules E)) = Inr g"
  shows "\<exists>st. ApplyMessage fuel jt (core_env X D E) evm msg gp =
      Done (Inr \<lparr> UsedGas = g, res_Err = None, ReturnData = [] \<rparr>, st) \<and>
    unat (st_gp st) + unat g = unat gp \<and>
    (\<forall>a. fst (GetBalance X D a (evm_StateDB (st_evm st))) = fst (GetBalance X D a (evm_StateDB evm)) +
           (if a = addr then msg_Value msg else 0) -
           (if a = msg_From msg then msg_Value msg + int (unat g) * msg_GasPrice msg else 0) +
           (if a = Coinbase E then int (unat g) * msg_GasPrice msg else 0) \<and>
         fst (GetNonce X D a (evm_StateDB (st_evm st))) =
           fst (GetNonce X D a (evm_StateDB evm)) + (if a = msg_From msg then 1 else 0))"
proof -
  let ?E = "core_env X D E" and ?a = "msg_From msg" and ?p = "msg_GasPrice msg" and ?v = "msg_Value msg"
  have acc: "accounts ?E evm = ledger X D (evm_StateDB evm)" for evm :: "'t EVM" by (simp add: accounts_def)
  have intr: "message_intrinsic ?E msg = Inr g" using assms(5,13) by (simp add: message_intrinsic_def)
  obtain st where st: "ApplyMessage fuel jt ?E evm msg gp = finish_message ?E ([], None, st)"
    "ledger X D (evm_StateDB (st_evm st)) = move addr ?v (move ?a (- ?v)
       (let l = move ?a (- (int (unat (msg_Gas msg)) * ?p)) (ledger X D (evm_StateDB evm))
        in l(?a := (l ?a)\<lparr>ev_nonce := ev_nonce (l ?a) + 1\<rparr>)))"
    "wf X D (evm_StateDB (st_evm st))" "refund (evm_StateDB (st_evm st)) = 0" "bought gp st" "st_msg st = msg"
    "st_gas st = msg_Gas msg - g" "st_gasPrice st = ?p"
    using transfer_runs [OF assms(1,2) refl assms(3,4,5,6) _ _ assms(9) _ assms(11,12) intr, of fuel jt] assms(7,8,10)
    by (auto simp: acc ledger_reads)
  obtain st5 where 5: "refundGas ?E st = Done st5" "st_msg st5 = st_msg st" "st_initialGas st5 = st_initialGas st"
    "st_gas st5 = st_gas st + min (gasUsed st div 2) (GetRefund (evm_StateDB (st_evm st)))"
    "unat (st_gp st5) + unat (gasUsed st5) = unat gp" "st_gasPrice st5 = st_gasPrice st"
    "st_evm st5 = on_state (AddBalance X D ?a (int (unat (st_gas st5)) * st_gasPrice st)) (st_evm st)"
    using refundGas_ok [OF st(5), of ?E] st(6) by auto
  have g5: "st_gas st5 = msg_Gas msg - g" "gasUsed st5 = g"
    using 5 st by (auto simp: GetRefund_def min_def gasUsed_def bought_def)
  let ?s5 = "AddBalance X D ?a (int (unat (msg_Gas msg - g)) * ?p) (evm_StateDB (st_evm st))"
  let ?st6 = "st5\<lparr>st_evm := on_state (AddBalance X D (Coinbase E) (int (unat g) * ?p)) (st_evm st5)\<rparr>"
  have "ApplyMessage fuel jt ?E evm msg gp = Done (Inr \<lparr> UsedGas = g, res_Err = None, ReturnData = [] \<rparr>, ?st6)"
    using st(1,8) 5 g5 by (simp add: finish_message_def gasUsed_def core_env_def)
  moreover have w5: "wf X D ?s5" by (rule wf_steps [OF steps_setters(1) [OF assms(1)] st(3)])
  have l: "ledger X D (evm_StateDB (st_evm ?st6)) = move (Coinbase E) (int (unat g) * ?p)
      (move ?a (int (unat (msg_Gas msg - g)) * ?p) (ledger X D (evm_StateDB (st_evm st))))"
    using 5(7) g5 st(8) ledger_setters(1) [OF w5 assms(1)] ledger_setters(1) [OF st(3) assms(1)] by (simp add: on_state_def)
  have "int (unat (msg_Gas msg - g)) = int (unat (msg_Gas msg)) - int (unat g)"
    using assms(12) by (simp add: unat_sub word_le_nat_alt)
  then have rest: "int (unat (msg_Gas msg - g)) * ?p = int (unat (msg_Gas msg)) * ?p - int (unat g) * ?p"
    by (simp only: left_diff_distrib)
  have "\<forall>a. fst (GetBalance X D a (evm_StateDB (st_evm ?st6))) = fst (GetBalance X D a (evm_StateDB evm)) +
           (if a = addr then ?v else 0) - (if a = ?a then ?v + int (unat g) * ?p else 0) +
           (if a = Coinbase E then int (unat g) * ?p else 0) \<and>
         fst (GetNonce X D a (evm_StateDB (st_evm ?st6))) = fst (GetNonce X D a (evm_StateDB evm)) + (if a = ?a then 1 else 0)"
    unfolding ledger_reads l st(2) Let_def rest by simp
  ultimately show ?thesis using 5(5) g5 by (intro exI [of _ ?st6]) simp
qed

text \<open>An account with a balance, and a message that it sends.\<close>

definition paid_evm :: "unit EVM" where
  "paid_evm = null_evm\<lparr>evm_StateDB := AddBalance word_ext null_db 7 1000000 null_state\<rparr>"

definition transfer_msg :: "u64 \<Rightarrow> Message" where
  "transfer_msg gas =
     \<lparr> msg_From = 7, msg_To = Some 200, msg_GasPrice = 1, msg_Gas = gas, msg_Value = 5, msg_Nonce = 0,
       msg_CheckNonce = True, msg_Data = [] \<rparr>"

lemma paid_state:
  "wf word_ext null_db (evm_StateDB paid_evm)" "refund (evm_StateDB paid_evm) = 0"
  "ledger word_ext null_db (evm_StateDB paid_evm) = move 7 1000000 (\<lambda>_. no_account)"
proof -
  have "ledger word_ext null_db null_state = (\<lambda>_. no_account)" by (simp add: ledger_def live_def null_lookup fun_eq_iff)
  then show "wf word_ext null_db (evm_StateDB paid_evm)" "refund (evm_StateDB paid_evm) = 0"
    "ledger word_ext null_db (evm_StateDB paid_evm) = move 7 1000000 (\<lambda>_. no_account)"
    using wf_steps [OF steps_setters(1) [OF addr_hash_inj_word] null_state_ok(1)]
      ledger_setters(1) [OF null_state_ok(1) addr_hash_inj_word, of 7 1000000]
    by (simp_all add: paid_evm_def) (simp add: null_state_def New_def null_db_def)
qed

lemma precompile_200: "precompile (core_env word_ext null_db null_env) 200 = None"
  by (simp add: precompile_def istanbul_rules_def PrecompiledContractsIstanbul_def PrecompiledContractsByzantium_def
      PrecompiledContractsHomestead_def)

lemma transfer_msg_simps [simp]:
  "msg_From (transfer_msg gas) = 7" "msg_To (transfer_msg gas) = Some 200" "msg_GasPrice (transfer_msg gas) = 1"
  "msg_Gas (transfer_msg gas) = gas" "msg_Value (transfer_msg gas) = 5" "msg_Nonce (transfer_msg gas) = 0"
  "msg_CheckNonce (transfer_msg gas)" "msg_Data (transfer_msg gas) = []"
  by (simp_all add: transfer_msg_def)

lemma paid_checks:
  "depth paid_evm = 0" "code_bytes (fst (GetCode word_ext null_db 200 (evm_StateDB paid_evm))) = []"
  "fst (GetNonce word_ext null_db 7 (evm_StateDB paid_evm)) = 0"
  "fst (GetBalance word_ext null_db a (evm_StateDB paid_evm)) = (if a = 7 then 1000000 else 0)"
  by (simp_all only: ledger_reads paid_state) (simp_all add: no_account_def code_bytes_def paid_evm_def null_evm_def)

lemmas paid_example = addr_hash_inj_word paid_state(1) paid_checks(1) paid_state(2) transfer_msg_simps(2) precompile_200 paid_checks(2)

lemma paid_transfer:
  "\<exists>st. ApplyMessage fuel jt null_env paid_evm (transfer_msg 30000) 100000 =
     Done (Inr \<lparr> UsedGas = 21000, res_Err = None, ReturnData = [] \<rparr>, st)"
proof -
  have "\<exists>st. ApplyMessage fuel jt (core_env word_ext null_db null_env) paid_evm (transfer_msg 30000) 100000 =
     Done (Inr \<lparr> UsedGas = 21000, res_Err = None, ReturnData = [] \<rparr>, st)"
    using transfer_result [OF paid_example, of 30000 100000 21000 fuel jt] by (simp add: paid_checks IntrinsicGas_def) blast
  then show ?thesis by (simp only: null_env_core [symmetric])
qed

section \<open>Messages\<close>

text \<open>C30. \<open>IntrinsicGas\<close> is the exact sum of the base price and the price of every byte of the data,
  counted in natural numbers; it reports an overflow exactly when that sum does not fit in 64 bits.\<close>

theorem IntrinsicGas_exact:
  assumes "length data < 2 ^ 64"
  shows "IntrinsicGas data contractCreation isHomestead isEIP2028 =
    (let total = (if contractCreation \<and> isHomestead then 53000 else 21000) +
           (if isEIP2028 then 16 else 68) * length (filter (\<lambda>b. b \<noteq> 0) data) + 4 * length (filter (\<lambda>b. b = 0) data)
     in if total < 2 ^ 64 then Inr (of_nat total) else Inl ErrGasUintOverflow_core)"
  using IntrinsicGas_total [OF assms] by (simp only: intrinsic_total_def)

theorem IntrinsicGas_exact_witness: "IntrinsicGas [0, 7, 1] False True True = Inr 21036"
  using IntrinsicGas_exact [of "[0, 7, 1]" False True True] by simp

text \<open>C14. Gas of a block. A message that is applied takes exactly the gas it used out of the pool of
  the block: the rest, with the refund, goes back and nothing wraps around. It uses at most the gas it
  bought, and after the refund still at least half of its intrinsic gas.\<close>

theorem ApplyMessage_gas:
  assumes "uint256_api (env_X E)" "NewEVMInterpreter package_tables rules cfg Map.empty = Done (eips, tables, jt)"
    and "ApplyMessage fuel jt E evm msg gp = Done (Inr res, st)"
  shows "unat (st_gp st) + unat (UsedGas res) = unat gp \<and> UsedGas res \<le> msg_Gas msg \<and>
    (\<exists>g. IntrinsicGas (msg_Data msg) (msg_To msg = None) (IsHomestead (chainRules E)) (IsIstanbul (chainRules E)) = Inr g \<and>
      unat g \<le> 2 * unat (UsedGas res))"
proof (rule ApplyMessage_cases [of E evm msg gp fuel jt])
  fix g st3 assume runs: "message_intrinsic E msg = Inr g" "g \<le> msg_Gas msg" "bought gp st3" "st_msg st3 = msg"
      "st_gas st3 = msg_Gas msg - g"
      "ApplyMessage fuel jt E evm msg gp = and_then (run_message fuel jt E st3) (finish_message E)"
  with assms(3) obtain ret err st4 where 4: "run_message fuel jt E st3 = Done (ret, err, st4)"
    "finish_message E (ret, err, st4) = Done (Inr res, st)" by (auto simp: and_then_iffs)
  have ran: "ran_message st3 (ret, err, st4)"
    using run_message_ok [OF new_interpreter_ok [OF assms(1,2)], of st3 fuel] 4 by (simp add: ends_def)
  with runs have "bought gp st4" by (auto simp: bought_def ran_message_def)
  then obtain st5 where 5: "refundGas E st4 = Done st5" "st_msg st5 = st_msg st4" "st_initialGas st5 = st_initialGas st4"
    "st_gas st5 \<le> st_initialGas st5" "unat (gasUsed st4) \<le> 2 * unat (gasUsed st5)" "unat (st_gp st5) + unat (gasUsed st5) = unat gp"
    by (rule refundGas_ok)
  have res: "UsedGas res = gasUsed st5" "st_gp st = st_gp st5" using 4(2) 5(1) by (auto simp: finish_message_def gasUsed_def)
  have "st_initialGas st4 = msg_Gas msg" "st_gas st4 \<le> msg_Gas msg - g"
    using ran runs by (auto simp: ran_message_def bought_def)
  then have "unat g \<le> unat (gasUsed st4)" "gasUsed st5 \<le> msg_Gas msg"
    using runs(2) 5 word_le_nat_alt[of "st_gas st4"] by (simp_all add: gasUsed_def word_le_nat_alt unat_sub)
  with 5 res runs(1) show ?thesis by (auto simp: message_intrinsic_def)
qed (use assms(3) in auto)

text \<open>C13. A transfer. A message to an account without code, whose sender has the right nonce and can pay
  for the gas and the value, is applied: it uses exactly its intrinsic gas, the value goes from the sender
  to the recipient, the sender pays the used gas to the coinbase at the gas price, the nonce of the
  sender is one higher, and no other account changes, also when some of the three coincide.\<close>

theorem transfer_applied:
  fixes E :: "'t env"
  assumes "addr_hash_inj X" "wf X D (evm_StateDB evm)" "depth evm = 0" "refund (evm_StateDB evm) = 0"
    and "msg_To msg = Some addr" "precompile (core_env X D E) addr = None"
    and "code_bytes (fst (GetCode X D addr (evm_StateDB evm))) = []"
    and "fst (GetNonce X D (msg_From msg) (evm_StateDB evm)) = msg_Nonce msg" "0 \<le> msg_Value msg"
    and "int (unat (msg_Gas msg)) * msg_GasPrice msg + msg_Value msg \<le> fst (GetBalance X D (msg_From msg) (evm_StateDB evm))"
    and "msg_Gas msg \<le> gp" "g \<le> msg_Gas msg"
    and "IntrinsicGas (msg_Data msg) False (IsHomestead (chainRules E)) (IsIstanbul (chainRules E)) = Inr g"
  shows "\<exists>st. ApplyMessage fuel jt (core_env X D E) evm msg gp =
      Done (Inr \<lparr> UsedGas = g, res_Err = None, ReturnData = [] \<rparr>, st) \<and>
    unat (st_gp st) + unat g = unat gp \<and>
    (\<forall>a. fst (GetBalance X D a (evm_StateDB (st_evm st))) = fst (GetBalance X D a (evm_StateDB evm)) +
           (if a = addr then msg_Value msg else 0) -
           (if a = msg_From msg then msg_Value msg + int (unat g) * msg_GasPrice msg else 0) +
           (if a = Coinbase E then int (unat g) * msg_GasPrice msg else 0) \<and>
         fst (GetNonce X D a (evm_StateDB (st_evm st))) =
           fst (GetNonce X D a (evm_StateDB evm)) + (if a = msg_From msg then 1 else 0))"
  by (rule transfer_result [OF assms])

theorem transfer_applied_witness:
  "\<exists>st. ApplyMessage 0 (package_tables Istanbul) (core_env word_ext null_db null_env) paid_evm (transfer_msg 30000) 100000 =
      Done (Inr \<lparr> UsedGas = 21000, res_Err = None, ReturnData = [] \<rparr>, st) \<and>
     fst (GetBalance word_ext null_db 7 (evm_StateDB (st_evm st))) = 978995 \<and>
     fst (GetBalance word_ext null_db 200 (evm_StateDB (st_evm st))) = 5 \<and>
     fst (GetBalance word_ext null_db 9 (evm_StateDB (st_evm st))) = 21000"
proof -
  have c: "Coinbase null_env = 9" by (simp add: null_env_def)
  obtain st where st: "ApplyMessage 0 (package_tables Istanbul) (core_env word_ext null_db null_env) paid_evm (transfer_msg 30000) 100000 =
      Done (Inr \<lparr> UsedGas = 21000, res_Err = None, ReturnData = [] \<rparr>, st)"
    and b: "fst (GetBalance word_ext null_db a (evm_StateDB (st_evm st))) = (if a = 7 then 1000000 else 0) +
      (if a = 200 then 5 else 0) - (if a = 7 then 5 + 21000 else 0) + (if a = 9 then 21000 else 0)" for a
    using transfer_applied [OF paid_example, of 30000 100000 21000 0 "package_tables Istanbul"]
    by (simp add: paid_checks IntrinsicGas_def c cong: if_cong) blast
  show ?thesis by (intro exI conjI, rule st) (simp_all add: b)
qed

theorem ApplyMessage_gas_witness:
  "\<exists>st. ApplyMessage 0 (package_tables Istanbul) null_env paid_evm (transfer_msg 30000) 100000 =
      Done (Inr \<lparr> UsedGas = 21000, res_Err = None, ReturnData = [] \<rparr>, st) \<and> unat (st_gp st) + 21000 = 100000"
proof -
  obtain st where st: "ApplyMessage 0 (package_tables Istanbul) null_env paid_evm (transfer_msg 30000) 100000 =
      Done (Inr \<lparr> UsedGas = 21000, res_Err = None, ReturnData = [] \<rparr>, st)" using paid_transfer by blast
  from ApplyMessage_gas [OF _ new_interpreter_plain st] show ?thesis
    using st by (simp add: word.uint256_api_axioms)
qed

text \<open>C29. A message that is not applied. When its nonce is wrong, its sender cannot pay the gas or the
  pool has too little, nothing changes: the pool is as before, and the state cannot be told apart from
  the one before. When it is rejected later, the gas it bought stays out of the pool.\<close>

theorem rejected_messages:
  assumes "ApplyMessage fuel jt E evm msg gp = Done (Inl err, st)"
  shows "if err \<in> {ErrNonceTooLow, ErrNonceTooHigh, ErrInsufficientFunds, ErrGasLimitReached}
    then st_gp st = gp \<and> sim (env_X E) (env_D E) (evm_StateDB evm) (evm_StateDB (st_evm st))
    else msg_Gas msg \<le> gp \<and> st_gp st = gp - msg_Gas msg"
proof (rule ApplyMessage_cases [of E evm msg gp fuel jt])
  fix g st3 assume "ApplyMessage fuel jt E evm msg gp = and_then (run_message fuel jt E st3) (finish_message E)"
  with assms show ?thesis by (auto simp: and_then_iffs finish_message_def Let_def)
next
  fix err1 st1 assume "preCheck E (NewStateTransition evm msg gp) = (Some err1, st1)"
    and "ApplyMessage fuel jt E evm msg gp = Done (Inl err1, st1)"
  with assms have "preCheck E (NewStateTransition evm msg gp) = (Some err, st)" by simp
  from preCheck_rejects [OF this] show ?thesis by (simp only: if_True)
next
  fix err1 st1 assume "err1 \<in> {ErrIntrinsicGas, ErrGasUintOverflow_core, ErrInsufficientFundsForTransfer}"
    and "ApplyMessage fuel jt E evm msg gp = Done (Inl err1, st1)" and l: "msg_Gas msg \<le> gp" "st_gp st1 = gp - msg_Gas msg"
  with assms have "err \<notin> {ErrNonceTooLow, ErrNonceTooHigh, ErrInsufficientFunds, ErrGasLimitReached}" "st = st1" by auto
  with l show ?thesis by (simp only: if_False)
qed

theorem rejected_messages_witness:
  "\<exists>st. ApplyMessage 0 (package_tables Istanbul) null_env null_evm (transfer_msg 30000) 100000 = Done (Inl ErrInsufficientFunds, st) \<and>
     st_gp st = 100000"
proof -
  have "\<exists>st. preCheck null_env (NewStateTransition null_evm (transfer_msg 30000) 100000) = (Some ErrInsufficientFunds, st)"
    by (simp add: preCheck_def buyGas_def NewStateTransition_def transfer_msg_def lift_state_def null_evm_def GetNonce_def
        GetBalance_def getStateObject_eq live_def null_lookup Let_def)
  then obtain st where st: "ApplyMessage 0 (package_tables Istanbul) null_env null_evm (transfer_msg 30000) 100000 =
      Done (Inl ErrInsufficientFunds, st)" by (auto simp: ApplyMessage_def TransitionDb_def)
  from rejected_messages [OF st] st show ?thesis by simp
qed



end
