(* ===== verification/State_Commit.thy ===== *)
theory State_Commit
  imports State_Balance
begin

text \<open>
  The root of the state: \<open>updateTrie\<close> and \<open>updateRoot\<close> of \<open>core/state/state_object.go\<close>,
  \<open>updateStateObject\<close>, \<open>deleteStateObject\<close> and \<open>IntermediateRoot\<close> of \<open>core/state/statedb.go\<close>, and the
  slim accounts of \<open>core/state/snapshot/account.go\<close>. Go iterates over maps in an unspecified order: the
  orders are arguments of the model. The locale \<open>state_trie\<close> is what the state relies on of its tries;
  \<open>State_Root\<close> interprets it on the Merkle Patricia trie.
\<close>

section \<open>core/state/snapshot/account.go\<close>

text \<open>The fields \<open>Root\<close> and \<open>CodeHash\<close> are nil when they would be the empty ones; nil encodes as the
  empty string.\<close>

definition SlimAccount :: "ext \<Rightarrow> u64 \<Rightarrow> int \<Rightarrow> hash \<Rightarrow> bytes \<Rightarrow> snap_account" where
  "SlimAccount X nonce balance root codehash =
     \<lparr> snap_Nonce = nonce, snap_Balance = balance,
       snap_Root = (if root \<noteq> emptyRoot then Hash_Bytes root else []),
       snap_CodeHash = (if codehash \<noteq> emptyCodeHash X then codehash else []) \<rparr>"

definition snap_value :: "snap_account \<Rightarrow> go_value" where
  "snap_value a =
     VStruct [VUint (snap_Nonce a), VBigIntPtr (Some (snap_Balance a)), VBytes (snap_Root a), VBytes (snap_CodeHash a)]"

definition SlimAccountRLP :: "ext \<Rightarrow> u64 \<Rightarrow> int \<Rightarrow> hash \<Rightarrow> bytes \<Rightarrow> bytes outcome" where
  "SlimAccountRLP X nonce balance root codehash =
     and_then (EncodeToBytes (snap_value (SlimAccount X nonce balance root codehash))) (\<lambda>r.
       case r of Inl err \<Rightarrow> Panicked (Explicit ''rlp'') | Inr data \<Rightarrow> Done data)"

section \<open>core/state/state_object.go\<close>

definition account_value :: "Account \<Rightarrow> go_value" where
  "account_value a =
     VStruct [VUint (acc_Nonce a), VBigIntPtr (Some (acc_Balance a)), VByteArray (Hash_Bytes (acc_Root a)), VBytes (acc_CodeHash a)]"

definition obj_EncodeRLP :: "'t stateObject \<Rightarrow> (rlp_error + bytes) outcome" where
  "obj_EncodeRLP so = EncodeToBytes (account_value (so_data so))"

text \<open>A lookup in a Go map of hashes: the zero hash where the key is absent.\<close>

definition slot_or_zero :: "Storage \<Rightarrow> hash \<Rightarrow> hash" where
  "slot_or_zero st key = (case st key of None \<Rightarrow> 0 | Some v \<Rightarrow> v)"

text \<open>The body of the loop of \<open>updateTrie\<close>. The trie of the loop is the one of the object; the error of
  the encoder is ignored, and the slice is nil in that case.\<close>

definition write_slot ::
    "ext \<Rightarrow> 't Database \<Rightarrow> hash \<Rightarrow> hash \<Rightarrow> 't stateObject \<times> (hash \<rightharpoonup> bytes option) option \<Rightarrow>
     ('t stateObject \<times> (hash \<rightharpoonup> bytes option) option) outcome" where
  "write_slot X D key val = (\<lambda>(so, storage).
     if val = slot_or_zero (originStorage so) key then Done (so, storage)
     else
       (let so1 = so\<lparr>originStorage := (originStorage so)(key \<mapsto> val)\<rparr>
        in case so_trie so1 of
             None \<Rightarrow> Panicked NilDeref
           | Some t \<Rightarrow>
               and_then
                 (if val = 0 then
                    (let (t1, err) = TryDelete D t (Hash_Bytes key) in Done (None, t1, err))
                  else
                    and_then (EncodeToBytes (VBytes (TrimLeftZeroes (Hash_Bytes val)))) (\<lambda>r.
                      let v = (case r of Inl _ \<Rightarrow> [] | Inr v \<Rightarrow> v);
                          (t1, err) = TryUpdate D t (Hash_Bytes key) v
                      in Done (Some v, t1, err)))
                 (\<lambda>(v, t1, err).
                    Done (so_setError (map_option ErrTrieWrite err) (so1\<lparr>so_trie := Some t1\<rparr>),
                          map_option (\<lambda>st. st(keccak256 X (Hash_Bytes key) \<mapsto> v)) storage))))"

fun write_slots ::
    "ext \<Rightarrow> 't Database \<Rightarrow> Storage \<Rightarrow> hash list \<Rightarrow> 't stateObject \<times> (hash \<rightharpoonup> bytes option) option \<Rightarrow>
     ('t stateObject \<times> (hash \<rightharpoonup> bytes option) option) outcome" where
  "write_slots X D pending [] r = Done r"
| "write_slots X D pending (key # keys) r =
     and_then (case pending key of None \<Rightarrow> Done r | Some val \<Rightarrow> write_slot X D key val r) (write_slots X D pending keys)"

text \<open>\<open>keys\<close> enumerates the pending slots in the order of the iteration. The result is the trie, the
  object and the state with its snapshot data.\<close>

definition updateTrie ::
    "ext \<Rightarrow> 't Database \<Rightarrow> hash list \<Rightarrow> 't stateObject \<Rightarrow> 't StateDB \<Rightarrow> ('t option \<times> 't stateObject \<times> 't StateDB) outcome" where
  "updateTrie X D keys so s =
     (let so1 = obj_finalise so
      in if dom (pendingStorage so1) = {} then Done (so_trie so1, so1, s)
         else
           (let storage =
                  (if sd_snap s \<noteq> None
                   then Some (case snapStorage s (addrHash so1) of None \<Rightarrow> Map.empty | Some st \<Rightarrow> st) else None);
                (tr, so2) = getTrie D so1
            in and_then (write_slots X D (pendingStorage so2) keys (so2, storage)) (\<lambda>(so3, storage1).
                 Done (so_trie so3, so3\<lparr>pendingStorage := Map.empty\<rparr>,
                       case storage1 of None \<Rightarrow> s | Some st \<Rightarrow> s\<lparr>snapStorage := (snapStorage s)(addrHash so1 \<mapsto> st)\<rparr>))))"

definition updateRoot ::
    "ext \<Rightarrow> 't Database \<Rightarrow> hash list \<Rightarrow> 't stateObject \<Rightarrow> 't StateDB \<Rightarrow> ('t stateObject \<times> 't StateDB) outcome" where
  "updateRoot X D keys so s =
     and_then (updateTrie X D keys so s) (\<lambda>(tr, so1, s1).
       Done (case tr of None \<Rightarrow> so1 | Some t \<Rightarrow> so1\<lparr>so_data := (so_data so1)\<lparr>acc_Root := trie_Hash D t\<rparr>\<rparr>, s1))"

section \<open>core/state/statedb.go\<close>

definition updateStateObject :: "ext \<Rightarrow> 't Database \<Rightarrow> 't stateObject \<Rightarrow> 't StateDB \<Rightarrow> 't StateDB outcome" where
  "updateStateObject X D obj s =
     and_then (obj_EncodeRLP obj) (\<lambda>r.
       case r of
         Inl err \<Rightarrow> Panicked (Explicit ''can't encode object'')
       | Inr data \<Rightarrow>
           (let (t1, err) = TryUpdate D (sd_trie s) (Address_Bytes (so_address obj)) data;
                s1 = s\<lparr>sd_trie := t1\<rparr>;
                s2 = (case err of None \<Rightarrow> s1 | Some e \<Rightarrow> sd_setError (Some (ErrUpdateObject (so_address obj) e)) s1)
            in if sd_snap s2 \<noteq> None then
                 and_then (SlimAccountRLP X (acc_Nonce (so_data obj)) (acc_Balance (so_data obj)) (acc_Root (so_data obj))
                     (acc_CodeHash (so_data obj))) (\<lambda>slim.
                   Done (s2\<lparr>snapAccounts := (snapAccounts s2)(addrHash obj \<mapsto> slim)\<rparr>))
               else Done s2))"

definition deleteStateObject :: "'t Database \<Rightarrow> 't stateObject \<Rightarrow> 't StateDB \<Rightarrow> 't StateDB" where
  "deleteStateObject D obj s =
     (let (t1, err) = TryDelete D (sd_trie s) (Address_Bytes (so_address obj));
          s1 = s\<lparr>sd_trie := t1\<rparr>
      in case err of None \<Rightarrow> s1 | Some e \<Rightarrow> sd_setError (Some (ErrDeleteObject (so_address obj) e)) s1)"

text \<open>The body of the loop of \<open>IntermediateRoot\<close> over the pending addresses.\<close>

definition write_object :: "ext \<Rightarrow> 't Database \<Rightarrow> (address \<Rightarrow> hash list) \<Rightarrow> address \<Rightarrow> 't StateDB \<Rightarrow> 't StateDB outcome" where
  "write_object X D keys addr s =
     (case stateObjects s addr of
        None \<Rightarrow> Panicked NilDeref
      | Some obj \<Rightarrow>
          if deleted obj then Done (deleteStateObject D obj s)
          else and_then (updateRoot X D (keys addr) obj s) (\<lambda>(obj1, s1).
                 updateStateObject X D obj1 (s1\<lparr>stateObjects := (stateObjects s1)(addr \<mapsto> obj1)\<rparr>)))"

fun write_objects :: "ext \<Rightarrow> 't Database \<Rightarrow> (address \<Rightarrow> hash list) \<Rightarrow> address list \<Rightarrow> 't StateDB \<Rightarrow> 't StateDB outcome" where
  "write_objects X D keys [] s = Done s"
| "write_objects X D keys (addr # addrs) s = and_then (write_object X D keys addr s) (write_objects X D keys addrs)"

text \<open>\<open>dirty\<close>, \<open>pending\<close> and \<open>keys\<close> are the orders of the three loops.\<close>

definition IntermediateRoot ::
    "ext \<Rightarrow> 't Database \<Rightarrow> bool \<Rightarrow> address list \<Rightarrow> address list \<Rightarrow> (address \<Rightarrow> hash list) \<Rightarrow> 't StateDB \<Rightarrow> (hash \<times> 't StateDB) outcome" where
  "IntermediateRoot X D deleteEmptyObjects dirty pending keys s =
     and_then (write_objects X D keys pending (Finalise X deleteEmptyObjects dirty s)) (\<lambda>s1.
       Done (trie_Hash D (sd_trie s1), s1\<lparr>stateObjectsPending := {}\<rparr>))"

section \<open>Encodings\<close>

lemma length_rlp_string_le: "length b < 2 ^ 32 \<Longrightarrow> length (rlp_string b) \<le> length b + 5"
proof -
  assume "length b < 2 ^ 32"
  then have "length (min_be (length b)) \<le> 4" by (simp add: length_min_be_le)
  then show ?thesis by (simp add: rlp_string_def rlp_head_def)
qed

lemma slot_encoded:
  "EncodeToBytes (VBytes (TrimLeftZeroes (Hash_Bytes val))) = Done (Inr (rlp_string (TrimLeftZeroes (Hash_Bytes val))))"
proof -
  have len: "length (TrimLeftZeroes (Hash_Bytes val)) \<le> 32" using length_TrimLeftZeroes [of "Hash_Bytes val"] by simp
  then have "length (rlp_string (TrimLeftZeroes (Hash_Bytes val))) \<le> 37"
    using length_rlp_string_le [of "TrimLeftZeroes (Hash_Bytes val)"] by simp
  then show ?thesis using EncodeToBytes_ref [of "VBytes (TrimLeftZeroes (Hash_Bytes val))"] by simp
qed

text \<open>An account that can be encoded: its balance is a 256-bit number, its code hash a hash.\<close>

definition account_fits :: "Account \<Rightarrow> bool" where
  "account_fits a \<longleftrightarrow> 0 \<le> acc_Balance a \<and> acc_Balance a < 2 ^ 256 \<and> length (acc_CodeHash a) = 32"

lemma account_encoded:
  assumes "account_fits a"
  shows "EncodeToBytes (account_value a) = Done (Inr (rlp_ref (account_value a)))"
    and "rlp_ref (account_value a) \<noteq> []"
    and "\<exists>slim. SlimAccountRLP X (acc_Nonce a) (acc_Balance a) r (acc_CodeHash a) = Done slim"
proof -
  have n: "length (min_be (unat (acc_Nonce a))) \<le> 8"
    unfolding length_min_be_le using u64_less [of "acc_Nonce a"] by simp
  have b: "length (min_be (nat (acc_Balance a))) \<le> 32"
    unfolding length_min_be_le using assms by (simp add: account_fits_def nat_less_iff)
  have items: "length (rlp_string (min_be (unat (acc_Nonce a)))) \<le> 13" "length (rlp_string (min_be (nat (acc_Balance a)))) \<le> 37"
    using n b length_rlp_string_le [of "min_be (unat (acc_Nonce a))"] length_rlp_string_le [of "min_be (nat (acc_Balance a))"] by simp_all
  have h: "length b \<le> 32 \<Longrightarrow> length (rlp_string b) \<le> 37" for b using length_rlp_string_le [of b] by simp
  have l: "length c \<le> 200 \<Longrightarrow> length (rlp_list c) \<le> 205" for c
  proof -
    assume "length c \<le> 200"
    moreover from this have "length (min_be (length c)) \<le> 1" by (simp add: length_min_be_le)
    ultimately show ?thesis by (simp add: rlp_list_def rlp_head_def)
  qed
  have small: "length (rlp_ref (account_value a)) \<le> 205"
    using items h [of "Hash_Bytes (acc_Root a)"] h [of "acc_CodeHash a"] assms
    by (auto simp: account_value_def account_fits_def intro!: l)
  have pos: "nonneg (account_value a)" "nonneg (snap_value (SlimAccount X (acc_Nonce a) (acc_Balance a) r (acc_CodeHash a)))"
    using assms by (simp_all add: account_value_def snap_value_def account_fits_def SlimAccount_def)
  have "length (rlp_ref (snap_value (SlimAccount X (acc_Nonce a) (acc_Balance a) r (acc_CodeHash a)))) \<le> 205"
    using items h [of "Hash_Bytes r"] h [of "[]"] h [of "acc_CodeHash a"] assms
    by (auto simp: snap_value_def SlimAccount_def account_fits_def intro!: l)
  from EncodeToBytes_ref [OF pos(2)] this
  show "\<exists>slim. SlimAccountRLP X (acc_Nonce a) (acc_Balance a) r (acc_CodeHash a) = Done slim" by (simp add: SlimAccountRLP_def)
  show "EncodeToBytes (account_value a) = Done (Inr (rlp_ref (account_value a)))" using EncodeToBytes_ref [OF pos(1)] small by simp
  show "rlp_ref (account_value a) \<noteq> []" by (simp add: account_value_def rlp_list_def rlp_head_def)
qed

section \<open>What the state relies on of a trie\<close>

text \<open>\<open>overwrites h K f m m'\<close>: the map \<open>m'\<close> is \<open>m\<close> with the value \<open>f k\<close> at the key \<open>h k\<close> of each \<open>k\<close> of \<open>K\<close>.\<close>

definition overwrites :: "('k \<Rightarrow> 'x) \<Rightarrow> 'k set \<Rightarrow> ('k \<Rightarrow> 'v \<Rightarrow> bool) \<Rightarrow> ('x \<Rightarrow> 'v) \<Rightarrow> ('x \<Rightarrow> 'v) \<Rightarrow> bool" where
  "overwrites h K f m m' \<longleftrightarrow> (\<forall>k\<in>K. f k (m' (h k))) \<and> (\<forall>x. x \<notin> h ` K \<longrightarrow> m' x = m x)"

lemma overwrites_empty [simp]: "overwrites h {} f m m' \<longleftrightarrow> m' = m"
  by (auto simp: overwrites_def)

lemma overwrites_insert:
  assumes "overwrites h K f (m(h k := v)) m'" "f k v" "inj_on h (insert k K)" "k \<notin> K"
  shows "overwrites h (insert k K) f m m'"
proof -
  have "h k \<notin> h ` K" using assms(3,4) by (auto dest: inj_onD)
  then show ?thesis using assms(1,2) by (auto simp: overwrites_def)
qed

lemma overwrites_unique:
  assumes "overwrites h K f m m1" "overwrites h K f m m2" "\<And>k v w. k \<in> K \<Longrightarrow> f k v \<Longrightarrow> f k w \<Longrightarrow> v = w"
  shows "m1 = m2"
proof (rule ext)
  fix x
  show "m1 x = m2 x"
  proof (cases "x \<in> h ` K")
    case True
    then obtain k where "k \<in> K" "x = h k" by blast
    with assms show ?thesis unfolding overwrites_def by metis
  next
    case False
    with assms show ?thesis unfolding overwrites_def by metis
  qed
qed

lemma overwrites_mono: "overwrites h K f m m' \<Longrightarrow> (\<And>k v. k \<in> K \<Longrightarrow> f k v \<Longrightarrow> g k v) \<Longrightarrow> overwrites h K g m m'"
  by (auto simp: overwrites_def)

lemma obj_finalise_fields [simp]:
  "so_trie (obj_finalise so) = so_trie so" "originStorage (obj_finalise so) = originStorage so" "so_data (obj_finalise so) = so_data so"
  "so_address (obj_finalise so) = so_address so" "addrHash (obj_finalise so) = addrHash so" "deleted (obj_finalise so) = deleted so"
  by (simp_all add: obj_finalise_def)

lemma getTrie_fields:
  assumes "getTrie D so = (tr, so1)"
  shows "so_trie so1 = tr" "originStorage so1 = originStorage so" "pendingStorage so1 = pendingStorage so" "so_data so1 = so_data so"
    "so_address so1 = so_address so" "addrHash so1 = addrHash so" "deleted so1 = deleted so"
  using assms by (auto simp: getTrie_def so_setError_def Let_def split: option.splits sum.splits)

text \<open>The pending slots that differ from what the trie is known to hold, and what is written for one.\<close>

definition changed :: "Storage \<Rightarrow> 't stateObject \<Rightarrow> hash set" where
  "changed pending so = {key \<in> dom pending. slot_or_zero pending key \<noteq> slot_or_zero (originStorage so) key}"

definition slot_written :: "Storage \<Rightarrow> hash \<Rightarrow> bytes option \<Rightarrow> bool" where
  "slot_written pending key v \<longleftrightarrow>
     v = (let val = slot_or_zero pending key in if val = 0 then None else Some (rlp_string (TrimLeftZeroes (Hash_Bytes val))))"

text \<open>The storage of an object can be written: its trie can be opened, and its pending slots have
  different hashes.\<close>

definition storage_ready :: "'t Database \<Rightarrow> (bytes \<Rightarrow> bytes) \<Rightarrow> ('t \<Rightarrow> bool) \<Rightarrow> 't stateObject \<Rightarrow> bool" where
  "storage_ready D hk trie_valid so \<longleftrightarrow>
     (let p = pendingStorage (obj_finalise so)
      in (dom p \<noteq> {} \<longrightarrow> (\<exists>t. fst (getTrie D so) = Some t \<and> trie_valid t)) \<and> inj_on (\<lambda>key. hk (Hash_Bytes key)) (dom p))"

text \<open>The root of the storage after the changed slots have been written.\<close>

definition new_root :: "'t Database \<Rightarrow> (bytes \<Rightarrow> bytes) \<Rightarrow> ('t \<Rightarrow> bool) \<Rightarrow> ('t \<Rightarrow> bytes \<Rightarrow> bytes option) \<Rightarrow> 't stateObject \<Rightarrow> hash \<Rightarrow> bool" where
  "new_root D hk trie_valid content so r \<longleftrightarrow>
     (let p = pendingStorage (obj_finalise so)
      in if dom p = {} then r = (case so_trie so of None \<Rightarrow> acc_Root (so_data so) | Some t \<Rightarrow> trie_Hash D t)
         else \<exists>t t'. fst (getTrie D so) = Some t \<and> trie_valid t' \<and> r = trie_Hash D t' \<and>
           overwrites (\<lambda>key. hk (Hash_Bytes key)) (changed p so) (slot_written p) (content t) (content t'))"

text \<open>What the account trie must hold for an address after \<open>IntermediateRoot\<close>, and when the account
  can be written with the slots in the order \<open>keys\<close>.\<close>

definition committed :: "'t Database \<Rightarrow> (bytes \<Rightarrow> bytes) \<Rightarrow> ('t \<Rightarrow> bool) \<Rightarrow> ('t \<Rightarrow> bytes \<Rightarrow> bytes option) \<Rightarrow> 't StateDB \<Rightarrow> address \<Rightarrow> bytes option \<Rightarrow> bool" where
  "committed D hk trie_valid content s a v \<longleftrightarrow>
     (\<exists>so. stateObjects s a = Some so \<and>
        (if deleted so then v = None
         else \<exists>r. new_root D hk trie_valid content so r \<and> v = Some (rlp_ref (account_value ((so_data so)\<lparr>acc_Root := r\<rparr>)))))"

definition account_ready :: "'t Database \<Rightarrow> (bytes \<Rightarrow> bytes) \<Rightarrow> ('t \<Rightarrow> bool) \<Rightarrow> 't StateDB \<Rightarrow> (address \<Rightarrow> hash list) \<Rightarrow> address \<Rightarrow> bool" where
  "account_ready D hk trie_valid s keys a \<longleftrightarrow>
     (\<exists>so. stateObjects s a = Some so \<and> so_address so = a \<and>
        (\<not> deleted so \<longrightarrow> account_fits (so_data so) \<and> storage_ready D hk trie_valid so \<and> distinct (keys a) \<and>
           set (keys a) = dom (pendingStorage (obj_finalise so))))"

text \<open>A trie that holds all its nodes is a map, from hashed keys, and its hash is a function of the map.\<close>

locale state_trie =
  fixes D :: "'t Database" and hk :: "bytes \<Rightarrow> bytes" and trie_valid :: "'t \<Rightarrow> bool" and content :: "'t \<Rightarrow> bytes \<Rightarrow> bytes option"
  assumes update: "trie_valid t \<Longrightarrow> length key \<le> 32 \<Longrightarrow> val \<noteq> [] \<Longrightarrow>
      \<exists>t'. TryUpdate D t key val = (t', None) \<and> trie_valid t' \<and> content t' = (content t)(hk key \<mapsto> val)"
    and remove: "trie_valid t \<Longrightarrow> length key \<le> 32 \<Longrightarrow>
      \<exists>t'. TryDelete D t key = (t', None) \<and> trie_valid t' \<and> content t' = (content t)(hk key := None)"
    and hash_content: "trie_valid t \<Longrightarrow> trie_valid t' \<Longrightarrow> content t = content t' \<Longrightarrow> trie_Hash D t = trie_Hash D t'"
begin

lemma write_slot_ok:
  assumes "so_trie so = Some t" "trie_valid t" "pending key = Some val" "key \<in> changed pending so"
  obtains t' storage' v where "write_slot X D key val (so, storage) =
      Done (so\<lparr>originStorage := (originStorage so)(key \<mapsto> val), so_trie := Some t'\<rparr>, storage')"
    "trie_valid t'" "content t' = (content t)(hk (Hash_Bytes key) := v)" "slot_written pending key v"
    "storage' = None \<longleftrightarrow> storage = None"
proof -
  have ne: "val \<noteq> slot_or_zero (originStorage so) key" using assms(3,4) by (simp add: changed_def slot_or_zero_def)
  have none: "so_setError None so' = so'" for so' :: "'t stateObject" by (simp add: so_setError_def split: option.split)
  have sz: "slot_or_zero pending key = val" using assms(3) by (simp add: slot_or_zero_def)
  show thesis
  proof (cases "val = 0")
    case True
    obtain t' where t': "TryDelete D t (Hash_Bytes key) = (t', None)" "trie_valid t'"
      "content t' = (content t)(hk (Hash_Bytes key) := None)"
      using remove [OF assms(2), of "Hash_Bytes key"] by (auto simp: length_Hash_Bytes)
    have "write_slot X D key val (so, storage) = Done (so\<lparr>originStorage := (originStorage so)(key \<mapsto> val), so_trie := Some t'\<rparr>,
        map_option (\<lambda>st. st(keccak256 X (Hash_Bytes key) \<mapsto> None)) storage)"
      using True ne assms(1) t'(1) by (auto simp: write_slot_def none)
    from that [OF this t'(2,3)] True sz show ?thesis by (simp add: slot_written_def)
  next
    case False
    let ?v = "rlp_string (TrimLeftZeroes (Hash_Bytes val))"
    have enc: "EncodeToBytes (VBytes (TrimLeftZeroes (Hash_Bytes val))) = Done (Inr ?v)" by (rule slot_encoded)
    have "?v \<noteq> []" by (auto simp: rlp_string_def rlp_head_def)
    then obtain t' where t': "TryUpdate D t (Hash_Bytes key) ?v = (t', None)" "trie_valid t'"
      "content t' = (content t)(hk (Hash_Bytes key) \<mapsto> ?v)"
      using update [OF assms(2), of "Hash_Bytes key"] by (auto simp: length_Hash_Bytes)
    have "write_slot X D key val (so, storage) = Done (so\<lparr>originStorage := (originStorage so)(key \<mapsto> val), so_trie := Some t'\<rparr>,
        map_option (\<lambda>st. st(keccak256 X (Hash_Bytes key) \<mapsto> Some ?v)) storage)"
      using False ne assms(1) t'(1) enc by (auto simp: write_slot_def none Let_def)
    from that [OF this t'(2,3)] False sz show ?thesis by (simp add: slot_written_def Let_def)
  qed
qed

lemma write_slots_ok:
  assumes "so_trie so = Some t" "trie_valid t" "distinct keys" "inj_on (\<lambda>key. hk (Hash_Bytes key)) (set keys)"
  shows "\<exists>t' storage' origin'. write_slots X D pending keys (so, storage) =
      Done (so\<lparr>originStorage := origin', so_trie := Some t'\<rparr>, storage') \<and> trie_valid t' \<and>
    overwrites (\<lambda>key. hk (Hash_Bytes key)) (set keys \<inter> changed pending so) (slot_written pending) (content t) (content t') \<and>
    (storage' = None \<longleftrightarrow> storage = None)"
  using assms
proof (induction keys arbitrary: so t storage)
  case Nil
  have "so\<lparr>originStorage := originStorage so, so_trie := Some t\<rparr> = so" using Nil by simp
  with Nil show ?case by (intro exI [of _ t] exI [of _ storage] exI [of _ "originStorage so"]) simp
next
  case (Cons key keys)
  have inj: "inj_on (\<lambda>key. hk (Hash_Bytes key)) (set keys)" using Cons.prems(4) by (auto intro: inj_on_subset)
  show ?case
  proof (cases "key \<in> changed pending so")
    case False
    then have "(case pending key of None \<Rightarrow> Done (so, storage) | Some val \<Rightarrow> write_slot X D key val (so, storage)) = Done (so, storage)"
      by (auto simp: changed_def slot_or_zero_def write_slot_def split: option.splits)
    moreover from False have "set (key # keys) \<inter> changed pending so = set keys \<inter> changed pending so" by auto
    ultimately show ?thesis using Cons.IH [OF Cons.prems(1,2) _ inj, of storage] Cons.prems(3) by simp
  next
    case True
    then obtain val where val: "pending key = Some val" by (auto simp: changed_def)
    obtain t1 storage1 v where w: "write_slot X D key val (so, storage) =
        Done (so\<lparr>originStorage := (originStorage so)(key \<mapsto> val), so_trie := Some t1\<rparr>, storage1)"
      "trie_valid t1" "content t1 = (content t)(hk (Hash_Bytes key) := v)" "slot_written pending key v"
      "storage1 = None \<longleftrightarrow> storage = None"
      by (rule write_slot_ok [OF Cons.prems(1,2) val True, of X storage])
    let ?so1 = "so\<lparr>originStorage := (originStorage so)(key \<mapsto> val), so_trie := Some t1\<rparr>"
    have ch: "set keys \<inter> changed pending ?so1 = set keys \<inter> changed pending so"
      using Cons.prems(3) by (auto simp: changed_def slot_or_zero_def)
    obtain t' storage' origin' where r: "write_slots X D pending keys (?so1, storage1) =
        Done (?so1\<lparr>originStorage := origin', so_trie := Some t'\<rparr>, storage')" "trie_valid t'"
      "overwrites (\<lambda>key. hk (Hash_Bytes key)) (set keys \<inter> changed pending so) (slot_written pending) (content t1) (content t')"
      "storage' = None \<longleftrightarrow> storage1 = None"
      using Cons.IH [of ?so1 t1 storage1, OF _ w(2) _ inj] Cons.prems(3) unfolding ch by auto
    have "set (key # keys) \<inter> changed pending so = insert key (set keys \<inter> changed pending so)" using True by auto
    moreover have "overwrites (\<lambda>key. hk (Hash_Bytes key)) (insert key (set keys \<inter> changed pending so)) (slot_written pending) (content t) (content t')"
      by (rule overwrites_insert [OF r(3) [unfolded w(3)] w(4)]) (use Cons.prems(3,4) in \<open>auto simp: inj_on_def\<close>)
    ultimately show ?thesis using w(1,5) val r by auto
  qed
qed

lemma new_root_unique: "new_root D hk trie_valid content so r \<Longrightarrow> new_root D hk trie_valid content so r' \<Longrightarrow> r = r'"
proof (cases "dom (pendingStorage (obj_finalise so)) = {}")
  case False
  let ?p = "pendingStorage (obj_finalise so)"
  assume "new_root D hk trie_valid content so r" "new_root D hk trie_valid content so r'"
  with False obtain t t1 t2 where
    1: "trie_valid t1" "r = trie_Hash D t1"
      "overwrites (\<lambda>key. hk (Hash_Bytes key)) (changed ?p so) (slot_written ?p) (content t) (content t1)" and
    2: "trie_valid t2" "r' = trie_Hash D t2"
      "overwrites (\<lambda>key. hk (Hash_Bytes key)) (changed ?p so) (slot_written ?p) (content t) (content t2)"
    by (auto simp: new_root_def Let_def)
  have "content t1 = content t2" by (rule overwrites_unique [OF 1(3) 2(3)]) (simp add: slot_written_def)
  from hash_content [OF 1(1) 2(1) this] 1(2) 2(2) show ?thesis by simp
qed (simp add: new_root_def)

lemma updateRoot_ok:
  assumes "storage_ready D hk trie_valid so" "distinct keys" "set keys = dom (pendingStorage (obj_finalise so))"
  obtains so' st r where "updateRoot X D keys so s = Done (so', s\<lparr>snapStorage := st\<rparr>)" "new_root D hk trie_valid content so r"
    "so_data so' = (so_data so)\<lparr>acc_Root := r\<rparr>" "so_address so' = so_address so" "addrHash so' = addrHash so"
    "deleted so' = deleted so"
proof (cases "dom (pendingStorage (obj_finalise so)) = {}")
  case True
  then have "updateRoot X D keys so s = Done (case so_trie so of None \<Rightarrow> obj_finalise so
      | Some t \<Rightarrow> (obj_finalise so)\<lparr>so_data := (so_data so)\<lparr>acc_Root := trie_Hash D t\<rparr>\<rparr>, s\<lparr>snapStorage := snapStorage s\<rparr>)"
    by (simp add: updateRoot_def updateTrie_def split: option.split)
  from that [OF this, of "case so_trie so of None \<Rightarrow> acc_Root (so_data so) | Some t \<Rightarrow> trie_Hash D t"] True
  show ?thesis by (simp add: new_root_def split: option.splits)
next
  case False
  let ?so1 = "obj_finalise so" and ?p = "pendingStorage (obj_finalise so)"
  obtain tr so2 where g: "getTrie D ?so1 = (tr, so2)" by fastforce
  have fst: "fst (getTrie D ?so1) = fst (getTrie D so)" by (simp add: getTrie_def Let_def split: option.split sum.split)
  obtain t where t: "tr = Some t" "trie_valid t" "fst (getTrie D so) = Some t" and inj: "inj_on (\<lambda>key. hk (Hash_Bytes key)) (set keys)"
    using assms False fst g by (auto simp: storage_ready_def Let_def)
  note f = getTrie_fields [OF g]
  define storage where "storage = (if sd_snap s \<noteq> None
    then Some (case snapStorage s (addrHash so) of None \<Rightarrow> Map.empty | Some st \<Rightarrow> st) else None)"
  obtain t' storage' origin' where w: "write_slots X D ?p keys (so2, storage) =
      Done (so2\<lparr>originStorage := origin', so_trie := Some t'\<rparr>, storage')" "trie_valid t'"
    "overwrites (\<lambda>key. hk (Hash_Bytes key)) (set keys \<inter> changed ?p so2) (slot_written ?p) (content t) (content t')"
    using write_slots_ok [of so2 t keys X ?p storage] f t inj assms(2) by auto
  have "set keys \<inter> changed ?p so2 = changed ?p so" using assms(3) f by (auto simp: changed_def)
  with w(2,3) t(3) False have root: "new_root D hk trie_valid content so (trie_Hash D t')" by (auto simp: new_root_def Let_def)
  let ?so' = "so2\<lparr>originStorage := origin', so_trie := Some t', pendingStorage := Map.empty,
    so_data := (so_data so)\<lparr>acc_Root := trie_Hash D t'\<rparr>\<rparr>"
  have "updateRoot X D keys so s = Done (?so', case storage' of None \<Rightarrow> s | Some st \<Rightarrow> s\<lparr>snapStorage := (snapStorage s)(addrHash so \<mapsto> st)\<rparr>)"
    unfolding updateRoot_def updateTrie_def Let_def if_not_P [OF False] g prod.case obj_finalise_fields f(3) storage_def [symmetric] w(1)
    by (simp add: f)
  also have "(case storage' of None \<Rightarrow> s | Some st \<Rightarrow> s\<lparr>snapStorage := (snapStorage s)(addrHash so \<mapsto> st)\<rparr>) =
      s\<lparr>snapStorage := case storage' of None \<Rightarrow> snapStorage s | Some st \<Rightarrow> (snapStorage s)(addrHash so \<mapsto> st)\<rparr>"
    by (simp split: option.split)
  finally show ?thesis by (rule that [OF _ root]) (simp_all add: f)
qed

text \<open>What the account trie must hold for an address after \<open>IntermediateRoot\<close>, and when the account
  can be written with the slots in the order \<open>keys\<close>.\<close>

lemma committed_unique: "committed D hk trie_valid content s a v \<Longrightarrow> committed D hk trie_valid content s a w \<Longrightarrow> v = w"
  unfolding committed_def using new_root_unique by (metis option.inject)

lemma updateStateObject_ok:
  assumes "trie_valid (sd_trie s)" "account_fits (so_data so)"
  obtains s' where "updateStateObject X D so s = Done s'" "trie_valid (sd_trie s')" "stateObjects s' = stateObjects s"
    "content (sd_trie s') = (content (sd_trie s))(hk (Address_Bytes (so_address so)) \<mapsto> rlp_ref (account_value (so_data so)))"
    "sd_dbErr s' = sd_dbErr s"
proof -
  let ?k = "Address_Bytes (so_address so)" and ?v = "rlp_ref (account_value (so_data so))"
  note enc = account_encoded [OF assms(2)]
  obtain t' where t': "TryUpdate D (sd_trie s) ?k ?v = (t', None)" "trie_valid t'" "content t' = (content (sd_trie s))(hk ?k \<mapsto> ?v)"
    using update [OF assms(1), of ?k ?v] enc(2) by auto
  obtain slim where slim: "SlimAccountRLP X (acc_Nonce (so_data so)) (acc_Balance (so_data so)) (acc_Root (so_data so))
      (acc_CodeHash (so_data so)) = Done slim" using enc(3) by blast
  show thesis
  proof (cases "sd_snap s = None")
    case True
    then have "updateStateObject X D so s = Done (s\<lparr>sd_trie := t'\<rparr>)"
      using enc(1) t'(1) by (simp add: updateStateObject_def obj_EncodeRLP_def)
    from that [OF this] t' show ?thesis by simp
  next
    case False
    then have "updateStateObject X D so s = Done (s\<lparr>sd_trie := t', snapAccounts := (snapAccounts s)(addrHash so \<mapsto> slim)\<rparr>)"
      using enc(1) t'(1) slim by (simp add: updateStateObject_def obj_EncodeRLP_def)
    from that [OF this] t' show ?thesis by simp
  qed
qed

lemma write_object_ok:
  assumes "trie_valid (sd_trie s)" "account_ready D hk trie_valid s keys a"
  obtains s' v where "write_object X D keys a s = Done s'" "trie_valid (sd_trie s')" "committed D hk trie_valid content s a v"
    "content (sd_trie s') = (content (sd_trie s))(hk (Address_Bytes a) := v)" "\<And>b. b \<noteq> a \<Longrightarrow> stateObjects s' b = stateObjects s b"
    "sd_dbErr s' = sd_dbErr s"
proof -
  obtain so where so: "stateObjects s a = Some so" "so_address so = a"
    and ready: "\<not> deleted so \<Longrightarrow> account_fits (so_data so) \<and> storage_ready D hk trie_valid so \<and> distinct (keys a) \<and>
      set (keys a) = dom (pendingStorage (obj_finalise so))"
    using assms(2) by (auto simp: account_ready_def)
  show thesis
  proof (cases "deleted so")
    case True
    obtain t' where t': "TryDelete D (sd_trie s) (Address_Bytes a) = (t', None)" "trie_valid t'"
      "content t' = (content (sd_trie s))(hk (Address_Bytes a) := None)"
      using remove [OF assms(1), of "Address_Bytes a"] by auto
    have "write_object X D keys a s = Done (s\<lparr>sd_trie := t'\<rparr>)"
      using so True t'(1) by (simp add: write_object_def deleteStateObject_def)
    from that [OF this, of None] t' so True show ?thesis by (simp add: committed_def)
  next
    case False
    with ready have r: "account_fits (so_data so)" "storage_ready D hk trie_valid so" "distinct (keys a)"
      "set (keys a) = dom (pendingStorage (obj_finalise so))" by blast+
    obtain so' st root where u: "updateRoot X D (keys a) so s = Done (so', s\<lparr>snapStorage := st\<rparr>)" "new_root D hk trie_valid content so root"
      "so_data so' = (so_data so)\<lparr>acc_Root := root\<rparr>" "so_address so' = so_address so"
      by (rule updateRoot_ok [OF r(2,3,4), of X s])
    let ?s1 = "s\<lparr>snapStorage := st, stateObjects := (stateObjects s)(a \<mapsto> so')\<rparr>"
    obtain s' where s': "updateStateObject X D so' ?s1 = Done s'" "trie_valid (sd_trie s')" "stateObjects s' = stateObjects ?s1"
      "content (sd_trie s') = (content (sd_trie ?s1))(hk (Address_Bytes (so_address so')) \<mapsto> rlp_ref (account_value (so_data so')))"
      "sd_dbErr s' = sd_dbErr ?s1"
      by (rule updateStateObject_ok [of ?s1 so' X]) (use assms(1) r(1) u(3) in \<open>auto simp: account_fits_def\<close>)
    have "write_object X D keys a s = Done s'" using so False u(1) s'(1) by (simp add: write_object_def)
    from that [OF this s'(2), of "Some (rlp_ref (account_value (so_data so')))"] show ?thesis
      using s' u so False by (auto simp: committed_def)
  qed
qed

lemma write_objects_ok:
  assumes "trie_valid (sd_trie s)" "distinct addrs" "\<forall>a\<in>set addrs. account_ready D hk trie_valid s keys a" "inj_on (\<lambda>a. hk (Address_Bytes a)) (set addrs)"
  shows "\<exists>s'. write_objects X D keys addrs s = Done s' \<and> trie_valid (sd_trie s') \<and> sd_dbErr s' = sd_dbErr s \<and>
    overwrites (\<lambda>a. hk (Address_Bytes a)) (set addrs) (committed D hk trie_valid content s) (content (sd_trie s)) (content (sd_trie s'))"
  using assms
proof (induction addrs arbitrary: s)
  case (Cons a addrs)
  obtain s1 v where s1: "write_object X D keys a s = Done s1" "trie_valid (sd_trie s1)" "committed D hk trie_valid content s a v"
    "content (sd_trie s1) = (content (sd_trie s))(hk (Address_Bytes a) := v)" "\<And>b. b \<noteq> a \<Longrightarrow> stateObjects s1 b = stateObjects s b"
    "sd_dbErr s1 = sd_dbErr s"
    using write_object_ok [OF Cons.prems(1), of keys a X] Cons.prems(3) by auto
  have same: "stateObjects s1 b = stateObjects s b" if "b \<in> set addrs" for b using that Cons.prems(2) by (intro s1(5)) auto
  have ready: "\<forall>b\<in>set addrs. account_ready D hk trie_valid s1 keys b" using Cons.prems(3) by (simp add: account_ready_def same)
  obtain s' where s': "write_objects X D keys addrs s1 = Done s'" "trie_valid (sd_trie s')" "sd_dbErr s' = sd_dbErr s1"
    "overwrites (\<lambda>a. hk (Address_Bytes a)) (set addrs) (committed D hk trie_valid content s1) (content (sd_trie s1)) (content (sd_trie s'))"
    using Cons.IH [OF s1(2) _ ready] Cons.prems(2,4) by (auto intro: inj_on_subset)
  have "overwrites (\<lambda>a. hk (Address_Bytes a)) (set addrs) (committed D hk trie_valid content s) (content (sd_trie s1)) (content (sd_trie s'))"
    using s'(4) by (rule overwrites_mono) (simp add: committed_def same)
  from overwrites_insert [OF this [unfolded s1(4)] s1(3)] Cons.prems(2,4)
  have "overwrites (\<lambda>a. hk (Address_Bytes a)) (set (a # addrs)) (committed D hk trie_valid content s) (content (sd_trie s)) (content (sd_trie s'))" by simp
  with s' s1 show ?case by simp
qed simp

lemma IntermediateRoot_writes:
  assumes F: "F = Finalise X del dirty s" and "trie_valid (sd_trie F)" "distinct pending" "set pending = stateObjectsPending F"
    and "\<forall>a\<in>stateObjectsPending F. account_ready D hk trie_valid F keys a" "inj_on (\<lambda>a. hk (Address_Bytes a)) (stateObjectsPending F)"
  shows "\<exists>s'. IntermediateRoot X D del dirty pending keys s = Done (trie_Hash D (sd_trie s'), s') \<and> trie_valid (sd_trie s') \<and>
    stateObjectsPending s' = {} \<and> sd_dbErr s' = sd_dbErr F \<and>
    overwrites (\<lambda>a. hk (Address_Bytes a)) (stateObjectsPending F) (committed D hk trie_valid content F) (content (sd_trie F)) (content (sd_trie s'))"
proof -
  obtain s1 where "write_objects X D keys pending F = Done s1" "trie_valid (sd_trie s1)" "sd_dbErr s1 = sd_dbErr F"
    "overwrites (\<lambda>a. hk (Address_Bytes a)) (set pending) (committed D hk trie_valid content F) (content (sd_trie F)) (content (sd_trie s1))"
    using write_objects_ok [of F pending keys X] assms by auto
  then show ?thesis using assms(4) by (intro exI [of _ "s1\<lparr>stateObjectsPending := {}\<rparr>"]) (simp add: IntermediateRoot_def flip: F)
qed

text \<open>The root does not depend on the orders of the iterations.\<close>

lemma IntermediateRoot_root:
  assumes F: "F = Finalise X del dirty s" "F = Finalise X del dirty' s" and valid: "trie_valid (sd_trie F)"
    and p: "distinct pending" "set pending = stateObjectsPending F" "distinct pending'" "set pending' = stateObjectsPending F"
    and k: "\<forall>a\<in>stateObjectsPending F. account_ready D hk trie_valid F keys a" "\<forall>a\<in>stateObjectsPending F. account_ready D hk trie_valid F keys' a"
    and inj: "inj_on (\<lambda>a. hk (Address_Bytes a)) (stateObjectsPending F)"
  shows "\<exists>root s1 s2. IntermediateRoot X D del dirty pending keys s = Done (root, s1) \<and>
    IntermediateRoot X D del dirty' pending' keys' s = Done (root, s2)"
proof -
  obtain s1 where 1: "IntermediateRoot X D del dirty pending keys s = Done (trie_Hash D (sd_trie s1), s1)" "trie_valid (sd_trie s1)"
    "overwrites (\<lambda>a. hk (Address_Bytes a)) (stateObjectsPending F) (committed D hk trie_valid content F) (content (sd_trie F)) (content (sd_trie s1))"
    using IntermediateRoot_writes [OF F(1) valid p(1,2) k(1) inj] by auto
  obtain s2 where 2: "IntermediateRoot X D del dirty' pending' keys' s = Done (trie_Hash D (sd_trie s2), s2)" "trie_valid (sd_trie s2)"
    "overwrites (\<lambda>a. hk (Address_Bytes a)) (stateObjectsPending F) (committed D hk trie_valid content F) (content (sd_trie F)) (content (sd_trie s2))"
    using IntermediateRoot_writes [OF F(2) valid p(3,4) k(2) inj] by auto
  have "content (sd_trie s1) = content (sd_trie s2)" by (rule overwrites_unique [OF 1(3) 2(3)]) (rule committed_unique)
  from hash_content [OF 1(2) 2(2) this] 1(1) 2(1) show ?thesis by simp
qed

end

end
