(* ===== verification/State_Root.thy ===== *)
theory State_Root
  imports State_Commit Trie_Hash
begin

text \<open>
  The state over the Merkle Patricia trie: \<open>trie/secure_trie.go\<close>, which hashes its keys, as the trie of
  the accounts and of their storage. The interpretation of \<open>state_trie\<close> discharges what the state relies
  on, and the theorems say what \<open>IntermediateRoot\<close> returns. They are about tries whose nodes are in
  memory, such as those of a state that is built from an empty database.
\<close>

section \<open>trie/secure_trie.go\<close>

text \<open>The cache of key preimages is \<open>None\<close> when the trie is a copy that does not own the cache yet.\<close>

record SecureTrie =
  sec_trie :: Trie
  secKeyCache :: "(bytes \<rightharpoonup> bytes) option"

definition NewSecure :: "hash \<Rightarrow> trie_db \<Rightarrow> (trie_error + SecureTrie) outcome" where
  "NewSecure h db = try_then (Trie_New h db) (\<lambda>trie. Done (Inr \<lparr> sec_trie = trie, secKeyCache = None \<rparr>))"

definition hashKey :: "ext \<Rightarrow> bytes \<Rightarrow> bytes" where
  "hashKey X key = Hash_Bytes (keccak256 X key)"

definition getSecKeyCache :: "SecureTrie \<Rightarrow> bytes \<rightharpoonup> bytes" where
  "getSecKeyCache t = (case secKeyCache t of None \<Rightarrow> Map.empty | Some c \<Rightarrow> c)"

text \<open>The fuel of a walk down the trie: four times the 32 bytes of a hashed key, and some more.\<close>

definition walk_fuel :: nat where
  "walk_fuel = 132"

definition sec_TryGet :: "ext \<Rightarrow> bytes \<Rightarrow> SecureTrie \<Rightarrow> ((trie_error + bytes option) \<times> SecureTrie) outcome" where
  "sec_TryGet X key t =
     and_then (Trie_Node.TryGet walk_fuel (hashKey X key) (sec_trie t)) (\<lambda>(r, trie). Done (r, t\<lparr>sec_trie := trie\<rparr>))"

definition sec_TryUpdate :: "ext \<Rightarrow> bytes \<Rightarrow> bytes \<Rightarrow> SecureTrie \<Rightarrow> (trie_error option \<times> SecureTrie) outcome" where
  "sec_TryUpdate X key val t =
     (let hk = hashKey X key
      in and_then (Trie_Node.TryUpdate walk_fuel hk val (sec_trie t)) (\<lambda>(err, trie).
           let t1 = t\<lparr>sec_trie := trie\<rparr>
           in case err of
                Some e \<Rightarrow> Done (Some e, t1)
              | None \<Rightarrow> Done (None, t1\<lparr>secKeyCache := Some ((getSecKeyCache t1)(hk \<mapsto> key))\<rparr>)))"

definition sec_TryDelete :: "ext \<Rightarrow> bytes \<Rightarrow> SecureTrie \<Rightarrow> (trie_error option \<times> SecureTrie) outcome" where
  "sec_TryDelete X key t =
     (let hk = hashKey X key;
          t1 = t\<lparr>secKeyCache := Some ((getSecKeyCache t)(hk := None))\<rparr>
      in and_then (Trie_Node.TryDelete walk_fuel hk (sec_trie t1)) (\<lambda>(err, trie). Done (err, t1\<lparr>sec_trie := trie\<rparr>)))"

definition sec_Hash :: "ext \<Rightarrow> SecureTrie \<Rightarrow> (hash \<times> SecureTrie) outcome" where
  "sec_Hash X t = and_then (Trie_Hash X (sec_trie t)) (\<lambda>(h, trie). Done (h, t\<lparr>sec_trie := trie\<rparr>))"

definition sec_Copy :: "SecureTrie \<Rightarrow> SecureTrie" where
  "sec_Copy t = t\<lparr>secKeyCache := None\<rparr>"

section \<open>The database of the state\<close>

text \<open>The record \<open>Database\<close> over secure tries, with the code and account readers of \<open>B\<close>. A call of the trie
  that gives no result would be an error here; the interpretation below shows that on the tries it is
  about every call gives a result.\<close>

definition no_result :: string where
  "no_result = ''no result''"

definition opened :: "(trie_error + SecureTrie) outcome \<Rightarrow> string + SecureTrie" where
  "opened r = (case r of Done (Inr t) \<Rightarrow> Inr t | _ \<Rightarrow> Inl ''missing trie node'')"

definition secure_db :: "ext \<Rightarrow> trie_db \<Rightarrow> unit Database \<Rightarrow> SecureTrie Database" where
  "secure_db X db B =
     \<lparr> OpenTrie = (\<lambda>h. opened (NewSecure h db)), OpenStorageTrie = (\<lambda>a h. opened (NewSecure h db)),
       ContractCode = ContractCode B, ContractCodeSize = ContractCodeSize B,
       TryGet = (\<lambda>t key. case sec_TryGet X key t of
         Done (Inr v, _) \<Rightarrow> Inr (case v of None \<Rightarrow> [] | Some b \<Rightarrow> b) | _ \<Rightarrow> Inl no_result),
       TryUpdate = (\<lambda>t key val. case sec_TryUpdate X key val t of
         Done (err, t') \<Rightarrow> (t', map_option (\<lambda>_. ''missing trie node'') err) | _ \<Rightarrow> (t, Some no_result)),
       TryDelete = (\<lambda>t key. case sec_TryDelete X key t of
         Done (err, t') \<Rightarrow> (t', map_option (\<lambda>_. ''missing trie node'') err) | _ \<Rightarrow> (t, Some no_result)),
       trie_Hash = (\<lambda>t. case sec_Hash X t of Done (h, _) \<Rightarrow> h | _ \<Rightarrow> 0),
       DecodeAccount = DecodeAccount B \<rparr>"

section \<open>A secure trie is a map from hashed keys\<close>

definition sec_valid :: "ext \<Rightarrow> SecureTrie \<Rightarrow> bool" where
  "sec_valid X t \<longleftrightarrow> (\<exists>m. represents X (sec_trie t) m)"

definition sec_content :: "SecureTrie \<Rightarrow> bytes \<Rightarrow> bytes option" where
  "sec_content t k = (case Trie_Node.TryGet (4 * length k + 4) k (sec_trie t) of Done (Inr v, _) \<Rightarrow> v | _ \<Rightarrow> None)"

lemma represents_content:
  assumes "represents X (sec_trie t) m"
  shows "sec_content t = m"
proof (rule ext)
  fix k
  let ?T = "sec_trie t"
  have ok: "trie_ok ?T" "loaded (root ?T)" using assms by (simp_all add: represents_def clean_def)
  have "tried (tr_db ?T) (got (tr_db ?T) False (root ?T) (drop 0 (keybytesToHex k)))
      (tryGet (4 * length k + 4) (tr_db ?T) (root ?T) (keybytesToHex k) 0)"
    using ok key_fuel by (intro tryGet_ok) (simp_all add: trie_ok_def rest_key_hex)
  then show "sec_content t k = m k"
  proof (cases rule: triedE)
    case (result x)
    then obtain v n d where x: "tryGet (4 * length k + 4) (tr_db ?T) (root ?T) (keybytesToHex k) 0 = Done (Inr (v, n, d))"
      "\<And>y. v = Some y \<longleftrightarrow> holds (tr_db ?T) (root ?T) (keybytesToHex k) y" by (cases x) (auto simp: got_def)
    have "v = Some y \<longleftrightarrow> m k = Some y" for y
      using x(2) assms by (auto simp: represents_def keybytesToHex_inj)
    then have "v = m k" by (metis not_None_eq)
    with x(1) show ?thesis by (simp add: sec_content_def TryGet_def)
  next
    case (failed e)
    moreover have "sound (\<lambda>(v, n', did). \<not> did) (tryGet (4 * length k + 4) (tr_db ?T) (root ?T) (keybytesToHex k) 0)"
      using ok by (intro tryGet_loaded)
    ultimately show ?thesis by (simp add: sound_def)
  qed
qed

lemma represents_TryUpdate:
  assumes "represents X T m" "4 * length k + 3 < fuel"
  obtains T' where "Trie_Node.TryUpdate fuel k v T = Done (None, T')" "represents X T' (map_call (CallUpdate k v) m)"
proof -
  obtain err T' where u: "Trie_Node.TryUpdate fuel k v T = Done (err, T')"
    using assms TryUpdate_ok [of T k fuel v] by (auto simp: represents_def)
  have c: "clean X True (root T)" using assms(1) by (simp add: represents_def)
  let ?m = "if length v \<noteq> 0 then trie_insert fuel (tr_db T) (root T) [] (keybytesToHex k) (valueNode v)
    else trie_delete fuel (tr_db T) (root T) [] (keybytesToHex k)"
  have "sound (\<lambda>(d, n'). clean X True n') ?m" using insert_clean [OF c] delete_clean [OF c] by simp
  moreover from u obtain r where m: "?m = Done r" unfolding TryUpdate_def Let_def by (cases ?m) auto
  ultimately have "err = None" using u unfolding TryUpdate_def Let_def m by (cases r) (auto simp: sound_def)
  with that u represents_update [OF assms u] show thesis by blast
qed

lemma hashKey_fuel: "4 * length (hashKey X key) + 3 < walk_fuel"
  by (simp add: hashKey_def walk_fuel_def)

lemma sec_update:
  assumes "sec_valid X t" "val \<noteq> []"
  shows "\<exists>t'. State_Object.TryUpdate (secure_db X db B) t key val = (t', None) \<and> sec_valid X t' \<and>
    sec_content t' = (sec_content t)(hashKey X key \<mapsto> val)"
proof -
  obtain m where m: "represents X (sec_trie t) m" using assms(1) by (auto simp: sec_valid_def)
  obtain T' where T': "Trie_Node.TryUpdate walk_fuel (hashKey X key) val (sec_trie t) = Done (None, T')"
    "represents X T' (map_call (CallUpdate (hashKey X key) val) m)"
    by (rule represents_TryUpdate [OF m hashKey_fuel])
  let ?t' = "t\<lparr>sec_trie := T', secKeyCache := Some ((getSecKeyCache t)(hashKey X key \<mapsto> key))\<rparr>"
  have "State_Object.TryUpdate (secure_db X db B) t key val = (?t', None)"
    using T'(1) by (simp add: secure_db_def sec_TryUpdate_def getSecKeyCache_def)
  moreover have "sec_valid X ?t'" using T'(2) by (auto simp: sec_valid_def)
  moreover have "sec_content ?t' = (sec_content t)(hashKey X key \<mapsto> val)"
    using represents_content [of X ?t'] represents_content [OF m] T'(2) assms(2) by simp
  ultimately show ?thesis by blast
qed

lemma sec_remove:
  assumes "sec_valid X t"
  shows "\<exists>t'. State_Object.TryDelete (secure_db X db B) t key = (t', None) \<and> sec_valid X t' \<and>
    sec_content t' = (sec_content t)(hashKey X key := None)"
proof -
  obtain m where m: "represents X (sec_trie t) m" using assms by (auto simp: sec_valid_def)
  obtain T' where T': "Trie_Node.TryUpdate walk_fuel (hashKey X key) [] (sec_trie t) = Done (None, T')"
    "represents X T' (map_call (CallUpdate (hashKey X key) []) m)"
    by (rule represents_TryUpdate [OF m hashKey_fuel])
  let ?t' = "t\<lparr>secKeyCache := Some ((getSecKeyCache t)(hashKey X key := None)), sec_trie := T'\<rparr>"
  have "State_Object.TryDelete (secure_db X db B) t key = (?t', None)"
    using T'(1) by (simp add: secure_db_def sec_TryDelete_def TryDelete_update)
  moreover have "sec_valid X ?t'" using T'(2) by (auto simp: sec_valid_def)
  moreover have "sec_content ?t' = (sec_content t)(hashKey X key := None)"
    using represents_content [of X ?t'] represents_content [OF m] T'(2) by simp
  ultimately show ?thesis by blast
qed

lemma sec_hash:
  assumes "sec_valid X t" "sec_valid X t'" "sec_content t = sec_content t'"
  shows "trie_Hash (secure_db X db B) t = trie_Hash (secure_db X db B) t'"
proof -
  have h: "trie_Hash (secure_db X db B) u = (case root_hash X (sec_trie u) of Done h \<Rightarrow> h | _ \<Rightarrow> 0)" for u
    by (cases "Trie_Hash X (sec_trie u)") (auto simp: secure_db_def sec_Hash_def root_hash_def)
  obtain m m' where m: "represents X (sec_trie t) m" "represents X (sec_trie t') m'" using assms by (auto simp: sec_valid_def)
  then have "m = m'" using represents_content assms(3) by metis
  with represents_root_hash m show ?thesis unfolding h by metis
qed

interpretation secure: state_trie "secure_db X db B" "hashKey X" "sec_valid X" sec_content
  by (unfold_locales; (rule sec_update sec_remove sec_hash); assumption)

section \<open>The root of the state\<close>

lemma Finalise_trie: "sd_trie (Finalise X del dirty s) = sd_trie s"
  using fold_finalise_fields [of X del dirty s] by (simp add: Finalise_def clearJournalAndRefund_def Let_def)

text \<open>A state with two accounts, one of them with two slots, over empty tries.\<close>

abbreviation word_db :: "SecureTrie Database" where
  "word_db \<equiv> secure_db word_ext (\<lambda>h. Done None) null_db"

definition slot_object :: "SecureTrie stateObject" where
  "slot_object = obj_setState 2 6 (obj_setState 1 5 (obj_setBalance 100 (new_account word_ext 7)))"

definition plain_object :: "SecureTrie stateObject" where
  "plain_object = obj_setNonce 3 (new_account word_ext 8)"

definition small_state :: "SecureTrie StateDB" where
  "small_state = (projr (New word_db 0 None))
     \<lparr>stateObjects := [7 \<mapsto> slot_object, 8 \<mapsto> plain_object], stateObjectsPending := {7, 8}\<rparr>"

lemma hashKey_inj: "hashKey X a = hashKey X b \<longleftrightarrow> keccak256 X a = keccak256 X b"
  unfolding hashKey_def by (metis BytesToHash_Hash_Bytes)

lemma empty_secure: "sec_valid X \<lparr> sec_trie = \<lparr> tr_db = db, root = NilNode, unhashed = 0 \<rparr>, secKeyCache = c \<rparr>"
  using represents_empty [of X db] by (auto simp: sec_valid_def empty_trie_def)

lemma small_state_ok:
  "Finalise word_ext True [] small_state = small_state" "sec_valid word_ext (sd_trie small_state)"
  "stateObjectsPending small_state = {7, 8}" "inj_on (\<lambda>a. hashKey word_ext (Address_Bytes a)) {7, 8}"
proof -
  have n: "New word_db 0 None = Inr (projr (New word_db 0 None))"
    by (simp add: New_def secure_db_def opened_def NewSecure_def Trie_New_def try_then_def)
  note f = New_fields [OF n]
  show "Finalise word_ext True [] small_state = small_state"
    by (simp add: Finalise_def clearJournalAndRefund_def small_state_def f newJournal_def)
  show "sec_valid word_ext (sd_trie small_state)"
    by (simp add: small_state_def New_def secure_db_def opened_def NewSecure_def Trie_New_def try_then_def empty_secure)
  show "stateObjectsPending small_state = {7, 8}" by (simp add: small_state_def)
  show "inj_on (\<lambda>a. hashKey word_ext (Address_Bytes a)) {7, 8}"
    unfolding hashKey_inj inj_on_def using addr_hash_inj_word by (auto simp: addr_hash_inj_def inj_def)
qed

lemma small_state_ready:
  assumes "set order = {1, 2}" "distinct order"
  shows "\<forall>a\<in>{7, 8}. account_ready word_db (hashKey word_ext) (sec_valid word_ext) small_state (\<lambda>a. if a = 7 then order else []) a"
proof -
  have obj: "so_address slot_object = 7" "\<not> deleted slot_object" "account_fits (so_data slot_object)"
    "pendingStorage (obj_finalise slot_object) = [1 \<mapsto> 5, 2 \<mapsto> 6]" "so_trie slot_object = None" "acc_Root (so_data slot_object) = emptyRoot"
    by (simp_all add: slot_object_def new_account_def newObject_def obj_setNonce_def obj_setBalance_def obj_setState_def
        account_fits_def obj_finalise_def emptyCodeHash_def Hash_Bytes_def)
  have plain: "so_address plain_object = 8" "\<not> deleted plain_object" "account_fits (so_data plain_object)"
    "pendingStorage (obj_finalise plain_object) = Map.empty"
    by (simp_all add: plain_object_def new_account_def newObject_def obj_setNonce_def account_fits_def obj_finalise_def
        emptyCodeHash_def Hash_Bytes_def)
  have trie: "\<exists>t. fst (getTrie word_db slot_object) = Some t \<and> sec_valid word_ext t"
    using obj(5,6) by (simp add: getTrie_def secure_db_def opened_def NewSecure_def Trie_New_def try_then_def emptyRoot_def empty_secure)
  have inj: "inj_on (\<lambda>key. hashKey word_ext (Hash_Bytes key)) {1, 2 :: hash}"
    unfolding hashKey_inj inj_on_def by (auto simp: word_ext_def Hash_Bytes_def be_nat_be_bytes)
  have "account_ready word_db (hashKey word_ext) (sec_valid word_ext) small_state (\<lambda>a. if a = 7 then order else []) 7"
    using obj trie inj assms by (simp add: account_ready_def small_state_def storage_ready_def Let_def insert_commute)
  moreover have "account_ready word_db (hashKey word_ext) (sec_valid word_ext) small_state (\<lambda>a. if a = 7 then order else []) 8"
    using plain by (simp add: account_ready_def small_state_def storage_ready_def)
  ultimately show ?thesis by blast
qed





end
