(* ===== verification/Core_Types.thy ===== *)
theory Core_Types
  imports State_Object
begin

text \<open>
  \<open>core/types\<close>: the header of a block (\<open>block.go\<close>), receipts (\<open>receipt.go\<close>) and the bloom filter of their
  logs (\<open>bloom9.go\<close>). The filter is an array of 256 bytes; an index outside it would be a panic, and the
  theorem shows that there is none and that no logged address or topic is missed.
\<close>

unbundle bit_operations_syntax

section \<open>core/types/block.go\<close>

record Header =
  ParentHash :: hash
  UncleHash :: hash
  hd_Coinbase :: address
  hd_Root :: hash
  TxHash :: hash
  ReceiptHash :: hash
  hd_Bloom :: bytes
  hd_Difficulty :: int
  hd_Number :: int
  hd_GasLimit :: u64
  hd_GasUsed :: u64
  hd_Time :: u64
  Extra :: bytes
  MixDigest :: hash
  hd_Nonce :: bytes

text \<open>A value that cannot be encoded writes nothing to the hash.\<close>

definition rlpHash :: "ext \<Rightarrow> go_value \<Rightarrow> hash outcome" where
  "rlpHash X v = and_then (EncodeToBytes v) (\<lambda>r. Done (keccak256 X (case r of Inl _ \<Rightarrow> [] | Inr data \<Rightarrow> data)))"

definition Header_value :: "Header \<Rightarrow> go_value" where
  "Header_value h =
     VStruct [VByteArray (Hash_Bytes (ParentHash h)), VByteArray (Hash_Bytes (UncleHash h)), VByteArray (Address_Bytes (hd_Coinbase h)),
       VByteArray (Hash_Bytes (hd_Root h)), VByteArray (Hash_Bytes (TxHash h)), VByteArray (Hash_Bytes (ReceiptHash h)),
       VByteArray (hd_Bloom h), VBigIntPtr (Some (hd_Difficulty h)), VBigIntPtr (Some (hd_Number h)), VUint (hd_GasLimit h),
       VUint (hd_GasUsed h), VUint (hd_Time h), VBytes (Extra h), VByteArray (Hash_Bytes (MixDigest h)), VByteArray (hd_Nonce h)]"

definition Header_Hash :: "ext \<Rightarrow> Header \<Rightarrow> hash outcome" where
  "Header_Hash X h = rlpHash X (Header_value h)"

section \<open>core/types/receipt.go\<close>

record Receipt =
  PostState :: bytes
  Status :: u64
  CumulativeGasUsed :: u64
  rc_Bloom :: bytes
  rc_Logs :: "Log list"
  rc_TxHash :: hash
  ContractAddress :: address
  rc_GasUsed :: u64
  rc_BlockHash :: hash
  rc_BlockNumber :: "int option"
  TransactionIndex :: u64

abbreviation BloomByteLength :: nat where
  "BloomByteLength \<equiv> 256"

definition NewReceipt :: "bytes \<Rightarrow> bool \<Rightarrow> u64 \<Rightarrow> Receipt" where
  "NewReceipt root failed cumulativeGasUsed =
     \<lparr> PostState = root, Status = (if failed then 0 else 1), CumulativeGasUsed = cumulativeGasUsed,
       rc_Bloom = replicate BloomByteLength 0, rc_Logs = [], rc_TxHash = 0, ContractAddress = 0, rc_GasUsed = 0,
       rc_BlockHash = 0, rc_BlockNumber = None, TransactionIndex = 0 \<rparr>"

section \<open>core/types/bloom9.go\<close>

definition be_u16 :: "bytes \<Rightarrow> nat \<Rightarrow> 16 word" where
  "be_u16 b i = push_bit 8 (ucast (b ! i)) OR ucast (b ! (i + 1))"

text \<open>The hash is read into a buffer of six bytes, which give three byte indices and three bits.\<close>

definition bloomValues :: "ext \<Rightarrow> bytes \<Rightarrow> (nat \<times> u8) list" where
  "bloomValues X data =
     (let hashbuf = take 6 (Hash_Bytes (keccak256 X data));
          val = (\<lambda>j. push_bit (unat (hashbuf ! j AND 0x7)) (1 :: u8));
          idx = (\<lambda>j. unat (of_nat BloomByteLength - ucast (drop_bit 3 (be_u16 hashbuf j AND 0x7ff)) - 1 :: u64))
      in [(idx 0, val 1), (idx 2, val 3), (idx 4, val 5)])"

definition bloom_or :: "nat \<times> u8 \<Rightarrow> bytes \<Rightarrow> bytes outcome" where
  "bloom_or = (\<lambda>(i, v) b. if i < length b then Done (b[i := b ! i OR v]) else Panicked SliceBounds)"

fun bloom_ors :: "(nat \<times> u8) list \<Rightarrow> bytes \<Rightarrow> bytes outcome" where
  "bloom_ors [] b = Done b"
| "bloom_ors (iv # ivs) b = and_then (bloom_or iv b) (bloom_ors ivs)"

definition bloom_add :: "ext \<Rightarrow> bytes \<Rightarrow> bytes \<Rightarrow> bytes outcome" where
  "bloom_add X d b = bloom_ors (bloomValues X d) b"

fun bloom_tests :: "(nat \<times> u8) list \<Rightarrow> bytes \<Rightarrow> bool outcome" where
  "bloom_tests [] b = Done True"
| "bloom_tests ((i, v) # ivs) b =
     (if i < length b then (if v = (v AND b ! i) then bloom_tests ivs b else Done False) else Panicked SliceBounds)"

definition bloom_Test :: "ext \<Rightarrow> bytes \<Rightarrow> bytes \<Rightarrow> bool outcome" where
  "bloom_Test X topic b = bloom_tests (bloomValues X topic) b"

fun bloom_topics :: "ext \<Rightarrow> hash list \<Rightarrow> bytes \<Rightarrow> bytes outcome" where
  "bloom_topics X [] b = Done b"
| "bloom_topics X (t # ts) b = and_then (bloom_add X (Hash_Bytes t) b) (bloom_topics X ts)"

fun bloom_logs :: "ext \<Rightarrow> Log list \<Rightarrow> bytes \<Rightarrow> bytes outcome" where
  "bloom_logs X [] b = Done b"
| "bloom_logs X (l # ls) b =
     and_then (bloom_add X (Address_Bytes (log_Address l)) b) (\<lambda>b1.
       and_then (bloom_topics X (log_Topics l) b1) (bloom_logs X ls))"

fun bloom_receipts :: "ext \<Rightarrow> Receipt list \<Rightarrow> bytes \<Rightarrow> bytes outcome" where
  "bloom_receipts X [] b = Done b"
| "bloom_receipts X (r # rs) b = and_then (bloom_logs X (rc_Logs r) b) (bloom_receipts X rs)"

definition CreateBloom :: "ext \<Rightarrow> Receipt list \<Rightarrow> bytes outcome" where
  "CreateBloom X receipts = bloom_receipts X receipts (replicate BloomByteLength 0)"

definition LogsBloom :: "ext \<Rightarrow> Log list \<Rightarrow> bytes outcome" where
  "LogsBloom X ls = bloom_logs X ls (replicate BloomByteLength 0)"

section \<open>Filters grow\<close>

definition sub_bloom :: "bytes \<Rightarrow> bytes \<Rightarrow> bool" where
  "sub_bloom b b' \<longleftrightarrow> length b' = length b \<and> (\<forall>i < length b. b ! i AND b' ! i = b ! i)"

definition in_bloom :: "(nat \<times> u8) list \<Rightarrow> bytes \<Rightarrow> bool" where
  "in_bloom ivs b \<longleftrightarrow> (\<forall>(i, v) \<in> set ivs. i < length b \<and> v AND b ! i = v)"

lemma and_trans: "(x AND y = x) \<Longrightarrow> (y AND z = y) \<Longrightarrow> (x AND z = x)" for x y z :: u8
  by (metis and.assoc)

lemma or_grows: "x AND (x OR v) = x" "v AND (x OR v) = v" for x v :: u8
  by (auto simp: bit_eq_iff bit_simps)

lemma sub_bloom_refl [simp]: "sub_bloom b b"
  by (simp add: sub_bloom_def)

lemma sub_bloom_trans: "sub_bloom a b \<Longrightarrow> sub_bloom b c \<Longrightarrow> sub_bloom a c"
  unfolding sub_bloom_def using and_trans by metis

lemma in_bloom_mono: "in_bloom ivs b \<Longrightarrow> sub_bloom b b' \<Longrightarrow> in_bloom ivs b'"
  unfolding in_bloom_def sub_bloom_def using and_trans by fastforce

lemma bloom_tests_in: "in_bloom ivs b \<Longrightarrow> bloom_tests ivs b = Done True"
  by (induction ivs) (auto simp: in_bloom_def)

lemma bloom_ors_ok:
  assumes "\<forall>(i, v) \<in> set ivs. i < length b"
  shows "\<exists>b'. bloom_ors ivs b = Done b' \<and> sub_bloom b b' \<and> in_bloom ivs b'"
  using assms
proof (induction ivs arbitrary: b)
  case (Cons iv ivs)
  obtain i v where iv: "iv = (i, v)" by fastforce
  let ?b1 = "b[i := b ! i OR v]"
  have i: "i < length b" using Cons.prems iv by simp
  obtain b' where b': "bloom_ors ivs ?b1 = Done b'" "sub_bloom ?b1 b'" "in_bloom ivs b'"
    using Cons.IH [of ?b1] Cons.prems by auto
  have "sub_bloom b ?b1" using i by (simp add: sub_bloom_def nth_list_update or_grows)
  moreover have "in_bloom [iv] ?b1" using i by (simp add: in_bloom_def iv or_grows)
  moreover from this have "in_bloom [iv] b'" by (rule in_bloom_mono [OF _ b'(2)])
  ultimately show ?case using b' i sub_bloom_trans by (auto simp: iv bloom_or_def in_bloom_def)
qed (simp add: in_bloom_def)

lemma bloom_index: "unat (256 - ucast (drop_bit 3 (w AND 0x7ff)) - 1 :: u64) < 256" for w :: "16 word"
proof -
  have "w AND 0x7ff = take_bit 11 w" by (simp add: take_bit_eq_mask mask_eq_exp_minus_1)
  then have "unat (w AND 0x7ff) = unat w mod 2 ^ 11" by (simp add: take_bit_eq_mod unat_mod)
  then have "unat (w AND 0x7ff) < 2048" by simp
  then have "unat (drop_bit 3 (w AND 0x7ff)) < 256"
    by (simp add: drop_bit_eq_div unat_div)
  define x :: u64 where "x = ucast (drop_bit 3 (w AND 0x7ff))"
  have "unat x < 256"
    using \<open>unat (drop_bit 3 (w AND 0x7ff)) < 256\<close> by (simp add: x_def unsigned_ucast_eq take_bit_nat_eq_self)
  then have "x \<le> 255" by (simp add: word_le_nat_alt)
  then have "255 - x \<le> 255" by (metis word_diff_ls(4) word_sub_le)
  moreover have "256 - x - 1 = 255 - x" by simp
  ultimately show ?thesis unfolding x_def [symmetric] by (simp add: word_le_nat_alt)
qed

lemma bloomValues_index: "\<forall>(i, v) \<in> set (bloomValues X d). i < 256"
  using bloom_index by (simp add: bloomValues_def Let_def)

lemma bloom_add_ok:
  assumes "length b = 256"
  obtains b' where "bloom_add X d b = Done b'" "sub_bloom b b'" "in_bloom (bloomValues X d) b'" "length b' = 256"
  using bloom_ors_ok [of "bloomValues X d" b] bloomValues_index [of X d] assms
  by (auto simp: bloom_add_def sub_bloom_def)

definition topics_in :: "ext \<Rightarrow> hash list \<Rightarrow> bytes \<Rightarrow> bool" where
  "topics_in X ts b \<longleftrightarrow> (\<forall>t \<in> set ts. in_bloom (bloomValues X (Hash_Bytes t)) b)"

definition logs_in :: "ext \<Rightarrow> Log list \<Rightarrow> bytes \<Rightarrow> bool" where
  "logs_in X ls b \<longleftrightarrow>
     (\<forall>l \<in> set ls. in_bloom (bloomValues X (Address_Bytes (log_Address l))) b \<and> topics_in X (log_Topics l) b)"

lemma logs_in_mono: "logs_in X ls b \<Longrightarrow> sub_bloom b b' \<Longrightarrow> logs_in X ls b'"
  unfolding logs_in_def topics_in_def using in_bloom_mono by blast

lemma bloom_topics_ok:
  assumes "length b = 256"
  shows "\<exists>b'. bloom_topics X ts b = Done b' \<and> sub_bloom b b' \<and> topics_in X ts b' \<and> length b' = 256"
  using assms
proof (induction ts arbitrary: b)
  case (Cons t ts)
  obtain b1 where b1: "bloom_add X (Hash_Bytes t) b = Done b1" "sub_bloom b b1" "in_bloom (bloomValues X (Hash_Bytes t)) b1" "length b1 = 256"
    by (rule bloom_add_ok [OF Cons.prems])
  with Cons.IH [OF b1(4)] obtain b' where b': "bloom_topics X ts b1 = Done b'" "sub_bloom b1 b'" "topics_in X ts b'" "length b' = 256" by blast
  then show ?case using b1 in_bloom_mono [OF b1(3) b'(2)] sub_bloom_trans [OF b1(2) b'(2)] by (simp add: topics_in_def)
qed (simp add: topics_in_def)

lemma bloom_logs_ok:
  assumes "length b = 256"
  shows "\<exists>b'. bloom_logs X ls b = Done b' \<and> sub_bloom b b' \<and> logs_in X ls b' \<and> length b' = 256"
  using assms
proof (induction ls arbitrary: b)
  case (Cons l ls)
  obtain b1 where b1: "bloom_add X (Address_Bytes (log_Address l)) b = Done b1" "sub_bloom b b1"
    "in_bloom (bloomValues X (Address_Bytes (log_Address l))) b1" "length b1 = 256"
    by (rule bloom_add_ok [OF Cons.prems])
  obtain b2 where b2: "bloom_topics X (log_Topics l) b1 = Done b2" "sub_bloom b1 b2" "topics_in X (log_Topics l) b2" "length b2 = 256"
    using bloom_topics_ok [OF b1(4)] by blast
  have "logs_in X [l] b2" using in_bloom_mono [OF b1(3) b2(2)] b2(3) by (simp add: logs_in_def)
  moreover obtain b' where b': "bloom_logs X ls b2 = Done b'" "sub_bloom b2 b'" "logs_in X ls b'" "length b' = 256"
    using Cons.IH [OF b2(4)] by blast
  ultimately have "logs_in X (l # ls) b'" using logs_in_mono [OF _ b'(2), of X "[l]"] by (simp add: logs_in_def)
  with b1 b2 b' show ?case using sub_bloom_trans [OF sub_bloom_trans [OF b1(2) b2(2)] b'(2)] by simp
qed (simp add: logs_in_def)

lemma bloom_receipts_ok:
  assumes "length b = 256"
  shows "\<exists>b'. bloom_receipts X rs b = Done b' \<and> sub_bloom b b' \<and> (\<forall>r \<in> set rs. logs_in X (rc_Logs r) b') \<and> length b' = 256"
  using assms
proof (induction rs arbitrary: b)
  case (Cons r rs)
  obtain b1 where b1: "bloom_logs X (rc_Logs r) b = Done b1" "sub_bloom b b1" "logs_in X (rc_Logs r) b1" "length b1 = 256"
    using bloom_logs_ok [OF Cons.prems] by blast
  with Cons.IH [OF b1(4)] obtain b' where b': "bloom_receipts X rs b1 = Done b'" "sub_bloom b1 b'"
    "\<forall>r \<in> set rs. logs_in X (rc_Logs r) b'" "length b' = 256" by blast
  then show ?case using b1 logs_in_mono [OF b1(3) b'(2)] sub_bloom_trans [OF b1(2) b'(2)] by simp
qed simp

lemma bloom_Test_logs:
  assumes "logs_in X ls b" "l \<in> set ls"
  shows "bloom_Test X (Address_Bytes (log_Address l)) b = Done True"
    and "t \<in> set (log_Topics l) \<Longrightarrow> bloom_Test X (Hash_Bytes t) b = Done True"
  using assms bloom_tests_in by (auto simp: logs_in_def topics_in_def bloom_Test_def)

section \<open>Properties\<close>

text \<open>C28. No false negatives. \<open>CreateBloom\<close> never indexes outside the filter, and the filter of a block
  tests positive for the address and for every topic of every log of its receipts; so does the
  filter of the receipt itself.\<close>

theorem CreateBloom_complete:
  assumes "r \<in> set receipts" "l \<in> set (rc_Logs r)"
  shows "\<exists>b br. CreateBloom X receipts = Done b \<and> CreateBloom X [r] = Done br \<and> LogsBloom X (rc_Logs r) = Done br \<and>
    bloom_Test X (Address_Bytes (log_Address l)) b = Done True \<and> bloom_Test X (Address_Bytes (log_Address l)) br = Done True \<and>
    (\<forall>t \<in> set (log_Topics l). bloom_Test X (Hash_Bytes t) b = Done True \<and> bloom_Test X (Hash_Bytes t) br = Done True)"
proof -
  obtain b where b: "CreateBloom X receipts = Done b" "\<forall>r \<in> set receipts. logs_in X (rc_Logs r) b"
    using bloom_receipts_ok [of "replicate BloomByteLength 0" X receipts] by (auto simp: CreateBloom_def)
  obtain br where br: "LogsBloom X (rc_Logs r) = Done br" "logs_in X (rc_Logs r) br"
    using bloom_logs_ok [of "replicate BloomByteLength 0" X "rc_Logs r"] by (auto simp: LogsBloom_def)
  have "CreateBloom X [r] = Done br" using br(1) by (simp add: CreateBloom_def LogsBloom_def)
  with b br assms bloom_Test_logs show ?thesis by blast
qed

theorem CreateBloom_complete_witness:
  "\<exists>b. CreateBloom word_ext
      [(NewReceipt [] False 0)\<lparr>rc_Logs := [\<lparr> log_Address = 7, log_Topics = [3], log_Data = [], log_BlockNumber = 0, log_TxHash = 0,
         log_TxIndex = 0, log_BlockHash = 0, log_Index = 0 \<rparr>]\<rparr>] = Done b \<and>
     bloom_Test word_ext (Address_Bytes 7) b = Done True \<and> bloom_Test word_ext (Hash_Bytes 3) b = Done True"
proof -
  let ?l = "\<lparr> log_Address = 7, log_Topics = [3], log_Data = [], log_BlockNumber = 0, log_TxHash = 0,
    log_TxIndex = 0, log_BlockHash = 0, log_Index = 0 \<rparr> :: Log"
  let ?r = "(NewReceipt [] False 0)\<lparr>rc_Logs := [?l]\<rparr>"
  have "?r \<in> set [?r]" "?l \<in> set (rc_Logs ?r)" by simp_all
  from CreateBloom_complete [OF this, of word_ext] show ?thesis by auto
qed

end
