(* ===== verification/Core_Transaction.thy ===== *)
theory Core_Transaction
  imports Core_Types Crypto
begin

text \<open>
  \<open>core/types/transaction.go\<close> and \<open>core/types/transaction_signing.go\<close>: transactions and the three signers.
  Recovering a public key is the parameter \<open>Ecrecover\<close>. The caches of hash and size are left out; the
  cache of the sender is the field \<open>tx_from\<close>. The theorems: a signer recovers what was signed, and a
  transaction that was signed for one chain is refused on every other.
\<close>

section \<open>core/types/transaction.go\<close>

datatype Signer = FrontierSigner | HomesteadSigner | EIP155Signer int

datatype tx_error = ErrInvalidChainId | ErrInvalidSig | ErrEcrecover | ErrInvalidPublicKey

record txdata =
  AccountNonce :: u64
  Price :: int
  tx_GasLimit :: u64
  Recipient :: "address option"
  Amount :: int
  Payload :: bytes
  tx_V :: int
  tx_R :: int
  tx_S :: int

record Transaction =
  tx_data :: txdata
  tx_from :: "(Signer \<times> address) option"

definition newTransaction :: "u64 \<Rightarrow> address option \<Rightarrow> int option \<Rightarrow> u64 \<Rightarrow> int option \<Rightarrow> bytes \<Rightarrow> Transaction" where
  "newTransaction nonce recipient amount gasLimit gasPrice data =
     \<lparr> tx_data = \<lparr> AccountNonce = nonce, Price = (case gasPrice of None \<Rightarrow> 0 | Some p \<Rightarrow> p), tx_GasLimit = gasLimit,
         Recipient = recipient, Amount = (case amount of None \<Rightarrow> 0 | Some a \<Rightarrow> a), Payload = data,
         tx_V = 0, tx_R = 0, tx_S = 0 \<rparr>,
       tx_from = None \<rparr>"

text \<open>\<open>big.Int\<close>: the length in bits and the low 64 bits of the absolute value.\<close>

definition bits_le :: "nat \<Rightarrow> int \<Rightarrow> bool" where
  "bits_le n v = (\<bar>v\<bar> < 2 ^ n)"

definition big_Uint64 :: "int \<Rightarrow> u64" where
  "big_Uint64 v = word_of_int \<bar>v\<bar>"

definition isProtectedV :: "int \<Rightarrow> bool" where
  "isProtectedV v = (if bits_le 8 v then big_Uint64 v \<noteq> 27 \<and> big_Uint64 v \<noteq> 28 else True)"

definition Protected :: "Transaction \<Rightarrow> bool" where
  "Protected tx = isProtectedV (tx_V (tx_data tx))"

definition recipient_value :: "address option \<Rightarrow> go_value" where
  "recipient_value r = (case r of None \<Rightarrow> VNilPtr String | Some a \<Rightarrow> VByteArray (Address_Bytes a))"

definition unsigned_values :: "txdata \<Rightarrow> go_value list" where
  "unsigned_values d =
     [VUint (AccountNonce d), VBigIntPtr (Some (Price d)), VUint (tx_GasLimit d), recipient_value (Recipient d),
      VBigIntPtr (Some (Amount d)), VBytes (Payload d)]"

definition tx_Hash :: "ext \<Rightarrow> Transaction \<Rightarrow> hash outcome" where
  "tx_Hash X tx =
     (let d = tx_data tx
      in rlpHash X (VStruct (unsigned_values d @ [VBigIntPtr (Some (tx_V d)), VBigIntPtr (Some (tx_R d)), VBigIntPtr (Some (tx_S d))])))"

section \<open>Signers\<close>

text \<open>\<open>Div\<close> of \<open>big.Int\<close> is Euclidean division; the divisor is positive.\<close>

definition deriveChainId :: "int \<Rightarrow> int" where
  "deriveChainId v =
     (if bits_le 64 v then
        (let u = big_Uint64 v
         in if u = 27 \<or> u = 28 then 0 else uint ((u - 35) div 2))
      else (v - 35) div 2)"

definition ChainId :: "Transaction \<Rightarrow> int" where
  "ChainId tx = deriveChainId (tx_V (tx_data tx))"

definition signer_Equal :: "Signer \<Rightarrow> Signer \<Rightarrow> bool" where
  "signer_Equal s s2 =
     (case (s, s2) of
        (FrontierSigner, FrontierSigner) \<Rightarrow> True
      | (HomesteadSigner, HomesteadSigner) \<Rightarrow> True
      | (EIP155Signer c, EIP155Signer c2) \<Rightarrow> c2 = c
      | _ \<Rightarrow> False)"

definition signer_Hash :: "ext \<Rightarrow> Signer \<Rightarrow> Transaction \<Rightarrow> hash outcome" where
  "signer_Hash X signer tx =
     rlpHash X (VSlice (unsigned_values (tx_data tx) @
       (case signer of EIP155Signer c \<Rightarrow> [VBigIntPtr (Some c), VUint 0, VUint 0] | _ \<Rightarrow> [])))"

text \<open>The 65 bytes of a signature.\<close>

definition put_sig :: "bytes \<Rightarrow> bytes \<Rightarrow> u8 \<Rightarrow> bytes outcome" where
  "put_sig r s v =
     (if 32 < length r \<or> 32 < length s then Panicked SliceBounds
      else let sig = replicate 65 0;
               sig = copy_slice sig (32 - length r) 32 r;
               sig = copy_slice sig (64 - length s) 64 s
           in Done (sig[64 := v]))"

definition recovered_address :: "ext \<Rightarrow> hash \<Rightarrow> bytes \<Rightarrow> tx_error + address" where
  "recovered_address X sighash sig =
     (case Ecrecover X (Hash_Bytes sighash) sig of
        None \<Rightarrow> Inl ErrEcrecover
      | Some pub \<Rightarrow>
          if length pub = 0 \<or> pub ! 0 \<noteq> 4 then Inl ErrInvalidPublicKey
          else Inr (BytesToAddress (drop 12 (Keccak256 X [drop 1 pub]))))"

definition recoverPlain :: "ext \<Rightarrow> hash \<Rightarrow> int \<Rightarrow> int \<Rightarrow> int \<Rightarrow> bool \<Rightarrow> (tx_error + address) outcome" where
  "recoverPlain X sighash R S Vb homestead =
     (if \<not> bits_le 8 Vb then Done (Inl ErrInvalidSig)
      else
        (let V = ucast (big_Uint64 Vb - 27) :: u8
         in if \<not> ValidateSignatureValues V R S homestead then Done (Inl ErrInvalidSig)
            else and_then (put_sig (min_be (nat R)) (min_be (nat S)) V) (\<lambda>sig. Done (recovered_address X sighash sig))))"

definition signer_Sender :: "ext \<Rightarrow> Signer \<Rightarrow> Transaction \<Rightarrow> (tx_error + address) outcome" where
  "signer_Sender X signer tx =
     (let d = tx_data tx;
          plain = (\<lambda>homestead. and_then (signer_Hash X HomesteadSigner tx) (\<lambda>h. recoverPlain X h (tx_R d) (tx_S d) (tx_V d) homestead))
      in case signer of
           FrontierSigner \<Rightarrow> plain False
         | HomesteadSigner \<Rightarrow> plain True
         | EIP155Signer c \<Rightarrow>
             if \<not> Protected tx then plain True
             else if ChainId tx \<noteq> c then Done (Inl ErrInvalidChainId)
             else and_then (signer_Hash X signer tx) (\<lambda>h. recoverPlain X h (tx_R d) (tx_S d) (tx_V d - 2 * c - 8) True))"

definition Sender :: "ext \<Rightarrow> Signer \<Rightarrow> Transaction \<Rightarrow> ((tx_error + address) \<times> Transaction) outcome" where
  "Sender X signer tx =
     (case tx_from tx of
        Some (s, from) \<Rightarrow>
          if signer_Equal s signer then Done (Inr from, tx)
          else and_then (signer_Sender X signer tx) (\<lambda>r.
                 Done (r, case r of Inl _ \<Rightarrow> tx | Inr addr \<Rightarrow> tx\<lparr>tx_from := Some (signer, addr)\<rparr>))
      | None \<Rightarrow>
          and_then (signer_Sender X signer tx) (\<lambda>r.
            Done (r, case r of Inl _ \<Rightarrow> tx | Inr addr \<Rightarrow> tx\<lparr>tx_from := Some (signer, addr)\<rparr>)))"

text \<open>The sums of bytes wrap.\<close>

definition SignatureValues :: "Signer \<Rightarrow> bytes \<Rightarrow> (int \<times> int \<times> int) outcome" where
  "SignatureValues signer sig =
     (if length sig \<noteq> 65 then Panicked (Explicit ''wrong size for signature'')
      else
        (let r = int (be_nat (slice sig 0 32)); s = int (be_nat (slice sig 32 64)); v = uint (sig ! 64 + 27)
         in Done (r, s, case signer of EIP155Signer c \<Rightarrow> if c \<noteq> 0 then uint (sig ! 64 + 35) + 2 * c else v | _ \<Rightarrow> v)))"

definition WithSignature :: "Signer \<Rightarrow> bytes \<Rightarrow> Transaction \<Rightarrow> Transaction outcome" where
  "WithSignature signer sig tx =
     and_then (SignatureValues signer sig) (\<lambda>(r, s, v).
       Done \<lparr> tx_data = (tx_data tx)\<lparr>tx_V := v, tx_R := r, tx_S := s\<rparr>, tx_from = None \<rparr>)"

section \<open>The bytes of a signature\<close>

lemma min_be_padded:
  assumes "length b = n"
  shows "length (min_be (be_nat b)) \<le> n" "replicate (n - length (min_be (be_nat b))) 0 @ min_be (be_nat b) = b"
proof -
  show le: "length (min_be (be_nat b)) \<le> n" using be_nat_less [of b] assms by (simp add: length_min_be_le)
  show "replicate (n - length (min_be (be_nat b))) 0 @ min_be (be_nat b) = b"
    by (rule be_nat_inj) (use le assms in \<open>simp_all add: be_nat_append be_nat_min_be\<close>)
qed

lemma copy_slice_zeros:
  "length r \<le> n \<Longrightarrow> copy_slice (p @ replicate n 0 @ q) (length p + n - length r) (length p + n) r = p @ replicate (n - length r) 0 @ r @ q"
  by (simp add: copy_slice_def Let_def min_def)

lemma put_sig_slices:
  assumes "length sig = 65"
  shows "put_sig (min_be (be_nat (slice sig 0 32))) (min_be (be_nat (slice sig 32 64))) (sig ! 64) = Done sig"
proof -
  let ?a = "slice sig 0 32" and ?b = "slice sig 32 64"
  have len: "length ?a = 32" "length ?b = 32" using assms by (simp_all add: slice_def)
  note a = min_be_padded [OF len(1)] and b = min_be_padded [OF len(2)]
  have sig: "sig = ?a @ ?b @ [sig ! 64]"
  proof -
    have "sig = take 32 sig @ take 32 (drop 32 sig) @ drop 64 sig" 
      using append_take_drop_id [of 32 sig] append_take_drop_id [of 32 "drop 32 sig"] by simp
    moreover have "drop 64 sig = [sig ! 64]" using assms by (simp add: list_eq_iff_nth_eq)
    ultimately show ?thesis by (simp add: slice_def)
  qed
  have z: "replicate 65 0 = [] @ replicate 32 (0::u8) @ replicate 33 0" by (simp flip: replicate_add)
  have 1: "copy_slice (replicate 65 0) (32 - length (min_be (be_nat ?a))) 32 (min_be (be_nat ?a)) = ?a @ replicate 33 0"
    using copy_slice_zeros [OF a(1), of "[]" "replicate 33 0"] a(2) unfolding z by simp
  have z2: "?a @ replicate 33 0 = ?a @ replicate 32 (0::u8) @ [0]" using replicate_add [of 32 1 "0::u8"] by simp
  have 2: "copy_slice (?a @ replicate 33 0) (64 - length (min_be (be_nat ?b))) 64 (min_be (be_nat ?b)) = ?a @ ?b @ [0]"
    using copy_slice_zeros [OF b(1), of ?a "[0]"] b(2) len(1) unfolding z2 by simp
  have "(?a @ ?b @ [0])[64 := w] = ?a @ ?b @ [w]" for w using assms by (simp add: list_update_append)
  then have "(?a @ ?b @ [0])[64 := sig ! 64] = sig" using sig by simp
  then show ?thesis using a(1) b(1) by (simp add: put_sig_def 1 2)
qed

section \<open>Signing\<close>

text \<open>A signature whose values are in range, with the recovery identifier 0 or 1.\<close>

definition proper_sig :: "bytes \<Rightarrow> bool" where
  "proper_sig sig \<longleftrightarrow> length sig = 65 \<and>
     ValidateSignatureValues (sig ! 64) (int (be_nat (slice sig 0 32))) (int (be_nat (slice sig 32 64))) True"

lemma recoverPlain_sig:
  assumes "proper_sig sig" "Vb = uint (sig ! 64) + 27"
  shows "recoverPlain X h (int (be_nat (slice sig 0 32))) (int (be_nat (slice sig 32 64))) Vb homestead =
    Done (recovered_address X h sig)"
proof -
  have v: "sig ! 64 = 0 \<or> sig ! 64 = 1" "length sig = 65"
    and valid: "ValidateSignatureValues (sig ! 64) (int (be_nat (slice sig 0 32))) (int (be_nat (slice sig 32 64))) homestead"
    using assms(1) by (auto simp: proper_sig_def ValidateSignatureValues_def split: if_splits)
  have "bits_le 8 Vb" "ucast (big_Uint64 Vb - 27) = sig ! 64"
    using v(1) assms(2) by (auto simp: bits_le_def big_Uint64_def)
  with valid show ?thesis by (simp add: recoverPlain_def put_sig_slices [OF v(2)])
qed

lemma unsigned_values_signature [simp]: "unsigned_values (d\<lparr>tx_V := v, tx_R := r, tx_S := s\<rparr>) = unsigned_values d"
  by (simp add: unsigned_values_def)

definition signed_tx :: "Signer \<Rightarrow> bytes \<Rightarrow> Transaction \<Rightarrow> Transaction" where
  "signed_tx signer sig tx =
     (let v = uint (sig ! 64)
      in \<lparr> tx_data = (tx_data tx)\<lparr>
             tx_V := (case signer of EIP155Signer c \<Rightarrow> if c \<noteq> 0 then v + 35 + 2 * c else v + 27 | _ \<Rightarrow> v + 27),
             tx_R := int (be_nat (slice sig 0 32)), tx_S := int (be_nat (slice sig 32 64))\<rparr>,
           tx_from = None \<rparr>)"

lemma WithSignature_signed: "proper_sig sig \<Longrightarrow> WithSignature signer sig tx = Done (signed_tx signer sig tx)"
  by (auto simp: WithSignature_def SignatureValues_def signed_tx_def proper_sig_def ValidateSignatureValues_def Let_def
      split: Signer.splits if_splits)

lemma signer_Hash_signed [simp]: "signer_Hash X s (signed_tx signer sig tx) = signer_Hash X s tx"
  by (simp add: signer_Hash_def signed_tx_def Let_def)

lemma chain_id_of_v:
  assumes "0 < c" "v = 0 \<or> v = 1"
  shows "isProtectedV (v + 35 + 2 * c)" "deriveChainId (v + 35 + 2 * c) = c"
proof -
  let ?V = "v + 35 + 2 * c"
  have big: "big_Uint64 ?V \<noteq> 27 \<and> big_Uint64 ?V \<noteq> 28" "uint (big_Uint64 ?V) = ?V" if "bits_le 64 ?V"
  proof -
    show u: "uint (big_Uint64 ?V) = ?V"
      using that assms by (auto simp: bits_le_def big_Uint64_def unsigned_of_int take_bit_int_eq_self)
    have "uint (27 :: u64) = 27" "uint (28 :: u64) = 28" by simp_all
    with u assms show "big_Uint64 ?V \<noteq> 27 \<and> big_Uint64 ?V \<noteq> 28" by auto
  qed
  have "bits_le 8 ?V \<Longrightarrow> bits_le 64 ?V" by (simp add: bits_le_def)
  with big(1) show "isProtectedV ?V" by (auto simp: isProtectedV_def)
  show "deriveChainId ?V = c"
  proof (cases "bits_le 64 ?V")
    case True
    note b = big [OF True]
    have "uint (big_Uint64 ?V - 35) = ?V - 35"
      using b(2) assms by (subst uint_sub_lem [THEN iffD1]) (auto simp: word_le_def)
    then have "uint ((big_Uint64 ?V - 35) div 2) = (?V - 35) div 2" by (simp add: uint_div)
    also have "\<dots> = c" using assms(2) by auto
    finally show ?thesis using True b(1) by (simp add: deriveChainId_def Let_def)
  next
    case False
    then show ?thesis using assms(2) by (auto simp: deriveChainId_def)
  qed
qed

lemma plain_rejects_protected:
  assumes "0 < c" "v = 0 \<or> v = 1"
  shows "recoverPlain X h R S (v + 35 + 2 * c) homestead = Done (Inl ErrInvalidSig)"
proof (cases "bits_le 8 (v + 35 + 2 * c)")
  case True
  then have lt: "v + 35 + 2 * c < 256" using assms by (auto simp: bits_le_def)
  have "uint (ucast (big_Uint64 (v + 35 + 2 * c) - 27) :: u8) = v + 8 + 2 * c"
  proof -
    have e: "big_Uint64 (v + 35 + 2 * c) - 27 = word_of_int (v + 8 + 2 * c)" using assms by (auto simp: big_Uint64_def)
    have "uint (ucast (word_of_int n :: u64) :: u8) = n" if "0 \<le> n" "n < 256" for n
      using that by (simp add: unsigned_ucast_eq unsigned_of_int take_bit_int_eq_self)
    from this [of "v + 8 + 2 * c"] show ?thesis unfolding e using lt assms by linarith
  qed
  then have "ucast (big_Uint64 (v + 35 + 2 * c) - 27) \<noteq> (0 :: u8)" "ucast (big_Uint64 (v + 35 + 2 * c) - 27) \<noteq> (1 :: u8)"
    using assms by auto
  then show ?thesis by (simp add: recoverPlain_def ValidateSignatureValues_def Let_def)
qed (simp add: recoverPlain_def)

section \<open>Properties\<close>

text \<open>C17. Signing round trip. For every signer (an EIP-155 signer with a positive chain id) and every
  signature in range, the transaction with that signature has as sender the address of the key
  recovered from exactly these 65 bytes and the hash that was signed; nothing panics on the way, and
  asking again, which reads the cache, gives the same answer.\<close>

theorem Sender_of_signed:
  assumes "proper_sig sig" "\<forall>c. signer = EIP155Signer c \<longrightarrow> 0 < c" "signer_Hash X signer tx = Done h"
  shows "\<exists>tx' tx''. WithSignature signer sig tx = Done tx' \<and> Sender X signer tx' = Done (recovered_address X h sig, tx'') \<and>
    Sender X signer tx'' = Done (recovered_address X h sig, tx'')"
proof -
  let ?tx = "signed_tx signer sig tx"
  have v: "uint (sig ! 64) = 0 \<or> uint (sig ! 64) = 1"
    using assms(1) by (auto simp: proper_sig_def ValidateSignatureValues_def split: if_splits)
  have s: "signer_Sender X signer ?tx = Done (recovered_address X h sig)"
  proof (cases signer)
    case (EIP155Signer c)
    with assms(2) have c: "0 < c" by simp
    note id = chain_id_of_v [OF c v]
    have "tx_V (tx_data ?tx) = uint (sig ! 64) + 35 + 2 * c" using EIP155Signer c by (simp add: signed_tx_def Let_def)
    with id have "Protected ?tx" "ChainId ?tx = c" by (simp_all add: Protected_def ChainId_def)
    with EIP155Signer assms(3) c show ?thesis
      by (simp add: signer_Sender_def) (simp add: signed_tx_def Let_def recoverPlain_sig [OF assms(1)])
  qed (use assms(3) in \<open>simp_all add: signer_Sender_def signer_Hash_def\<close>,
      simp_all add: signed_tx_def Let_def recoverPlain_sig [OF assms(1)])
  have eq: "signer_Equal signer signer" by (cases signer) (simp_all add: signer_Equal_def)
  let ?tx'' = "case recovered_address X h sig of Inl _ \<Rightarrow> ?tx | Inr addr \<Rightarrow> ?tx\<lparr>tx_from := Some (signer, addr)\<rparr>"
  have none: "tx_from ?tx = None" by (simp add: signed_tx_def Let_def)
  then have "Sender X signer ?tx = Done (recovered_address X h sig, ?tx'')" by (simp add: Sender_def s)
  moreover have "Sender X signer ?tx'' = Done (recovered_address X h sig, ?tx'')"
    using s none eq by (simp add: Sender_def split: sum.split)
  ultimately show ?thesis using WithSignature_signed [OF assms(1)] by blast
qed

text \<open>C18. Replay protection. A transaction signed for the chain \<open>c\<close> is refused by the signer of every other
  chain with an invalid chain id, and by the signers before EIP-155 with an invalid signature.\<close>

theorem replay_protected:
  assumes "proper_sig sig" "0 < c" "c' \<noteq> c" "signer_Hash X HomesteadSigner tx = Done h"
  shows "\<exists>tx'. WithSignature (EIP155Signer c) sig tx = Done tx' \<and>
    Sender X (EIP155Signer c') tx' = Done (Inl ErrInvalidChainId, tx') \<and>
    Sender X HomesteadSigner tx' = Done (Inl ErrInvalidSig, tx') \<and> Sender X FrontierSigner tx' = Done (Inl ErrInvalidSig, tx')"
proof -
  let ?tx = "signed_tx (EIP155Signer c) sig tx"
  have v: "uint (sig ! 64) = 0 \<or> uint (sig ! 64) = 1"
    using assms(1) by (auto simp: proper_sig_def ValidateSignatureValues_def split: if_splits)
  note id = chain_id_of_v [OF assms(2) v]
  have V: "tx_V (tx_data ?tx) = uint (sig ! 64) + 35 + 2 * c" "tx_from ?tx = None"
    using assms(2) by (simp_all add: signed_tx_def Let_def)
  have "Protected ?tx" "ChainId ?tx = c" using id V by (simp_all add: Protected_def ChainId_def)
  with V assms plain_rejects_protected [OF assms(2) v] WithSignature_signed [OF assms(1)] show ?thesis
    by (simp add: Sender_def signer_Sender_def Let_def)
qed

definition one_sig :: bytes where
  "one_sig = replicate 31 0 @ [1] @ replicate 31 0 @ [1] @ [0]"

lemma one_sig_proper: "proper_sig one_sig"
  by (simp add: proper_sig_def one_sig_def slice_def nth_append be_nat_append be_nat_Cons ValidateSignatureValues_def
      secp256k1N_def secp256k1halfN_def)

lemma plain_tx_hash:
  "\<exists>h. signer_Hash word_ext HomesteadSigner (newTransaction 0 (Some 5) (Some 1) 21000 (Some 1) []) = Done h"
  "\<exists>h. signer_Hash word_ext (EIP155Signer 1) (newTransaction 0 (Some 5) (Some 1) 21000 (Some 1) []) = Done h"
proof -
  let ?tx = "newTransaction 0 (Some 5) (Some 1) 21000 (Some 1) []"
  have fits: "EncodeToBytes (VSlice (unsigned_values (tx_data ?tx) @ rest)) = Done (Inr (rlp_ref (VSlice (unsigned_values (tx_data ?tx) @ rest))))"
    if "rest = [] \<or> rest = [VBigIntPtr (Some 1), VUint 0, VUint 0]" for rest
    using that
    by (intro EncodeToBytes_ref)
      (auto simp: unsigned_values_def recipient_value_def newTransaction_def rlp_list_def rlp_string_def rlp_head_def min_be_pos)
  show "\<exists>h. signer_Hash word_ext HomesteadSigner ?tx = Done h" "\<exists>h. signer_Hash word_ext (EIP155Signer 1) ?tx = Done h"
    using fits [of "[]"] fits [of "[VBigIntPtr (Some 1), VUint 0, VUint 0]"]
    by (simp_all add: signer_Hash_def rlpHash_def)
qed

theorem Sender_of_signed_witness:
  "\<exists>h tx' tx''. WithSignature (EIP155Signer 1) one_sig (newTransaction 0 (Some 5) (Some 1) 21000 (Some 1) []) = Done tx' \<and>
     Sender word_ext (EIP155Signer 1) tx' = Done (recovered_address word_ext h one_sig, tx'')"
proof -
  obtain h where h: "signer_Hash word_ext (EIP155Signer 1) (newTransaction 0 (Some 5) (Some 1) 21000 (Some 1) []) = Done h"
    using plain_tx_hash(2) by blast
  from Sender_of_signed [OF one_sig_proper _ h] show ?thesis by auto
qed

theorem replay_protected_witness:
  "\<exists>tx'. WithSignature (EIP155Signer 1) one_sig (newTransaction 0 (Some 5) (Some 1) 21000 (Some 1) []) = Done tx' \<and>
     Sender word_ext (EIP155Signer 3) tx' = Done (Inl ErrInvalidChainId, tx')"
proof -
  obtain h where h: "signer_Hash word_ext HomesteadSigner (newTransaction 0 (Some 5) (Some 1) 21000 (Some 1) []) = Done h"
    using plain_tx_hash(1) by blast
  from replay_protected [OF one_sig_proper _ _ h, of 1 3] show ?thesis by auto
qed

end
