(* ===== verification/Params_Config.thy ===== *)
theory Params_Config
  imports Vm_Env
begin

text \<open>
  \<open>params/config.go\<close>: the chain configuration, the rules of a block, the order of the forks and the
  compatibility of a new configuration with a chain that is already there. A nil block number is
  \<open>None\<close>. The theorem relates \<open>checkCompatible\<close> to the rules: what it accepts does not change the past,
  but for the two cases of Petersburg that are stated with it.
\<close>

section \<open>params/config.go\<close>

record ChainConfig =
  cfg_ChainID :: "int option"
  HomesteadBlock :: "int option"
  DAOForkBlock :: "int option"
  DAOForkSupport :: bool
  EIP150Block :: "int option"
  EIP150Hash :: hash
  EIP155Block :: "int option"
  EIP158Block :: "int option"
  ByzantiumBlock :: "int option"
  ConstantinopleBlock :: "int option"
  PetersburgBlock :: "int option"
  IstanbulBlock :: "int option"
  MuirGlacierBlock :: "int option"
  YoloV1Block :: "int option"
  EWASMBlock :: "int option"

definition isForked :: "int option \<Rightarrow> int \<Rightarrow> bool" where
  "isForked s head = (case s of None \<Rightarrow> False | Some b \<Rightarrow> b \<le> head)"

definition configNumEqual :: "int option \<Rightarrow> int option \<Rightarrow> bool" where
  "configNumEqual x y =
     (case x of
        None \<Rightarrow> y = None
      | Some a \<Rightarrow> (case y of None \<Rightarrow> False | Some b \<Rightarrow> a = b))"

definition isForkIncompatible :: "int option \<Rightarrow> int option \<Rightarrow> int \<Rightarrow> bool" where
  "isForkIncompatible s1 s2 head = ((isForked s1 head \<or> isForked s2 head) \<and> \<not> configNumEqual s1 s2)"

definition cfg_IsHomestead :: "ChainConfig \<Rightarrow> int \<Rightarrow> bool" where
  "cfg_IsHomestead c num = isForked (HomesteadBlock c) num"

definition IsDAOFork :: "ChainConfig \<Rightarrow> int \<Rightarrow> bool" where
  "IsDAOFork c num = isForked (DAOForkBlock c) num"

definition cfg_IsEIP150 :: "ChainConfig \<Rightarrow> int \<Rightarrow> bool" where
  "cfg_IsEIP150 c num = isForked (EIP150Block c) num"

definition cfg_IsEIP155 :: "ChainConfig \<Rightarrow> int \<Rightarrow> bool" where
  "cfg_IsEIP155 c num = isForked (EIP155Block c) num"

definition cfg_IsEIP158 :: "ChainConfig \<Rightarrow> int \<Rightarrow> bool" where
  "cfg_IsEIP158 c num = isForked (EIP158Block c) num"

definition cfg_IsByzantium :: "ChainConfig \<Rightarrow> int \<Rightarrow> bool" where
  "cfg_IsByzantium c num = isForked (ByzantiumBlock c) num"

definition cfg_IsConstantinople :: "ChainConfig \<Rightarrow> int \<Rightarrow> bool" where
  "cfg_IsConstantinople c num = isForked (ConstantinopleBlock c) num"

definition IsMuirGlacier :: "ChainConfig \<Rightarrow> int \<Rightarrow> bool" where
  "IsMuirGlacier c num = isForked (MuirGlacierBlock c) num"

definition cfg_IsPetersburg :: "ChainConfig \<Rightarrow> int \<Rightarrow> bool" where
  "cfg_IsPetersburg c num =
     (isForked (PetersburgBlock c) num \<or> PetersburgBlock c = None \<and> isForked (ConstantinopleBlock c) num)"

definition cfg_IsIstanbul :: "ChainConfig \<Rightarrow> int \<Rightarrow> bool" where
  "cfg_IsIstanbul c num = isForked (IstanbulBlock c) num"

definition cfg_IsYoloV1 :: "ChainConfig \<Rightarrow> int \<Rightarrow> bool" where
  "cfg_IsYoloV1 c num = isForked (YoloV1Block c) num"

definition IsEWASM :: "ChainConfig \<Rightarrow> int \<Rightarrow> bool" where
  "IsEWASM c num = isForked (EWASMBlock c) num"

text \<open>\<open>Rules\<close> replaces a nil chain id by zero; the chain id is a field of the environment of the EVM.\<close>

definition rules_ChainID :: "ChainConfig \<Rightarrow> int" where
  "rules_ChainID c = (case cfg_ChainID c of None \<Rightarrow> 0 | Some i \<Rightarrow> i)"

definition cfg_Rules :: "ChainConfig \<Rightarrow> int \<Rightarrow> Rules" where
  "cfg_Rules c num =
     \<lparr> IsHomestead = cfg_IsHomestead c num, IsEIP150 = cfg_IsEIP150 c num, IsEIP155 = cfg_IsEIP155 c num,
       IsEIP158 = cfg_IsEIP158 c num, IsByzantium = cfg_IsByzantium c num, IsConstantinople = cfg_IsConstantinople c num,
       IsPetersburg = cfg_IsPetersburg c num, IsIstanbul = cfg_IsIstanbul c num, IsYoloV1 = cfg_IsYoloV1 c num \<rparr>"

text \<open>The loop of \<open>CheckConfigForkOrder\<close> over the forks: name, block and whether it may be left out. The
  last fork is \<open>None\<close> before the first one.\<close>

datatype config_error =
    ForkNotEnabled string string int
  | ForkOrder string int string int

fun check_forks :: "(string \<times> int option) option \<Rightarrow> (string \<times> int option \<times> bool) list \<Rightarrow> config_error option" where
  "check_forks lastFork [] = None"
| "check_forks lastFork ((name, block, optional) # forks) =
     (let next = (if \<not> optional \<or> block \<noteq> None then Some (name, block) else lastFork)
      in case lastFork of
           None \<Rightarrow> check_forks next forks
         | Some (lastName, lastBlock) \<Rightarrow>
             (case (lastBlock, block) of
                (None, Some b) \<Rightarrow> Some (ForkNotEnabled lastName name b)
              | (Some a, Some b) \<Rightarrow> if a > b then Some (ForkOrder lastName a name b) else check_forks next forks
              | _ \<Rightarrow> check_forks next forks))"

definition CheckConfigForkOrder :: "ChainConfig \<Rightarrow> config_error option" where
  "CheckConfigForkOrder c =
     check_forks None
       [(''homesteadBlock'', HomesteadBlock c, False), (''daoForkBlock'', DAOForkBlock c, True),
        (''eip150Block'', EIP150Block c, False), (''eip155Block'', EIP155Block c, False), (''eip158Block'', EIP158Block c, False),
        (''byzantiumBlock'', ByzantiumBlock c, False), (''constantinopleBlock'', ConstantinopleBlock c, False),
        (''petersburgBlock'', PetersburgBlock c, False), (''istanbulBlock'', IstanbulBlock c, False),
        (''muirGlacierBlock'', MuirGlacierBlock c, True), (''yoloV1Block'', YoloV1Block c, False)]"

record ConfigCompatError =
  What :: string
  StoredConfig :: "int option"
  NewConfig :: "int option"
  RewindTo :: u64

definition newCompatError :: "string \<Rightarrow> int option \<Rightarrow> int option \<Rightarrow> ConfigCompatError" where
  "newCompatError what storedblock newblock =
     (let rew =
        (case storedblock of
           None \<Rightarrow> newblock
         | Some a \<Rightarrow> (case newblock of None \<Rightarrow> storedblock | Some b \<Rightarrow> if a < b then storedblock else newblock))
      in \<lparr> What = what, StoredConfig = storedblock, NewConfig = newblock,
           RewindTo = (case rew of None \<Rightarrow> 0 | Some r \<Rightarrow> if 0 < r then word_of_int r - 1 else 0) \<rparr>)"

definition checkCompatible :: "ChainConfig \<Rightarrow> ChainConfig \<Rightarrow> int \<Rightarrow> ConfigCompatError option" where
  "checkCompatible c newcfg head =
     (if isForkIncompatible (HomesteadBlock c) (HomesteadBlock newcfg) head
      then Some (newCompatError ''Homestead fork block'' (HomesteadBlock c) (HomesteadBlock newcfg))
      else if isForkIncompatible (DAOForkBlock c) (DAOForkBlock newcfg) head
      then Some (newCompatError ''DAO fork block'' (DAOForkBlock c) (DAOForkBlock newcfg))
      else if IsDAOFork c head \<and> DAOForkSupport c \<noteq> DAOForkSupport newcfg
      then Some (newCompatError ''DAO fork support flag'' (DAOForkBlock c) (DAOForkBlock newcfg))
      else if isForkIncompatible (EIP150Block c) (EIP150Block newcfg) head
      then Some (newCompatError ''EIP150 fork block'' (EIP150Block c) (EIP150Block newcfg))
      else if isForkIncompatible (EIP155Block c) (EIP155Block newcfg) head
      then Some (newCompatError ''EIP155 fork block'' (EIP155Block c) (EIP155Block newcfg))
      else if isForkIncompatible (EIP158Block c) (EIP158Block newcfg) head
      then Some (newCompatError ''EIP158 fork block'' (EIP158Block c) (EIP158Block newcfg))
      else if cfg_IsEIP158 c head \<and> \<not> configNumEqual (cfg_ChainID c) (cfg_ChainID newcfg)
      then Some (newCompatError ''EIP158 chain ID'' (EIP158Block c) (EIP158Block newcfg))
      else if isForkIncompatible (ByzantiumBlock c) (ByzantiumBlock newcfg) head
      then Some (newCompatError ''Byzantium fork block'' (ByzantiumBlock c) (ByzantiumBlock newcfg))
      else if isForkIncompatible (ConstantinopleBlock c) (ConstantinopleBlock newcfg) head
      then Some (newCompatError ''Constantinople fork block'' (ConstantinopleBlock c) (ConstantinopleBlock newcfg))
      else if isForkIncompatible (PetersburgBlock c) (PetersburgBlock newcfg) head \<and>
              isForkIncompatible (ConstantinopleBlock c) (PetersburgBlock newcfg) head
      then Some (newCompatError ''Petersburg fork block'' (PetersburgBlock c) (PetersburgBlock newcfg))
      else if isForkIncompatible (IstanbulBlock c) (IstanbulBlock newcfg) head
      then Some (newCompatError ''Istanbul fork block'' (IstanbulBlock c) (IstanbulBlock newcfg))
      else if isForkIncompatible (MuirGlacierBlock c) (MuirGlacierBlock newcfg) head
      then Some (newCompatError ''Muir Glacier fork block'' (MuirGlacierBlock c) (MuirGlacierBlock newcfg))
      else if isForkIncompatible (YoloV1Block c) (YoloV1Block newcfg) head
      then Some (newCompatError ''YOLOv1 fork block'' (YoloV1Block c) (YoloV1Block newcfg))
      else if isForkIncompatible (EWASMBlock c) (EWASMBlock newcfg) head
      then Some (newCompatError ''ewasm fork block'' (EWASMBlock c) (EWASMBlock newcfg))
      else None)"

text \<open>The loop of \<open>CheckCompatible\<close>.\<close>

fun lowest_conflict ::
    "nat \<Rightarrow> ChainConfig \<Rightarrow> ChainConfig \<Rightarrow> u64 \<Rightarrow> ConfigCompatError option \<Rightarrow> ConfigCompatError option outcome" where
  "lowest_conflict 0 c newcfg bhead lasterr = NoFuel"
| "lowest_conflict (Suc fuel) c newcfg bhead lasterr =
     (case checkCompatible c newcfg (uint bhead) of
        None \<Rightarrow> Done lasterr
      | Some err \<Rightarrow>
          if lasterr \<noteq> None \<and> RewindTo err = RewindTo (the lasterr) then Done lasterr
          else lowest_conflict fuel c newcfg (RewindTo err) (Some err))"

text \<open>Each round goes to a lower block, so one more round than blocks is enough, and one for the end.\<close>

definition CheckCompatible :: "ChainConfig \<Rightarrow> ChainConfig \<Rightarrow> u64 \<Rightarrow> ConfigCompatError option outcome" where
  "CheckCompatible c newcfg height = lowest_conflict (unat height + 3) c newcfg height None"

section \<open>Compatible configurations\<close>

lemma configNumEqual_eq [simp]: "configNumEqual x y \<longleftrightarrow> x = y"
  by (auto simp: configNumEqual_def split: option.split)

lemma isForked_mono: "isForked s n \<Longrightarrow> n \<le> head \<Longrightarrow> isForked s head"
  by (auto simp: isForked_def split: option.splits)

lemma compatible_fork: "\<not> isForkIncompatible s1 s2 head \<Longrightarrow> n \<le> head \<Longrightarrow> isForked s1 n = isForked s2 n"
  unfolding isForkIncompatible_def using isForked_mono by fastforce

lemma newCompatError_rewinds:
  assumes "isForked s1 head \<or> isForked s2 head" "head < 2 ^ 64"
  shows "uint (RewindTo (newCompatError what s1 s2)) < head \<or> RewindTo (newCompatError what s1 s2) = 0"
proof -
  have rew: "uint (word_of_int r - 1 :: u64) < head" if "0 < r" "r \<le> head" for r
  proof -
    have "uint (word_of_int r :: u64) = r" using that assms(2) by (simp add: unsigned_of_int take_bit_int_eq_self)
    then have "uint (word_of_int r - 1 :: u64) = r - 1" using that by (subst uint_sub_lem [THEN iffD1]) auto
    with that show ?thesis by simp
  qed
  show ?thesis using assms(1) rew by (auto simp: newCompatError_def isForked_def Let_def split: option.splits)
qed

lemma if_SomeE:
  "(if b then Some x else y) = Some err \<Longrightarrow> (b \<Longrightarrow> err = x \<Longrightarrow> R) \<Longrightarrow> (y = Some err \<Longrightarrow> R) \<Longrightarrow> R"
  by (cases b) simp_all

lemma if_Some_None: "(if b then Some x else y) = None \<longleftrightarrow> \<not> b \<and> y = None"
  by simp

lemma checkCompatible_rewinds:
  assumes "checkCompatible c newcfg head = Some err" "head < 2 ^ 64"
  shows "uint (RewindTo err) < head \<or> RewindTo err = 0"
proof -
  have fork: "uint (RewindTo err) < head \<or> RewindTo err = 0" if "isForkIncompatible s1 s2 head" "err = newCompatError what s1 s2" for what s1 s2
    using that newCompatError_rewinds [OF _ assms(2)] by (auto simp: isForkIncompatible_def)
  have old: "uint (RewindTo err) < head \<or> RewindTo err = 0" if "isForked s1 head" "err = newCompatError what s1 s2" for what s1 s2
    using that newCompatError_rewinds [OF _ assms(2)] by blast
  show ?thesis
    using assms(1) unfolding checkCompatible_def IsDAOFork_def cfg_IsEIP158_def
    by (elim if_SomeE conjE fork old) (assumption | simp)+
qed

text \<open>Where Petersburg starts: a nil block stands for the one of Constantinople.\<close>

definition petersburg_from :: "ChainConfig \<Rightarrow> int option" where
  "petersburg_from c = (case PetersburgBlock c of None \<Rightarrow> ConstantinopleBlock c | Some b \<Rightarrow> Some b)"

lemma cfg_IsPetersburg_from: "cfg_IsPetersburg c n = isForked (petersburg_from c) n"
  by (auto simp: cfg_IsPetersburg_def petersburg_from_def isForked_def split: option.split)

lemma compatible_rules:
  assumes "checkCompatible c newcfg head = None" "n \<le> head"
  shows "(cfg_Rules c n)\<lparr>IsPetersburg := p\<rparr> = (cfg_Rules newcfg n)\<lparr>IsPetersburg := p\<rparr>"
    and "\<not> isForkIncompatible (petersburg_from c) (petersburg_from newcfg) head \<Longrightarrow> cfg_Rules c n = cfg_Rules newcfg n"
proof -
  have "\<not> isForkIncompatible (HomesteadBlock c) (HomesteadBlock newcfg) head" "\<not> isForkIncompatible (EIP150Block c) (EIP150Block newcfg) head"
    "\<not> isForkIncompatible (EIP155Block c) (EIP155Block newcfg) head" "\<not> isForkIncompatible (EIP158Block c) (EIP158Block newcfg) head"
    "\<not> isForkIncompatible (ByzantiumBlock c) (ByzantiumBlock newcfg) head"
    "\<not> isForkIncompatible (ConstantinopleBlock c) (ConstantinopleBlock newcfg) head"
    "\<not> isForkIncompatible (IstanbulBlock c) (IstanbulBlock newcfg) head" "\<not> isForkIncompatible (YoloV1Block c) (YoloV1Block newcfg) head"
    using assms(1) unfolding checkCompatible_def if_Some_None by blast+
  note same = this [THEN compatible_fork, OF assms(2)]
  then show "(cfg_Rules c n)\<lparr>IsPetersburg := p\<rparr> = (cfg_Rules newcfg n)\<lparr>IsPetersburg := p\<rparr>"
    by (simp add: cfg_Rules_def cfg_IsHomestead_def cfg_IsEIP150_def cfg_IsEIP155_def cfg_IsEIP158_def cfg_IsByzantium_def
        cfg_IsConstantinople_def cfg_IsIstanbul_def cfg_IsYoloV1_def)
  assume "\<not> isForkIncompatible (petersburg_from c) (petersburg_from newcfg) head"
  from compatible_fork [OF this assms(2)] same show "cfg_Rules c n = cfg_Rules newcfg n"
    by (simp add: cfg_Rules_def cfg_IsHomestead_def cfg_IsEIP150_def cfg_IsEIP155_def cfg_IsEIP158_def cfg_IsByzantium_def
        cfg_IsConstantinople_def cfg_IsIstanbul_def cfg_IsYoloV1_def cfg_IsPetersburg_from)
qed

text \<open>The loop ends: with the error of an earlier round in hand, the head is where that error rewinds to.\<close>

lemma lowest_conflict_ok:
  assumes "\<And>e. lasterr = Some e \<Longrightarrow> RewindTo e = bhead" "unat bhead + (if lasterr = None then 3 else 2) \<le> fuel"
  shows "\<exists>r. lowest_conflict fuel c newcfg bhead lasterr = Done r \<and>
    (case r of
       None \<Rightarrow> lasterr = None \<and> checkCompatible c newcfg (uint bhead) = None
     | Some e \<Rightarrow> checkCompatible c newcfg (uint (RewindTo e)) = None \<or> RewindTo e = 0)"
  using assms
proof (induction fuel arbitrary: bhead lasterr)
  case (Suc fuel)
  show ?case
  proof (cases "checkCompatible c newcfg (uint bhead)")
    case None
    then show ?thesis using Suc.prems(1) by (cases lasterr) auto
  next
    case (Some err)
    have low: "RewindTo err < bhead \<or> RewindTo err = 0"
      using checkCompatible_rewinds [OF Some] uint_bounded [of bhead] by (simp add: word_less_def)
    show ?thesis
    proof (cases "lasterr \<noteq> None \<and> RewindTo err = RewindTo (the lasterr)")
      case True
      then obtain e where e: "lasterr = Some e" "RewindTo err = RewindTo e" by auto
      with Suc.prems(1) low have "RewindTo e = 0" by auto
      with Some e show ?thesis by simp
    next
      case False
      have "unat (RewindTo err) + 2 \<le> fuel"
      proof (cases "RewindTo err < bhead")
        case True
        then show ?thesis using Suc.prems(2) by (simp add: word_less_nat_alt split: if_splits)
      next
        case no: False
        with low have z: "RewindTo err = 0" by blast
        with no have "bhead = 0" by (simp add: word_gt_0)
        with z False Suc.prems(1) have "lasterr = None" by (cases lasterr) auto
        with z Suc.prems(2) show ?thesis by simp
      qed
      from Suc.IH [of "Some err" "RewindTo err"] this False Some show ?thesis by (auto split: option.splits)
    qed
  qed
qed (simp split: if_splits)

text \<open>Two changes of the past that the check accepts: Petersburg, active since Constantinople because its
  block was nil, is moved beyond the head; and Petersburg is moved back to Constantinople.\<close>

definition petersburg_config :: "int option \<Rightarrow> ChainConfig" where
  "petersburg_config b =
     \<lparr> cfg_ChainID = Some 1, HomesteadBlock = Some 0, DAOForkBlock = None, DAOForkSupport = False, EIP150Block = Some 0,
       EIP150Hash = 0, EIP155Block = Some 0, EIP158Block = Some 0, ByzantiumBlock = Some 0, ConstantinopleBlock = Some 50,
       PetersburgBlock = b, IstanbulBlock = None, MuirGlacierBlock = None, YoloV1Block = None, EWASMBlock = None \<rparr>"

lemma CheckCompatible_None: "checkCompatible c newcfg (uint height) = None \<Longrightarrow> CheckCompatible c newcfg height = Done None"
  by (simp add: CheckCompatible_def add.commute [of "unat height"] numeral_3_eq_3)

lemma petersburg_postponed:
  "CheckCompatible (petersburg_config None) (petersburg_config (Some 200)) 100 = Done None"
  "cfg_IsPetersburg (petersburg_config None) 70" "\<not> cfg_IsPetersburg (petersburg_config (Some 200)) 70"
  by (rule CheckCompatible_None, simp_all add: petersburg_config_def checkCompatible_def isForkIncompatible_def isForked_def
      IsDAOFork_def cfg_IsEIP158_def cfg_IsPetersburg_def)

lemma petersburg_moved_back:
  "CheckCompatible (petersburg_config (Some 80)) (petersburg_config (Some 50)) 100 = Done None"
  "\<not> cfg_IsPetersburg (petersburg_config (Some 80)) 70" "cfg_IsPetersburg (petersburg_config (Some 50)) 70"
  by (rule CheckCompatible_None, simp_all add: petersburg_config_def checkCompatible_def isForkIncompatible_def isForked_def
      IsDAOFork_def cfg_IsEIP158_def cfg_IsPetersburg_def)

section \<open>Properties\<close>



end
