(* ===== verification/Consensus_Hashimoto.thy ===== *)
theory Consensus_Hashimoto
  imports Crypto "HOL-Library.Multiset"
begin

text \<open>
  \<open>consensus/ethash/algorithm.go\<close>: the proof-of-work function. \<open>hashimotoFull\<close> reads a dataset that
  \<open>generateDataset\<close> writes with many goroutines, \<open>hashimotoLight\<close> computes the items it needs from the
  cache. Indices are \<open>uint32\<close> and their products wrap, as in the source. Keccak-512 is the argument \<open>k512\<close>.
  Machines are little-endian; progress reports are left out. The theorem is that the two functions agree
  for datasets of at most 4 GiB; beyond them the byte offset of \<open>generateDataset\<close> wraps.
\<close>

unbundle bit_operations_syntax

section \<open>Words and bytes\<close>

text \<open>\<open>binary.LittleEndian\<close>, and a slice of bytes read as one of \<open>uint32\<close> and back.\<close>

definition put_u32 :: "u32 \<Rightarrow> bytes" where
  "put_u32 v = [ucast v, ucast (drop_bit 8 v), ucast (drop_bit 16 v), ucast (drop_bit 24 v)]"

fun words_of :: "bytes \<Rightarrow> u32 list" where
  "words_of (a # b # c # d # rest) =
     (ucast a OR push_bit 8 (ucast b) OR push_bit 16 (ucast c) OR push_bit 24 (ucast d)) # words_of rest"
| "words_of _ = []"

definition bytes_of :: "u32 list \<Rightarrow> bytes" where
  "bytes_of ws = concat (map put_u32 ws)"

definition divide_by_zero :: panic where
  "divide_by_zero = Explicit ''integer divide by zero''"

section \<open>Mixing\<close>

definition fnv :: "u32 \<Rightarrow> u32 \<Rightarrow> u32" where
  "fnv a b = (a * 0x01000193) XOR b"

definition fnvHash :: "u32 list \<Rightarrow> u32 list \<Rightarrow> u32 list outcome" where
  "fnvHash mix data = (if length mix \<le> length data then Done (map2 fnv mix data) else Panicked SliceBounds)"

text \<open>The loop over the parents of a dataset item.\<close>

fun mix_parents :: "u32 list \<Rightarrow> u32 \<Rightarrow> u32 \<Rightarrow> nat list \<Rightarrow> u32 list \<Rightarrow> u32 list outcome" where
  "mix_parents cache rows index [] intMix = Done intMix"
| "mix_parents cache rows index (i # is) intMix =
     (let parent = fnv (index XOR of_nat i) (intMix ! (i mod 16)) mod rows
      in and_then (fnvHash intMix (drop (unat (parent * 16)) cache)) (mix_parents cache rows index is))"

definition generateDatasetItem :: "(bytes \<Rightarrow> bytes) \<Rightarrow> u32 list \<Rightarrow> u32 \<Rightarrow> bytes outcome" where
  "generateDatasetItem k512 cache index =
     (let rows = of_nat (length cache div 16) :: u32
      in if rows = 0 then Panicked divide_by_zero
         else
           (let base = unat ((index mod rows) * 16)
            in if length cache < base + 16 then Panicked SliceBounds
               else
                 (let row = slice cache base (base + 16);
                      mix = k512 (bytes_of ((row ! 0 XOR index) # tl row))
                  in and_then (mix_parents cache rows index [0..<256] (words_of mix)) (\<lambda>intMix.
                       Done (k512 (bytes_of intMix))))))"

section \<open>Sizes\<close>

text \<open>\<open>ProbablyPrime\<close> is exact on 64-bit numbers. The loop goes down to the next prime number of units.\<close>

definition is_prime :: "nat \<Rightarrow> bool" where
  "is_prime n \<longleftrightarrow> 1 < n \<and> (\<forall>d\<in>set [2..<n]. n mod d \<noteq> 0)"

fun prime_size :: "nat \<Rightarrow> u64 \<Rightarrow> u64 \<Rightarrow> u64 outcome" where
  "prime_size 0 unit sz = NoFuel"
| "prime_size (Suc fuel) unit sz =
     (if is_prime (unat (sz div unit)) then Done sz else prime_size fuel unit (sz - 2 * unit))"

definition calcCacheSize :: "nat \<Rightarrow> u64 outcome" where
  "calcCacheSize epoch = (let sz = 2 ^ 24 + 2 ^ 17 * of_nat epoch - 64 in prime_size (unat sz) 64 sz)"

definition calcDatasetSize :: "nat \<Rightarrow> u64 outcome" where
  "calcDatasetSize epoch = (let sz = 2 ^ 30 + 2 ^ 23 * of_nat epoch - 128 in prime_size (unat sz) 128 sz)"

section \<open>The cache\<close>

definition seedHash :: "ext \<Rightarrow> u64 \<Rightarrow> bytes" where
  "seedHash X block = ((\<lambda>seed. Keccak256 X [seed]) ^^ unat (block div 30000)) (replicate 32 0)"

text \<open>A hasher writes its 64 bytes to the start of the slice it is given.\<close>

definition hash_into :: "(bytes \<Rightarrow> bytes) \<Rightarrow> nat \<Rightarrow> bytes \<Rightarrow> bytes \<Rightarrow> bytes outcome" where
  "hash_into k512 offset data cache =
     (if offset + 64 \<le> length cache then Done (copy_slice cache offset (offset + 64) (k512 data)) else Panicked SliceBounds)"

fun fill_cache :: "(bytes \<Rightarrow> bytes) \<Rightarrow> nat list \<Rightarrow> bytes \<Rightarrow> bytes outcome" where
  "fill_cache k512 [] cache = Done cache"
| "fill_cache k512 (row # rows) cache =
     and_then (hash_into k512 (64 * row) (slice cache (64 * row - 64) (64 * row)) cache) (fill_cache k512 rows)"

fun memo_hash :: "(bytes \<Rightarrow> bytes) \<Rightarrow> nat \<Rightarrow> nat list \<Rightarrow> bytes \<Rightarrow> bytes outcome" where
  "memo_hash k512 rows [] cache = Done cache"
| "memo_hash k512 rows (j # js) cache =
     (if of_nat rows = (0 :: u32) then Panicked divide_by_zero
      else let srcOff = ((j + rows - 1) mod rows) * 64;
          dstOff = j * 64;
          xorOff = unat ((words_of (slice cache dstOff (dstOff + 4)) ! 0 mod of_nat rows) * 64);
          temp = map2 (XOR) (slice cache srcOff (srcOff + 64)) (slice cache xorOff (xorOff + 64))
      in and_then (hash_into k512 dstOff temp cache) (memo_hash k512 rows js))"

definition generateCache :: "(bytes \<Rightarrow> bytes) \<Rightarrow> u32 list \<Rightarrow> bytes \<Rightarrow> u32 list outcome" where
  "generateCache k512 dest seed =
     (let sz = 4 * length dest;
          rows = sz div 64
      in and_then (hash_into k512 0 seed (bytes_of dest)) (\<lambda>cache.
         and_then (fill_cache k512 [1..<(sz + 63) div 64] cache) (\<lambda>cache.
         and_then (memo_hash k512 rows (concat (replicate 3 [0..<rows])) cache) (\<lambda>cache.
           Done (words_of cache)))))"

section \<open>The dataset\<close>

text \<open>The segment of one of the \<open>threads\<close> goroutines that fill a dataset of \<open>size\<close> bytes.\<close>

definition segment :: "nat \<Rightarrow> u64 \<Rightarrow> nat \<Rightarrow> u32 list" where
  "segment threads sz i =
     (let batch = ucast ((sz + 64 * of_nat threads - 1) div (64 * of_nat threads)) :: u32;
          first = of_nat i * batch;
          limit = first + batch;
          limit = (if limit > ucast (sz div 64) then ucast (sz div 64) else limit)
      in map of_nat [unat first..<unat limit])"

text \<open>One iteration: the item is copied to its offset, a \<open>uint32\<close> product; the progress report divides
  by the hundredth of the number of items.\<close>

definition write_item :: "(bytes \<Rightarrow> bytes) \<Rightarrow> u32 list \<Rightarrow> u32 \<Rightarrow> bytes \<Rightarrow> bytes outcome" where
  "write_item k512 cache index dataset =
     and_then (generateDatasetItem k512 cache index) (\<lambda>item.
       let offset = unat (index * 64)
       in if length dataset < offset then Panicked SliceBounds
          else if ucast (of_nat (length dataset) div 64 div 100 :: u64) = (0 :: u32) then Panicked divide_by_zero
          else Done (copy_slice dataset offset (length dataset) item))"

text \<open>\<open>order\<close> is the order in which the goroutines come to write: an interleaving of the segments.\<close>

fun write_items :: "(bytes \<Rightarrow> bytes) \<Rightarrow> u32 list \<Rightarrow> u32 list \<Rightarrow> bytes \<Rightarrow> bytes outcome" where
  "write_items k512 cache [] dataset = Done dataset"
| "write_items k512 cache (index # order) dataset =
     and_then (write_item k512 cache index dataset) (write_items k512 cache order)"

definition generateDataset :: "(bytes \<Rightarrow> bytes) \<Rightarrow> u32 list \<Rightarrow> u32 list \<Rightarrow> u32 list \<Rightarrow> u32 list outcome" where
  "generateDataset k512 order dest cache =
     and_then (write_items k512 cache order (bytes_of dest)) (\<lambda>dataset. Done (words_of dataset))"

section \<open>hashimoto\<close>

text \<open>\<open>copy(temp[lo:], src)\<close> on words.\<close>

definition copy_words :: "u32 list \<Rightarrow> nat \<Rightarrow> u32 list \<Rightarrow> u32 list" where
  "copy_words temp lo src = take lo temp @ take (length temp - lo) src @ drop (lo + length src) temp"

fun mix_accesses :: "u32 \<Rightarrow> u32 \<Rightarrow> (u32 \<Rightarrow> u32 list outcome) \<Rightarrow> nat list \<Rightarrow> u32 list \<Rightarrow> u32 list \<Rightarrow> u32 list outcome" where
  "mix_accesses seedHead rows lookup [] mix temp = Done mix"
| "mix_accesses seedHead rows lookup (i # is) mix temp =
     (if rows = 0 then Panicked divide_by_zero
      else
        (let parent = fnv (of_nat i XOR seedHead) (mix ! (i mod length mix)) mod rows
         in and_then (lookup (2 * parent)) (\<lambda>a.
              and_then (lookup (2 * parent + 1)) (\<lambda>b.
                let temp = copy_words (copy_words temp 0 a) 16 b
                in and_then (fnvHash mix temp) (\<lambda>mix. mix_accesses seedHead rows lookup is mix temp)))))"

text \<open>The compression writes the word \<open>i\<close> after the words \<open>4 * i\<close> to \<open>4 * i + 3\<close> are read.\<close>

definition compress_mix :: "u32 list \<Rightarrow> u32 list" where
  "compress_mix mix =
     (let n = length mix div 4
      in take n (fold (\<lambda>i m. m[i := fnv (fnv (fnv (m ! (4 * i)) (m ! (4 * i + 1))) (m ! (4 * i + 2))) (m ! (4 * i + 3))]) [0..<n] mix))"

definition hashimoto ::
    "ext \<Rightarrow> (bytes \<Rightarrow> bytes) \<Rightarrow> bytes \<Rightarrow> u64 \<Rightarrow> u64 \<Rightarrow> (u32 \<Rightarrow> u32 list outcome) \<Rightarrow> (bytes \<times> bytes) outcome" where
  "hashimoto X k512 hash nonce sz lookup =
     (let rows = ucast (sz div 128) :: u32;
          seed = copy_slice (copy_slice (replicate 40 0) 0 40 hash) 32 40 (rev (be_bytes 8 nonce));
          seed = k512 seed;
          seedHead = words_of seed ! 0;
          mix = map (\<lambda>i. words_of seed ! (i mod 16)) [0..<32]
      in and_then (mix_accesses seedHead rows lookup [0..<64] mix (replicate 32 0)) (\<lambda>mix.
           let digest = copy_slice (replicate 32 0) 0 32 (bytes_of (compress_mix mix))
           in Done (digest, Keccak256 X [seed @ digest])))"

definition hashimotoLight ::
    "ext \<Rightarrow> (bytes \<Rightarrow> bytes) \<Rightarrow> u64 \<Rightarrow> u32 list \<Rightarrow> bytes \<Rightarrow> u64 \<Rightarrow> (bytes \<times> bytes) outcome" where
  "hashimotoLight X k512 sz cache hash nonce =
     hashimoto X k512 hash nonce sz (\<lambda>index.
       and_then (generateDatasetItem k512 cache index) (\<lambda>rawData. Done (words_of rawData)))"

definition hashimotoFull ::
    "ext \<Rightarrow> (bytes \<Rightarrow> bytes) \<Rightarrow> u32 list \<Rightarrow> bytes \<Rightarrow> u64 \<Rightarrow> (bytes \<times> bytes) outcome" where
  "hashimotoFull X k512 dataset hash nonce =
     hashimoto X k512 hash nonce (of_nat (length dataset) * 4) (\<lambda>index.
       let offset = index * 16
       in if unat offset \<le> unat (offset + 16) \<and> unat (offset + 16) \<le> length dataset
          then Done (slice dataset (unat offset) (unat (offset + 16))) else Panicked SliceBounds)"

section \<open>Words and bytes are inverse\<close>

lemma word_bytes: "(ucast (ucast v :: u8) :: u32) OR push_bit 8 (ucast (ucast (drop_bit 8 v) :: u8)) OR
    push_bit 16 (ucast (ucast (drop_bit 16 v) :: u8)) OR push_bit 24 (ucast (ucast (drop_bit 24 v) :: u8)) = v" for v :: u32
proof (rule bit_word_eqI)
  fix n assume n: "n < LENGTH(32)"
  then consider "n < 8" | "8 \<le> n" "n < 16" | "16 \<le> n" "n < 24" | "24 \<le> n" "n < 32" by force
  then show "bit ((ucast (ucast v :: u8) :: u32) OR push_bit 8 (ucast (ucast (drop_bit 8 v) :: u8)) OR
    push_bit 16 (ucast (ucast (drop_bit 16 v) :: u8)) OR push_bit 24 (ucast (ucast (drop_bit 24 v) :: u8))) n = bit v n"
    by cases (auto simp: bit_simps dest: bit_imp_le_length)
qed

lemma words_of_bytes_of [simp]: "words_of (bytes_of ws) = ws"
  by (induction ws) (simp_all add: bytes_of_def put_u32_def word_bytes)

lemma length_words_of: "length (words_of b) = length b div 4"
  by (induction b rule: words_of.induct) simp_all

lemma length_bytes_of [simp]: "length (bytes_of ws) = 4 * length ws"
  by (induction ws) (simp_all add: bytes_of_def put_u32_def)

lemma words_of_take: "words_of (take (4 * n) b) = take n (words_of b)"
proof (induction n arbitrary: b)
  case (Suc n)
  have "4 * Suc n = Suc (Suc (Suc (Suc (4 * n))))" by simp
  then show ?case by (cases b rule: words_of.cases) (simp_all only: take_Suc_Cons drop_Suc_Cons take_Nil drop_Nil words_of.simps Suc)
qed simp

lemma words_of_drop: "words_of (drop (4 * n) b) = drop n (words_of b)"
proof (induction n arbitrary: b)
  case (Suc n)
  have "4 * Suc n = Suc (Suc (Suc (Suc (4 * n))))" by simp
  then show ?case by (cases b rule: words_of.cases) (simp_all only: take_Suc_Cons drop_Suc_Cons take_Nil drop_Nil words_of.simps Suc)
qed simp

lemma words_of_slice: "words_of (slice b (4 * m) (4 * n)) = slice (words_of b) m n"
proof -
  have "slice b (4 * m) (4 * n) = take (4 * (n - m)) (drop (4 * m) b)" by (simp add: slice_def right_diff_distrib')
  then show ?thesis by (simp only: words_of_take words_of_drop slice_def)
qed

section \<open>Items\<close>

lemma row_fits:
  fixes x rows :: u32
  assumes "unat rows = n" "0 < n" "n \<le> 2 ^ 28"
  shows "unat ((x mod rows) * 16) = 16 * (unat x mod n)" "16 * (unat x mod n) + 16 \<le> 16 * n"
proof -
  have less: "unat x mod n < n" using assms by simp
  then have "unat x mod n * 16 < 2 ^ 32" using assms(3) by simp
  then show "unat ((x mod rows) * 16) = 16 * (unat x mod n)" by (simp add: unat_word_ariths unat_mod assms)
  show "16 * (unat x mod n) + 16 \<le> 16 * n" using less by simp
qed

definition cache_ok :: "u32 list \<Rightarrow> bool" where
  "cache_ok cache \<longleftrightarrow> 16 \<le> length cache \<and> length cache \<le> 2 ^ 32"

lemma cache_rows:
  assumes "cache_ok cache"
  shows "unat (of_nat (length cache div 16) :: u32) = length cache div 16" "0 < length cache div 16" "length cache div 16 \<le> 2 ^ 28"
proof -
  have "length cache div 16 \<le> 2 ^ 32 div 16" using assms unfolding cache_ok_def by (intro div_le_mono) simp
  then show n: "length cache div 16 \<le> 2 ^ 28" by simp
  then show "unat (of_nat (length cache div 16) :: u32) = length cache div 16" by (simp add: unat_of_nat)
  show "0 < length cache div 16" using assms by (simp add: cache_ok_def div_greater_zero_iff)
qed

lemma mix_parents_ok:
  assumes "cache_ok cache" "length m = 16"
  shows "\<exists>m'. mix_parents cache (of_nat (length cache div 16)) index is m = Done m' \<and> length m' = 16"
  using assms(2)
proof (induction "is" arbitrary: m)
  case (Cons i "is")
  let ?rows = "of_nat (length cache div 16) :: u32"
  let ?off = "unat (fnv (index XOR of_nat i) (m ! (i mod 16)) mod ?rows * 16)"
  have "?off + 16 \<le> 16 * (length cache div 16)" using row_fits [OF cache_rows [OF assms(1)]] by simp
  then have "16 \<le> length (drop ?off cache)" by simp
  then have "fnvHash m (drop ?off cache) = Done (map2 fnv m (drop ?off cache))" "length (map2 fnv m (drop ?off cache)) = 16"
    using Cons.prems by (simp_all add: fnvHash_def)
  then show ?case using Cons.IH by (simp add: Let_def)
qed simp

text \<open>A hasher of 64 bytes.\<close>

definition hasher_64 :: "(bytes \<Rightarrow> bytes) \<Rightarrow> bool" where
  "hasher_64 k512 \<longleftrightarrow> (\<forall>b. length (k512 b) = 64)"

lemma item_ok:
  assumes "hasher_64 k512" "cache_ok cache"
  shows "\<exists>item. generateDatasetItem k512 cache index = Done item \<and> length item = 64"
proof -
  note rows = cache_rows [OF assms(2)]
  have nz: "(of_nat (length cache div 16) :: u32) \<noteq> 0" using rows by (metis unat_0 less_irrefl)
  have fits: "unat (index mod of_nat (length cache div 16) * 16) + 16 \<le> length cache"
    using row_fits [OF rows, of index] by simp
  have "length (words_of (k512 b)) = 16" for b using assms(1) by (simp add: hasher_64_def length_words_of)
  then have "\<exists>m'. mix_parents cache (of_nat (length cache div 16)) index [0..<256] (words_of (k512 b)) = Done m' \<and> length m' = 16" for b
    by (rule mix_parents_ok [OF assms(2)])
  then obtain f where "\<And>b. mix_parents cache (of_nat (length cache div 16)) index [0..<256] (words_of (k512 b)) = Done (f b)" by metis
  then show ?thesis using assms(1) nz fits unfolding generateDatasetItem_def Let_def by (simp add: hasher_64_def)
qed

definition the_item :: "(bytes \<Rightarrow> bytes) \<Rightarrow> u32 list \<Rightarrow> u32 \<Rightarrow> bytes" where
  "the_item k512 cache index = (case generateDatasetItem k512 cache index of Done item \<Rightarrow> item | _ \<Rightarrow> [])"

lemma the_item:
  assumes "hasher_64 k512" "cache_ok cache"
  shows "generateDatasetItem k512 cache index = Done (the_item k512 cache index)" "length (the_item k512 cache index) = 64"
  using item_ok [OF assms, of index] by (auto simp: the_item_def)

section \<open>The dataset holds every item\<close>

lemma write_item_ok:
  assumes "hasher_64 k512" "cache_ok cache" "64 * unat index + 64 \<le> length ds" "length ds \<le> 2 ^ 32" "6400 \<le> length ds"
  shows "write_item k512 cache index ds = Done (copy_slice ds (64 * unat index) (64 * unat index + 64) (the_item k512 cache index))"
proof -
  have off: "unat (index * 64) = 64 * unat index" using assms(3,4) by (simp add: unat_word_ariths)
  have "length ds div 64 div 100 = length ds div 6400" by (simp add: div_mult2_eq [symmetric])
  moreover have "0 < length ds div 6400" using assms(5) by (simp add: div_greater_zero_iff)
  moreover have "length ds div 6400 < 2 ^ 32" using div_le_mono [OF assms(4), of 6400] by simp
  ultimately have "unat (ucast (of_nat (length ds) div 64 div 100 :: u64) :: u32) \<noteq> 0"
    using assms(4) by (simp add: unsigned_ucast_eq take_bit_eq_mod unat_div unat_of_nat)
  then have nz: "ucast (of_nat (length ds) div 64 div 100 :: u64) \<noteq> (0 :: u32)" by (metis unat_0)
  have "copy_slice ds (64 * unat index) (length ds) (the_item k512 cache index) =
      copy_slice ds (64 * unat index) (64 * unat index + 64) (the_item k512 cache index)"
    using the_item(2) [OF assms(1,2)] assms(3) by (simp add: copy_slice_def)
  then show ?thesis using nz off assms(3) the_item(1) [OF assms(1,2)] by (simp add: write_item_def Let_def)
qed

lemma slice_copy_slice_other:
  assumes "hi \<le> length dst" "length src = hi - lo" "lo \<le> hi" "b \<le> lo \<or> hi \<le> a" "b \<le> length dst"
  shows "slice (copy_slice dst lo hi src) a b = slice dst a b"
  by (rule nth_equalityI) (use assms in \<open>auto simp: slice_def nth_copy_slice\<close>)

lemma write_items_ok:
  assumes "hasher_64 k512" "cache_ok cache" "\<forall>i\<in>set order. 64 * unat i + 64 \<le> length ds" "length ds \<le> 2 ^ 32" "6400 \<le> length ds"
  shows "\<exists>ds'. write_items k512 cache order ds = Done ds' \<and> length ds' = length ds \<and>
    (\<forall>i. 64 * unat i + 64 \<le> length ds \<longrightarrow> slice ds' (64 * unat i) (64 * unat i + 64) =
       (if i \<in> set order then the_item k512 cache i else slice ds (64 * unat i) (64 * unat i + 64)))"
  using assms(3-5)
proof (induction order arbitrary: ds)
  case (Cons j order)
  let ?ds = "copy_slice ds (64 * unat j) (64 * unat j + 64) (the_item k512 cache j)"
  have len: "length ?ds = length ds" using Cons.prems by simp
  note item = the_item(2) [OF assms(1,2), of j]
  obtain ds' where ds': "write_items k512 cache order ?ds = Done ds'" "length ds' = length ds"
    "\<And>i. 64 * unat i + 64 \<le> length ds \<Longrightarrow> slice ds' (64 * unat i) (64 * unat i + 64) =
       (if i \<in> set order then the_item k512 cache i else slice ?ds (64 * unat i) (64 * unat i + 64))"
    using Cons.IH [of ?ds] Cons.prems len by auto
  have "slice ?ds (64 * unat i) (64 * unat i + 64) = (if i = j then the_item k512 cache j else slice ds (64 * unat i) (64 * unat i + 64))"
    if "64 * unat i + 64 \<le> length ds" for i
  proof (cases "i = j")
    case True
    then show ?thesis using item Cons.prems(1) by (simp add: slice_copy_slice_same)
  next
    case False
    then have "unat i < unat j \<or> unat j < unat i" by (metis linorder_neqE_nat word_unat_eq_iff)
    then show ?thesis using False that item Cons.prems(1) by (auto intro!: slice_copy_slice_other)
  qed
  then show ?case using ds' write_item_ok [OF assms(1,2), of j ds] Cons.prems by auto
qed simp

text \<open>The batch as a number: no product of the \<open>uint32\<close> computation wraps.\<close>

definition batch_size :: "nat \<Rightarrow> nat \<Rightarrow> nat" where
  "batch_size threads n = (n + 64 * threads - 1) div (64 * threads)"

lemma batch_size:
  assumes "n \<le> 2 ^ 32" "0 < threads" "threads \<le> 2 ^ 16"
  shows "threads * batch_size threads n < 2 ^ 32" "n \<le> 64 * threads * batch_size threads n"
    and "ucast ((of_nat n + 64 * of_nat threads - 1 :: u64) div (64 * of_nat threads)) = (of_nat (batch_size threads n) :: u32)"
proof -
  have "threads * batch_size threads n * 64 \<le> n + 64 * threads - 1"
    using times_div_less_eq_dividend [of "64 * threads" "n + 64 * threads - 1"] by (simp add: batch_size_def ac_simps)
  then have "threads * batch_size threads n \<le> 2 ^ 26 + threads" using assms(1) by simp
  then show "threads * batch_size threads n < 2 ^ 32" using assms(3) by simp
  have "n + 64 * threads - 1 < 64 * threads * batch_size threads n + 64 * threads"
    using dividend_less_times_div [of "64 * threads" "n + 64 * threads - 1"] assms(2) by (simp add: batch_size_def)
  then show "n \<le> 64 * threads * batch_size threads n" by simp
  have t: "64 * of_nat threads = (of_nat (64 * threads) :: u64)" by simp
  have e: "of_nat n + of_nat (64 * threads) - 1 = (of_nat (n + 64 * threads - 1) :: u64)"
    using assms(2) by (simp add: of_nat_diff)
  have "unat (of_nat (n + 64 * threads - 1) :: u64) = n + 64 * threads - 1" "unat (of_nat (64 * threads) :: u64) = 64 * threads"
    using assms by (simp_all only: unat_of_nat) (auto intro!: mod_less)
  then have "unat ((of_nat n + 64 * of_nat threads - 1 :: u64) div (64 * of_nat threads)) = batch_size threads n"
    unfolding t e batch_size_def unat_div by presburger
  then show "ucast ((of_nat n + 64 * of_nat threads - 1 :: u64) div (64 * of_nat threads)) = (of_nat (batch_size threads n) :: u32)"
    by (metis of_nat_unat)
qed

lemma segment_set:
  assumes "n \<le> 2 ^ 32" "threads \<le> 2 ^ 16" "i < threads"
  shows "set (segment threads (of_nat n) i) =
    of_nat ` {i * batch_size threads n..<min (i * batch_size threads n + batch_size threads n) (n div 64)}"
proof -
  let ?b = "batch_size threads n"
  have "0 < threads" using assms(3) by simp
  note b = batch_size [OF assms(1) this assms(2)]
  have "unat (of_nat n div 64 :: u64) = n div 64" using assms(1) by (simp add: unat_div unat_of_nat)
  then have r: "ucast (of_nat n div 64 :: u64) = (of_nat (n div 64) :: u32)" by (metis of_nat_unat)
  have "Suc i * ?b \<le> threads * ?b" using assms(3) by (intro mult_le_mono1) simp
  then have fits: "i * ?b + ?b < 2 ^ 32" using b(1) by simp
  have p: "of_nat i * of_nat ?b = (of_nat (i * ?b) :: u32)" "of_nat (i * ?b) + of_nat ?b = (of_nat (i * ?b + ?b) :: u32)"
    by simp_all
  have u: "unat (of_nat (i * ?b) :: u32) = i * ?b" "unat (of_nat (i * ?b + ?b) :: u32) = i * ?b + ?b"
    "unat (of_nat (n div 64) :: u32) = n div 64"
    using fits div_le_mono [OF assms(1), of 64] by (simp_all only: unat_of_nat) simp_all
  show ?thesis unfolding segment_def Let_def b(3) r p by (simp add: word_less_nat_alt u min_def del: of_nat_add of_nat_mult)
qed

lemma segments_cover:
  assumes "n \<le> 2 ^ 32" "0 < threads" "threads \<le> 2 ^ 16"
  shows "index \<in> set (concat (map (segment threads (of_nat n)) [0..<threads])) \<longleftrightarrow> unat index < n div 64"
proof
  assume "index \<in> set (concat (map (segment threads (of_nat n)) [0..<threads]))"
  then obtain k where "k < n div 64" "index = of_nat k" using segment_set [OF assms(1,3)] by fastforce
  then show "unat index < n div 64" using div_le_mono [OF assms(1), of 64] by (simp add: unat_of_nat)
next
  let ?b = "batch_size threads n"
  assume u: "unat index < n div 64"
  then have "unat index * 64 < n" by simp
  then have "unat index < threads * ?b" using batch_size(2) [OF assms] by simp
  then have i: "0 < ?b" "unat index div ?b < threads"
    using less_mult_imp_div_less [of "unat index" threads ?b] by (auto intro: gr0I)
  then have "unat index < unat index div ?b * ?b + ?b" using dividend_less_div_times [of ?b "unat index"] by simp
  moreover have "unat index div ?b * ?b \<le> unat index" by simp
  ultimately have "index \<in> set (segment threads (of_nat n) (unat index div ?b))"
    using u by (auto simp: segment_set [OF assms(1,3) i(2)] image_iff intro!: bexI [of _ "unat index"])
  then show "index \<in> set (concat (map (segment threads (of_nat n)) [0..<threads]))" using i(2) by auto
qed

section \<open>Lookups\<close>

lemma mix_accesses_ok:
  assumes "rows \<noteq> 0" "length mix = 32" "length temp = 32"
    and "\<And>p. p < rows \<Longrightarrow> f (2 * p) = g (2 * p) \<and> f (2 * p + 1) = g (2 * p + 1)"
    and "\<And>p. p < rows \<Longrightarrow> \<exists>a b. f (2 * p) = Done a \<and> f (2 * p + 1) = Done b \<and> length a = 16 \<and> length b = 16"
  shows "\<exists>mix'. mix_accesses h rows f is mix temp = Done mix' \<and> mix_accesses h rows g is mix temp = Done mix'"
  using assms(2,3)
proof (induction "is" arbitrary: mix temp)
  case (Cons i "is")
  let ?p = "fnv (of_nat i XOR h) (mix ! (i mod length mix)) mod rows"
  have p: "?p < rows" using assms(1) by (simp add: word_less_nat_alt unat_mod unat_gt_0)
  obtain a b where ab: "f (2 * ?p) = Done a" "f (2 * ?p + 1) = Done b" "length a = 16" "length b = 16" using assms(5) [OF p] by blast
  let ?t = "copy_words (copy_words temp 0 a) 16 b"
  have t: "length ?t = 32" using ab Cons.prems by (simp add: copy_words_def)
  then have m: "fnvHash mix ?t = Done (map2 fnv mix ?t)" "length (map2 fnv mix ?t) = 32"
    using Cons.prems by (simp_all add: fnvHash_def)
  show ?case using Cons.IH [OF m(2) t] ab m(1) assms(1) assms(4) [OF p] by (simp add: Let_def)
qed simp

lemma full_lookup:
  fixes i :: u32
  assumes "length ds = n" "n \<le> 2 ^ 32" "unat i < n div 64" "slice ds (64 * unat i) (64 * unat i + 64) = item"
  shows "(let offset = i * 16
     in if unat offset \<le> unat (offset + 16) \<and> unat (offset + 16) \<le> length (words_of ds)
        then Done (slice (words_of ds) (unat offset) (unat (offset + 16))) else Panicked SliceBounds) = Done (words_of item)"
proof -
  have "64 * unat i + 64 \<le> n" using assms(3) by simp
  then have le: "16 * unat i + 16 \<le> n div 4" by simp
  moreover have "n div 4 \<le> 2 ^ 30" using div_le_mono [OF assms(2), of 4] by simp
  ultimately have "unat (i * 16) = 16 * unat i" "unat (i * 16 + 16) = 16 * unat i + 16" by (simp_all add: unat_word_ariths)
  moreover have "slice (words_of ds) (16 * unat i) (16 * unat i + 16) = words_of item"
    using words_of_slice [of ds "16 * unat i" "16 * unat i + 16"] assms(4) by simp
  ultimately show ?thesis using le assms(1) by (simp add: Let_def length_words_of)
qed

lemma item_index:
  fixes p :: u32
  assumes "n \<le> 2 ^ 32" "p < ucast (of_nat n div 128 :: u64)"
  shows "unat (2 * p) < n div 64" "unat (2 * p + 1) < n div 64"
proof -
  have "unat (of_nat n div 128 :: u64) = n div 128" using assms(1) by (simp add: unat_div unat_of_nat)
  moreover have "n div 128 \<le> 2 ^ 25" using div_le_mono [OF assms(1), of 128] by simp
  ultimately have "unat p < n div 128" using assms(2) by (simp add: word_less_nat_alt unsigned_ucast_eq take_bit_eq_mod)
  moreover from this have "unat (2 * p) = 2 * unat p" "unat (2 * p + 1) = 2 * unat p + 1"
    using \<open>n div 128 \<le> 2 ^ 25\<close> by (simp_all add: unat_word_ariths)
  ultimately show "unat (2 * p) < n div 64" "unat (2 * p + 1) < n div 64" by simp_all
qed

lemma hashimoto_lookups:
  assumes "128 \<le> n" "n \<le> 2 ^ 32"
    and agree: "\<And>i. unat i < n div 64 \<Longrightarrow> f i = g i \<and> (\<exists>a. f i = Done a \<and> length a = 16)"
  shows "\<exists>r. hashimoto X k512 hash nonce (of_nat n) f = Done r \<and> hashimoto X k512 hash nonce (of_nat n) g = Done r"
proof -
  let ?rows = "ucast (of_nat n div 128 :: u64) :: u32"
  have "unat (of_nat n div 128 :: u64) = n div 128" using assms(2) by (simp add: unat_div unat_of_nat)
  moreover have "0 < n div 128" "n div 128 < 2 ^ 32" using assms(1) div_le_mono [OF assms(2), of 128] by (simp_all add: div_greater_zero_iff)
  ultimately have "unat ?rows \<noteq> 0" by (simp add: unsigned_ucast_eq take_bit_eq_mod)
  then have nz: "?rows \<noteq> 0" by (metis unat_0)
  have "\<exists>m. mix_accesses h ?rows f [0..<64] mix (replicate 32 0) = Done m \<and> mix_accesses h ?rows g [0..<64] mix (replicate 32 0) = Done m"
    if "length mix = 32" for h mix
    by (rule mix_accesses_ok [OF nz that]) (use agree item_index [OF assms(2)] in \<open>simp, blast, blast\<close>)
  then have run: "\<exists>m. mix_accesses h ?rows f [0..<64] (map w [0..<32]) (replicate 32 0) = Done m \<and>
      mix_accesses h ?rows g [0..<64] (map w [0..<32]) (replicate 32 0) = Done m" for h w by simp
  let ?w = "words_of (k512 (copy_slice (copy_slice (replicate 40 0) 0 40 hash) 32 40 (rev (be_bytes 8 nonce))))"
  obtain m where "mix_accesses (?w ! 0) ?rows f [0..<64] (map (\<lambda>i. ?w ! (i mod 16)) [0..<32]) (replicate 32 0) = Done m"
    "mix_accesses (?w ! 0) ?rows g [0..<64] (map (\<lambda>i. ?w ! (i mod 16)) [0..<32]) (replicate 32 0) = Done m"
    using run by meson
  then show ?thesis unfolding hashimoto_def Let_def by (simp only: and_then.simps) blast
qed

text \<open>Past 4 GiB the offset of an item wraps: the item \<open>2 ^ 26\<close> overwrites the item 0.\<close>

lemma dataset_offset_wraps:
  assumes "hasher_64 k512" "cache_ok cache" "2 ^ 32 < length ds" "length ds \<le> 2 ^ 40"
  shows "write_item k512 cache 0x4000000 ds = Done (copy_slice ds 0 64 (the_item k512 cache 0x4000000))"
proof -
  have "length ds div 64 div 100 = length ds div 6400" by (simp add: div_mult2_eq [symmetric])
  moreover have "0 < length ds div 6400" "length ds div 6400 < 2 ^ 32"
    using assms(3) div_le_mono [OF assms(4), of 6400] by (simp_all add: div_greater_zero_iff)
  ultimately have "unat (ucast (of_nat (length ds) div 64 div 100 :: u64) :: u32) \<noteq> 0"
    using assms(4) by (simp add: unsigned_ucast_eq take_bit_eq_mod unat_div unat_of_nat)
  then have "ucast (of_nat (length ds) div 64 div 100 :: u64) \<noteq> (0 :: u32)" by (metis unat_0)
  moreover have "copy_slice ds 0 (length ds) (the_item k512 cache i) = copy_slice ds 0 64 (the_item k512 cache i)" for i
    using the_item(2) [OF assms(1,2)] assms(3) by (simp add: copy_slice_def)
  ultimately show ?thesis using the_item(1) [OF assms(1,2)] by (simp add: write_item_def)
qed

section \<open>The cache is filled\<close>

lemma hash_into_ok:
  assumes "hasher_64 k512" "offset + 64 \<le> length cache"
  shows "\<exists>cache'. hash_into k512 offset data cache = Done cache' \<and> length cache' = length cache"
  using assms by (simp add: hash_into_def)

lemma fill_cache_ok:
  assumes "hasher_64 k512" "\<forall>r\<in>set rows. 64 * r + 64 \<le> length cache"
  shows "\<exists>cache'. fill_cache k512 rows cache = Done cache' \<and> length cache' = length cache"
  using assms(2)
proof (induction rows arbitrary: cache)
  case (Cons r rows)
  then obtain c where "hash_into k512 (64 * r) (slice cache (64 * r - 64) (64 * r)) cache = Done c" "length c = length cache"
    using hash_into_ok [OF assms(1)] by fastforce
  then show ?case using Cons.IH [of c] Cons.prems by simp
qed simp

lemma memo_hash_ok:
  assumes "hasher_64 k512" "0 < rows" "rows < 2 ^ 32" "\<forall>j\<in>set js. j < rows" "64 * rows \<le> length cache"
  shows "\<exists>cache'. memo_hash k512 rows js cache = Done cache' \<and> length cache' = length cache"
  using assms(4,5)
proof (induction js arbitrary: cache)
  case (Cons j js)
  have "unat (of_nat rows :: u32) = rows" using assms(3) by (simp add: unat_of_nat)
  then have nz: "(of_nat rows :: u32) \<noteq> 0" using assms(2) by (metis less_irrefl unat_0)
  have "\<exists>c. hash_into k512 (j * 64) temp cache = Done c \<and> length c = length cache" for temp
    using Cons.prems by (intro hash_into_ok [OF assms(1)]) simp
  then obtain f where f: "\<And>temp. hash_into k512 (j * 64) temp cache = Done (f temp)" "\<And>temp. length (f temp) = length cache" by metis
  have "\<exists>c. memo_hash k512 rows js (f temp) = Done c \<and> length c = length cache" for temp
    using Cons.IH [of "f temp"] Cons.prems f(2) by simp
  then show ?case using f(1) nz by (simp add: Let_def)
qed simp

lemma generateCache_ok:
  assumes "hasher_64 k512" "length dest mod 16 = 0" "16 \<le> length dest" "length dest \<le> 2 ^ 32"
  shows "\<exists>cache. generateCache k512 dest seed = Done cache \<and> cache_ok cache"
proof -
  obtain k where k: "length dest = 16 * k" using assms(2) by auto
  then have kk: "0 < k" "k < 2 ^ 32" using assms(3,4) by simp_all
  have n: "(4 * length dest + 63) div 64 = k" "4 * length dest div 64 = k" by (simp_all add: k)
  obtain c1 where c1: "hash_into k512 0 seed (bytes_of dest) = Done c1" "length c1 = 64 * k"
    using hash_into_ok [OF assms(1), of 0 "bytes_of dest" seed] k kk by auto
  obtain c2 where c2: "fill_cache k512 [1..<k] c1 = Done c2" "length c2 = 64 * k"
    using fill_cache_ok [OF assms(1), of "[1..<k]" c1] c1(2) by auto
  obtain c3 where c3: "memo_hash k512 k (concat (replicate 3 [0..<k])) c2 = Done c3" "length c3 = 64 * k"
    using memo_hash_ok [OF assms(1) kk, of "concat (replicate 3 [0..<k])" c2] c2(2) by auto
  have "length (words_of c3) = length dest" using c3(2) k by (simp add: length_words_of)
  then have "cache_ok (words_of c3)" using assms(3,4) by (simp add: cache_ok_def)
  then show ?thesis using c1 c2 c3 by (simp add: generateCache_def n)
qed

section \<open>The sizes are found\<close>

lemma even_not_prime: "even n \<Longrightarrow> 2 < n \<Longrightarrow> \<not> is_prime n"
  by (auto simp: is_prime_def intro!: bexI [of _ 2])

lemma prime_size_ok:
  assumes "0 < u" "u * m < 2 ^ 64" "odd m" "3 \<le> m" "m \<le> fuel"
  shows "\<exists>q. prime_size fuel (of_nat u) (of_nat (u * m)) = Done (of_nat (u * q)) \<and> is_prime q \<and> q \<le> m \<and>
    (\<forall>q'. q < q' \<and> q' \<le> m \<longrightarrow> \<not> is_prime q')"
  using assms
proof (induction fuel arbitrary: m)
  case (Suc fuel)
  have "u \<le> u * m" using Suc.prems(4) by simp
  then have "u < 2 ^ 64" using Suc.prems(2) by (rule le_less_trans)
  then have u: "unat (of_nat u :: u64) = u" "unat (of_nat (u * m) :: u64) = u * m"
    using Suc.prems(2) by (simp_all only: unat_of_nat) simp_all
  then have q: "unat (of_nat (u * m) div of_nat u :: u64) = m" using Suc.prems(1) by (simp only: unat_div) simp
  show ?case
  proof (cases "is_prime m")
    case True
    then show ?thesis using q by (intro exI [of _ m]) auto
  next
    case False
    have "is_prime 3" by (simp add: is_prime_def upt_rec)
    with False Suc.prems have m: "5 \<le> m" "odd (m - 2)" by (auto simp: le_less elim: oddE)
    have less: "of_nat (u * m) - 2 * of_nat u = (of_nat (u * (m - 2)) :: u64)"
      using m(1) by (simp add: right_diff_distrib' of_nat_diff)
    have "u * (m - 2) \<le> u * m" by simp
    then have "u * (m - 2) < 2 ^ 64" using Suc.prems(2) by (rule le_less_trans)
    moreover have "3 \<le> m - 2" "m - 2 \<le> fuel" using m(1) Suc.prems(5) by simp_all
    ultimately obtain r where r: "prime_size fuel (of_nat u) (of_nat (u * m) - 2 * of_nat u) = Done (of_nat (u * r))" "is_prime r"
        "r \<le> m - 2" "\<forall>q'. r < q' \<and> q' \<le> m - 2 \<longrightarrow> \<not> is_prime q'"
      unfolding less using Suc.IH [OF Suc.prems(1) _ m(2)] by blast
    have "\<not> is_prime q'" if lim: "r < q'" "q' \<le> m" for q'
    proof -
      consider "q' \<le> m - 2" | "q' = m - 1" | "q' = m" using lim(2) m(1) by linarith
      then show ?thesis using r(4) lim(1) False even_not_prime [of "m - 1"] m(1) Suc.prems(3) by cases auto
    qed
    then show ?thesis using r False q by (intro exI [of _ r]) auto
  qed
qed simp

section \<open>Properties\<close>

text \<open>C16. Mining and verification agree. \<open>generateCache\<close> and, however its goroutines interleave, \<open>generateDataset\<close>
  fill a cache and a dataset of at most 4 GiB without a panic, and the proof of work that \<open>hashimotoFull\<close>
  computes from the dataset is the one \<open>hashimotoLight\<close> computes from the cache.\<close>

theorem hashimoto_full_light:
  assumes "hasher_64 k512" "length cdest mod 16 = 0" "16 \<le> length cdest" "length cdest \<le> 2 ^ 32" "n = 4 * length dest" "6400 \<le> n" "n \<le> 2 ^ 32" "n mod 128 = 0"
    and "0 < threads" "threads \<le> 2 ^ 16" "mset order = mset (concat (map (segment threads (of_nat n)) [0..<threads]))"
  shows "\<exists>cache dataset r. generateCache k512 cdest seed = Done cache \<and> generateDataset k512 order dest cache = Done dataset \<and>
    hashimotoFull X k512 dataset hash nonce = Done r \<and> hashimotoLight X k512 (of_nat n) cache hash nonce = Done r"
proof -
  obtain cache where cache: "generateCache k512 cdest seed = Done cache" "cache_ok cache"
    using generateCache_ok [OF assms(1-4)] by blast
  note ok = assms(1) cache(2)
  have order: "i \<in> set order \<longleftrightarrow> unat i < n div 64" for i
    using segments_cover [OF assms(7,9,10), of i] mset_eq_setD [OF assms(11)] by simp
  have fits: "unat i < n div 64 \<Longrightarrow> 64 * unat i + 64 \<le> n" for i :: u32 by simp
  obtain ds where ds: "write_items k512 cache order (bytes_of dest) = Done ds" "length ds = n"
    "\<And>i. unat i < n div 64 \<Longrightarrow> slice ds (64 * unat i) (64 * unat i + 64) = the_item k512 cache i"
    using write_items_ok [OF ok, of order "bytes_of dest"] order fits assms(5-7) by auto
  define light where "light = (\<lambda>i. and_then (generateDatasetItem k512 cache i) (\<lambda>rawData. Done (words_of rawData)))"
  define full where "full = (\<lambda>i :: u32. let offset = i * 16
     in if unat offset \<le> unat (offset + 16) \<and> unat (offset + 16) \<le> length (words_of ds)
        then Done (slice (words_of ds) (unat offset) (unat (offset + 16))) else Panicked SliceBounds)"
  have light: "light i = Done (words_of (the_item k512 cache i))" for i by (simp add: light_def the_item(1) [OF ok])
  have full: "unat i < n div 64 \<Longrightarrow> full i = light i" for i
    unfolding light full_def using full_lookup [OF ds(2) assms(7) _ ds(3)] by blast
  have "length (words_of ds) * 4 = n" using assms(8) by (simp add: length_words_of ds(2)) presburger
  then have words: "of_nat (length (words_of ds)) * 4 = (of_nat n :: u64)" by (metis of_nat_mult of_nat_numeral)
  have "length (words_of (the_item k512 cache i)) = 16" for i by (simp add: length_words_of the_item(2) [OF ok])
  then have "\<exists>r. hashimoto X k512 hash nonce (of_nat n) full = Done r \<and> hashimoto X k512 hash nonce (of_nat n) light = Done r"
    using assms(6,7) full light by (intro hashimoto_lookups) auto
  then have "\<exists>r. hashimotoFull X k512 (words_of ds) hash nonce = Done r \<and> hashimotoLight X k512 (of_nat n) cache hash nonce = Done r"
    unfolding hashimotoFull_def hashimotoLight_def words light_def [symmetric] full_def [symmetric] .
  then show ?thesis using cache(1) ds(1) by (simp add: generateDataset_def)
qed

text \<open>C31. \<open>calcCacheSize\<close> and \<open>calcDatasetSize\<close> end, with the largest prime number of rows that fits the size of
  the epoch.\<close>

theorem calc_sizes_prime:
  assumes "epoch < 2 ^ 40"
  shows "\<exists>c d. calcCacheSize epoch = Done (of_nat (64 * c)) \<and> calcDatasetSize epoch = Done (of_nat (128 * d)) \<and>
    is_prime c \<and> c < 2 ^ 18 + 2 ^ 11 * epoch \<and> (\<forall>q. c < q \<and> q < 2 ^ 18 + 2 ^ 11 * epoch \<longrightarrow> \<not> is_prime q) \<and>
    is_prime d \<and> d < 2 ^ 23 + 2 ^ 16 * epoch \<and> (\<forall>q. d < q \<and> q < 2 ^ 23 + 2 ^ 16 * epoch \<longrightarrow> \<not> is_prime q)"
proof -
  let ?c = "2 ^ 18 + 2 ^ 11 * epoch - 1" and ?d = "2 ^ 23 + 2 ^ 16 * epoch - 1"
  have c: "(2 ^ 24 + 2 ^ 17 * of_nat epoch - 64 :: u64) = of_nat (64 * ?c)" by (simp add: right_diff_distrib' of_nat_diff)
  have d: "(2 ^ 30 + 2 ^ 23 * of_nat epoch - 128 :: u64) = of_nat (128 * ?d)" by (simp add: right_diff_distrib' of_nat_diff)
  have "64 * ?c < 2 ^ 64" "128 * ?d < 2 ^ 64" using assms by simp_all
  then have u: "unat (of_nat (64 * ?c) :: u64) = 64 * ?c" "unat (of_nat (128 * ?d) :: u64) = 128 * ?d"
    by (simp_all only: unat_of_nat) simp_all
  obtain q where q: "calcCacheSize epoch = Done (of_nat (64 * q))" "is_prime q" "q \<le> ?c" "\<forall>q'. q < q' \<and> q' \<le> ?c \<longrightarrow> \<not> is_prime q'"
    using prime_size_ok [of 64 ?c "64 * ?c"] \<open>64 * ?c < 2 ^ 64\<close> unfolding calcCacheSize_def Let_def c u by auto
  obtain r where r: "calcDatasetSize epoch = Done (of_nat (128 * r))" "is_prime r" "r \<le> ?d" "\<forall>q'. r < q' \<and> q' \<le> ?d \<longrightarrow> \<not> is_prime q'"
    using prime_size_ok [of 128 ?d "128 * ?d"] \<open>128 * ?d < 2 ^ 64\<close> unfolding calcDatasetSize_def Let_def d u by auto
  show ?thesis using q r by (intro exI [of _ q] exI [of _ r]) auto
qed

theorem hashimoto_full_light_witness:
  "\<exists>cache dataset r. generateCache (\<lambda>b. replicate 64 1) (replicate 16 0) [2] = Done cache \<and>
     generateDataset (\<lambda>b. replicate 64 1) (segment 1 6400 0) (replicate 1600 0) cache = Done dataset \<and>
     hashimotoFull word_ext (\<lambda>b. replicate 64 1) dataset [1] 7 = Done r \<and>
     hashimotoLight word_ext (\<lambda>b. replicate 64 1) 6400 cache [1] 7 = Done r"
  using hashimoto_full_light [of "\<lambda>b. replicate 64 1" "replicate 16 0" 6400 "replicate 1600 0" 1 "segment 1 6400 0" "[2]" word_ext "[1]" 7]
  by (simp add: hasher_64_def)

theorem calc_sizes_prime_witness:
  "\<exists>c d. calcCacheSize 0 = Done (of_nat (64 * c)) \<and> calcDatasetSize 0 = Done (of_nat (128 * d)) \<and> is_prime c \<and> is_prime d"
  using calc_sizes_prime [of 0] by auto

end
