(* ===== verification/Spec2Isabelle.thy ===== *)
theory Spec2Isabelle
  imports State_Spec Vm_Spec Rlp_Raw Crypto_Blake2b Trie_Hash Core_Transition State_Root Core_Transaction Params_Config Consensus_Hashimoto
begin

text \<open>
  A verification library for the consensus core of the Ethereum node of the Holonus blockchain,
  \<open>src/src/go-ethereum\<close> (version 1.9.23): byte codecs, tries, the state database with its journal,
  the virtual machine, the application of messages, transactions with their signers, the chain
  configuration and the proof-of-work function. Paths below are relative to that directory.

  \<^bold>\<open>The program.\<close> A transaction changes the accounts of \<open>core/state\<close>. The changes are kept in
  \<open>stateObject\<close> caches in front of a Merkle Patricia trie (\<open>trie\<close>), each is logged in a journal, and
  \<open>StateDB.RevertToSnapshot\<close> undoes the log back to a snapshot. \<open>core/vm\<close> runs contract code on
  this state: \<open>EVM.Call\<close> and its variants take a snapshot, start the interpreter and revert on an
  error; the interpreter charges gas by tables that differ between the forks of the protocol.
  Trie nodes and contract addresses are hashes of RLP encodings (\<open>rlp\<close>). \<open>core.ApplyMessage\<close> buys gas
  from the pool of the block, calls the EVM, refunds gas and pays the coinbase; the messages come from
  signed transactions (\<open>core/types\<close>). \<open>StateDB.IntermediateRoot\<close> writes the changed accounts to their
  tries and hashes them. Which rules a block follows is decided by \<open>params.ChainConfig\<close>; \<open>consensus/ethash\<close>
  proves the work of its miner.

  \<^bold>\<open>How Go is modelled.\<close> A pure function is a HOL function, a method that changes its receiver
  returns the new value, an error is a value of a sum or option type, a panic is an \<open>outcome\<close>
  (theory \<open>Prelude\<close>) and propagates. \<open>uint64\<close> and byte values are machine words, \<open>big.Int\<close> is \<open>int\<close>,
  a Go map is a HOL map; where the order of iteration over a map could matter it is an argument.
  Slices are lists; where code relies on two slices sharing memory the model says so (the return
  data of \<open>Vm_Instructions\<close>, the entries of jump tables in \<open>Vm_Jump_Table\<close>). Code outside the
  repository is an argument: \<open>ext\<close> (theory \<open>External\<close>) has the methods of
  \<open>github.com/holiman/uint256\<close>, the hash functions and the curve arithmetic; the locale
  \<open>uint256_api\<close> states the documented behaviour of the former and is interpreted on 256-bit words.

  \<^bold>\<open>Theories.\<close>
  \<^item> \<open>Prelude\<close>, \<open>Common\<close>, \<open>External\<close>, \<open>Params\<close>: machine types, outcomes, \<open>common/bytes.go\<close>,
    \<open>common/types.go\<close>, \<open>common/math/integer.go\<close>, \<open>params/protocol_params.go\<close>.
  \<^item> \<open>Rlp_Encode\<close>, \<open>Rlp_Raw\<close>: \<open>rlp/encode.go\<close> (the two-list encode buffer and its writers) and
    \<open>rlp/raw.go\<close>. The buffer computes the recursive RLP encoding; the splitters read it back; no
    encoding is a prefix of another; \<open>CountValues\<close> ends.
  \<^item> \<open>Crypto\<close>, \<open>Crypto_Blake2b\<close>: contract addresses and signature ranges of \<open>crypto/crypto.go\<close>; the
    unrolled BLAKE2b compression of \<open>crypto/blake2b\<close> equals that of RFC 7693.
  \<^item> \<open>Trie_Encoding\<close>, \<open>Trie_Node\<close>, \<open>Trie_Spec\<close>, \<open>Trie_Hash\<close>: \<open>trie/encoding.go\<close>, \<open>node.go\<close>,
    \<open>trie.go\<close>, \<open>hasher.go\<close>. The key encodings are inverse to each other, the trie implements a map
    (\<open>holds\<close> relates a node to its contents, \<open>wfn\<close> is the invariant), and its root hash is a
    function of that map. \<open>db.node\<close>, which loads nodes, is an argument.
  \<^item> \<open>State_Object\<close>, \<open>State_DB\<close>: \<open>core/state/state_object.go\<close>, \<open>journal.go\<close>, \<open>statedb.go\<close>. The trie
    operations that they call are the record \<open>Database\<close>, the snapshot tree the record \<open>Snapshot\<close>.
    \<open>State_Balance\<close>: the ledger of balances, nonces and code that the operations implement.
    \<open>State_Commit\<close> and \<open>State_Root\<close>: \<open>updateTrie\<close>, \<open>updateRoot\<close> and \<open>IntermediateRoot\<close>, and \<open>trie/secure_trie.go\<close>;
    the locale \<open>state_trie\<close> says what the state relies on of a trie and is interpreted on the secure
    trie; the root holds every pending account and does not depend on any order of iteration. These
    two are about tries whose nodes are in memory.
    \<open>State_Revert\<close> and \<open>State_Spec\<close>: \<open>sim\<close> relates states that no getter distinguishes; reverting to
    a snapshot after any operations leads back to a state related by \<open>sim\<close>; \<open>Finalise\<close> does not
    depend on the order of map iteration.
  \<^item> \<open>Vm_Opcodes\<close>, \<open>Vm_Stack\<close>, \<open>Vm_Memory\<close>, \<open>Vm_Contract\<close>, \<open>Vm_Env\<close>, \<open>Vm_Gas\<close>, \<open>Vm_Precompiles\<close>,
    \<open>Vm_Evm\<close>, \<open>Vm_Instructions\<close>, \<open>Vm_Jump_Table\<close>, \<open>Vm_Interpreter\<close>: one theory for each group of
    files of \<open>core/vm\<close>, in the order of their dependencies. The calls of \<open>evm.go\<close> take the
    interpreter as an argument (a \<open>runner\<close>); \<open>interp_Run\<close> closes the recursion with fuel.
    \<open>Vm_Frame\<close> and \<open>Vm_Calls\<close>: what an instruction and a call leave alone, under the locale
    \<open>transfers\<close> for the transfer function of the block context, interpreted on \<open>core/evm.go\<close>.
    \<open>Vm_Fuel\<close> and \<open>Vm_Gas_Bound\<close>: rules that follow the structure of the program (\<open>ends\<close>); every
    step costs gas, so that a run with more fuel than gas ends and more fuel does not change its
    result. \<open>Vm_Spec\<close>: the properties of runs, calls and creations.
  \<^item> \<open>Core_Transition\<close>: \<open>core/gaspool.go\<close>, \<open>core/state_transition.go\<close>. Gas is conserved between message,
    pool and balances, a message is always answered, a transfer changes exactly its accounts.
  \<^item> \<open>Core_Types\<close>, \<open>Core_Transaction\<close>: headers, receipts and the bloom filter, transactions and signers of
    \<open>core/types\<close>. The filter misses no log; signers recover what was signed and refuse other chains.
  \<^item> \<open>Params_Config\<close>: \<open>params/config.go\<close>. What \<open>CheckCompatible\<close> accepts keeps the rules of past blocks, with
    a condition on Petersburg.
  \<^item> \<open>Consensus_Hashimoto\<close>: \<open>consensus/ethash/algorithm.go\<close>. The full and the light computation agree up to
    4 GiB; the sizes are prime.

  \<^bold>\<open>Fuel.\<close> \<open>interp_Run\<close> has one unit of fuel for each step and each nested run; more fuel than
  the gas of the contract is enough (\<open>Run_terminates\<close>), because every operation of every jump
  table costs at least one unit of gas or ends the run. The trie functions have one unit for each
  node; four times the length of the key plus four is enough (\<open>TryUpdate_refines\<close>), because in a
  well-formed trie every node but a hash node consumes a nibble of the key. A secure trie has keys
  of 32 bytes, so its \<open>walk_fuel\<close> is 132. \<open>CheckCompatible\<close> has three rounds more than the height of the
  chain, each of which goes to a lower block; \<open>prime_size\<close> has as many as the size it starts from, and
  needs at most one for each second row (\<open>calc_sizes_prime\<close>).

  \<^bold>\<open>Not modelled.\<close> Tracing, logging, metrics, locks and the goroutines that only prefetch or
  parallelise. Elliptic curves and Keccak (assembly and unrolled limbs) are arguments. The
  reflection over Go types in \<open>rlp\<close> appears as the datatype \<open>go_value\<close>; the stream decoder
  \<open>rlp/decode.go\<close> is driven by reflection throughout and left out. The committer, iterators, proofs
  and the reference-counting database of \<open>trie\<close>, the snapshot layers, the tables of precomputed ethash
  sizes, the rules of consensus engines on headers and their sealing, the block chain and
  its databases, the transaction pool, networking (\<open>p2p\<close>, \<open>eth\<close>, \<open>les\<close>, \<open>light\<close>), key stores, RPC
  and commands are I/O, concurrency and user interface around this core. \<open>src/src/go-ipfs\<close> is a
  wiring of third-party packages; the Solidity contracts and the web application are written in
  other languages.
\<close>

end
